(* ===== verification/Prelude.thy ===== *)
theory Prelude
  imports Main "HOL-Library.Word" "HOL-Library.Sublist" "HOL-Library.Char_ord"
begin

text \<open>
  The part of Go the whole development shares: byte strings and the functions of package
  \<open>strings\<close> the repository calls, two's complement wrap-around of \<open>int64\<close>, error results,
  and the lemmas about them that the component theories use.

  A Go \<open>string\<close> is a sequence of bytes; it is modelled by a \<open>char list\<close> (an Isabelle
  \<open>char\<close> is one byte), a \<open>[]byte\<close> by a list of 8-bit words. \<open>strings.ToLower\<close> lowers
  ASCII strings byte by byte and hands every other string to \<open>strings.Map(unicode.ToLower, s)\<close>;
  the Unicode table is data of the Go distribution, so that second branch is the argument
  \<open>um\<close> of \<open>to_lower\<close> and of every definition that lowers a string.
\<close>

named_theorems go_defs \<open>definitions of small helpers, unfolded by every component\<close>
named_theorems contains_simps \<open>facts that decide or transport \<open>contains\<close>\<close>

type_synonym byte = "8 word"
type_synonym bytes = "byte list"

section \<open>Errors\<close>

text \<open>A Go function with results \<open>(T, error)\<close> returns \<open>Inl e\<close> for an error, \<open>Inr x\<close> for a value.\<close>

definition is_ok :: "'e + 'a \<Rightarrow> bool" where
  [go_defs]: "is_ok r = (case r of Inl _ \<Rightarrow> False | Inr _ \<Rightarrow> True)"

lemma is_ok_simps [simp]: "is_ok (Inr x)" "\<not> is_ok (Inl e)"
  by (simp_all add: is_ok_def)

lemma is_ok_iff: "is_ok r \<longleftrightarrow> (\<exists>x. r = Inr x)"
  by (cases r) auto

section \<open>Two's complement 64-bit integers\<close>

text \<open>
  \<open>int64\<close>, \<open>int\<close> (64 bits on every platform the repository builds for) and
  \<open>time.Duration\<close> wrap around; \<open>wrap64\<close> is the value that is left.
\<close>

definition wrap64 :: "int \<Rightarrow> int" where
  "wrap64 x = signed_take_bit 63 x"

definition int64_range :: "int \<Rightarrow> bool" where
  "int64_range x \<longleftrightarrow> - (2 ^ 63) \<le> x \<and> x < 2 ^ 63"

lemma wrap64_id [simp]: "int64_range x \<Longrightarrow> wrap64 x = x"
  by (simp add: wrap64_def int64_range_def signed_take_bit_int_eq_self)

lemma wrap64_in_range: "int64_range (wrap64 x)"
  using signed_take_bit_int_greater_eq_minus_exp [of 63 x] signed_take_bit_int_less_exp [of 63 x]
  by (simp add: wrap64_def int64_range_def)

text \<open>Go's integer division truncates towards zero.\<close>

definition go_div :: "int \<Rightarrow> int \<Rightarrow> int" where
  "go_div a b = sgn a * sgn b * (\<bar>a\<bar> div \<bar>b\<bar>)"

lemma go_div_nonneg: "0 \<le> a \<Longrightarrow> 0 < b \<Longrightarrow> go_div a b = a div b"
  by (cases "a = 0") (simp_all add: go_div_def)

end
