(* ===== verification/Machines.thy ===== *)
theory Machines
  imports Prelude
begin

text \<open>
  The interfaces of the state machines of the program. An \<open>event_machine\<close> answers each event with its
  next state or not at all (the governor, the tray); an \<open>invariant_machine\<close> has a condition every
  answer keeps. A \<open>step_system\<close> is a step relation with a condition every step keeps (producer and
  consumer of the frame queue, the goroutines of the daemon). The theories of these components
  interpret the interfaces on their definitions.
\<close>

section \<open>Machines driven by events\<close>

locale event_machine =
  fixes step :: "'e \<Rightarrow> 's \<Rightarrow> 's option"
    and runs :: "'e list \<Rightarrow> 's \<Rightarrow> 's option"
  assumes runs_Nil: "runs [] s = Some s"
    and runs_Cons: "runs (e # es) s = Option.bind (step e s) (runs es)"
begin

lemma runs_ConsE:
  assumes "runs (e # es) s = Some t"
  obtains u where "step e s = Some u" "runs es u = Some t"
  using assms by (auto simp: runs_Cons bind_eq_Some_conv)

lemma runs_append: "runs (es @ fs) s = Option.bind (runs es s) (runs fs)"
  by (induction es arbitrary: s) (auto simp: runs_Nil runs_Cons split: Option.bind_split)

text \<open>Induction along a run, with the events handled so far.\<close>

lemma runs_trace [consumes 1, case_names start event]:
  assumes "runs es s = Some t"
    and "P [] s"
    and "\<And>es u e v. runs es s = Some u \<Longrightarrow> P es u \<Longrightarrow> step e u = Some v \<Longrightarrow> P (es @ [e]) v"
  shows "P es t"
  using assms(1)
proof (induction es arbitrary: t rule: rev_induct)
  case Nil
  then show ?case using assms(2) by (simp add: runs_Nil)
next
  case (snoc e es)
  then obtain u where "runs es s = Some u" "step e u = Some t"
    by (auto simp: runs_append runs_Nil runs_Cons bind_eq_Some_conv)
  then show ?case using snoc.IH assms(3) by blast
qed

end

locale invariant_machine = event_machine +
  fixes inv :: "'b \<Rightarrow> bool"
  assumes step_keeps: "step e s = Some t \<Longrightarrow> inv s \<Longrightarrow> inv t"
begin

lemma runs_keep: "runs es s = Some t \<Longrightarrow> inv s \<Longrightarrow> inv t"
  by (induction es t rule: runs_trace) (auto intro: step_keeps)

end

section \<open>Step relations\<close>

locale step_system =
  fixes rel :: "'s \<Rightarrow> 's \<Rightarrow> bool"
    and inv :: "'s \<Rightarrow> bool"
  assumes rel_keeps: "rel s t \<Longrightarrow> inv s \<Longrightarrow> inv t"
begin

lemma reach_keeps: "rel\<^sup>*\<^sup>* s t \<Longrightarrow> inv s \<Longrightarrow> inv t"
  by (induction rule: rtranclp_induct) (auto intro: rel_keeps)

end

end
