(* ===== verification/Go_Strings.thy ===== *)
theory Go_Strings
  imports Prelude
begin

text \<open>
  The functions of packages \<open>strings\<close>, \<open>strconv\<close> and \<open>encoding/hex\<close> that the repository
  calls, on byte strings: \<open>Contains\<close>, \<open>HasPrefix\<close>, \<open>LastIndex\<close>, \<open>ToLower\<close>,
  \<open>TrimSpace\<close>, \<open>Trim\<close>, \<open>Split\<close>, \<open>SplitN\<close>, \<open>Fields\<close>, decimal parsing, and the
  hexadecimal encoding of node identifiers with its round trip.
\<close>

section \<open>Substrings\<close>

fun has_prefix :: "string \<Rightarrow> string \<Rightarrow> bool" where
  "has_prefix [] s = True"
| "has_prefix (p # ps) [] = False"
| "has_prefix (p # ps) (c # cs) = (p = c \<and> has_prefix ps cs)"

fun contains :: "string \<Rightarrow> string \<Rightarrow> bool" where
  "contains [] sub = (sub = [])"
| "contains (c # cs) sub = (has_prefix sub (c # cs) \<or> contains cs sub)"

lemma has_prefix_iff: "has_prefix p s \<longleftrightarrow> prefix p s"
  by (induction p s rule: has_prefix.induct) auto

lemma contains_iff: "contains s sub \<longleftrightarrow> sublist sub s"
proof (induction s)
  case Nil
  then show ?case by simp
next
  case (Cons c cs)
  then show ?case
    by (auto simp: has_prefix_iff sublist_Cons_right)
qed

lemma contains_appendI [contains_simps]: "contains (ps @ sub @ ss) sub"
  by (simp add: contains_iff)

lemma contains_refl [simp, contains_simps]: "contains s s"
  by (simp add: contains_iff)

lemma contains_trans: "contains s t \<Longrightarrow> contains t u \<Longrightarrow> contains s u"
  by (auto simp: contains_iff intro: sublist_order.order_trans)

lemma contains_Nil [simp]: "contains s []"
  by (simp add: contains_iff)

text \<open>The byte offset of the last occurrence; \<open>None\<close> is Go's \<open>-1\<close>.\<close>

fun last_index :: "string \<Rightarrow> string \<Rightarrow> nat option" where
  "last_index [] sub = (if sub = [] then Some 0 else None)"
| "last_index (c # cs) sub =
     (case last_index cs sub of
        Some i \<Rightarrow> Some (Suc i)
      | None \<Rightarrow> (if has_prefix sub (c # cs) then Some 0 else None))"

lemma last_index_None: "last_index s sub = None \<longleftrightarrow> \<not> contains s sub"
  by (induction s) (auto split: option.splits)

lemma last_index_Some:
  "last_index s sub = Some i \<Longrightarrow> i + length sub \<le> length s \<and> take (length sub) (drop i s) = sub"
proof (induction s arbitrary: i)
  case Nil
  then show ?case by (simp split: if_splits)
next
  case (Cons c cs)
  show ?case
  proof (cases "last_index cs sub")
    case None
    with Cons.prems have "i = 0" and p: "prefix sub (c # cs)"
      by (auto simp: has_prefix_iff split: if_splits)
    with prefix_length_le [OF p] show ?thesis by (auto simp: prefix_def)
  next
    case (Some j)
    with Cons.prems have "i = Suc j" by simp
    with Cons.IH [OF Some] show ?thesis by simp
  qed
qed

section \<open>Case and white space\<close>

definition ascii_lower :: "char \<Rightarrow> char" where
  "ascii_lower c = (if CHR ''A'' \<le> c \<and> c \<le> CHR ''Z'' then char_of ((of_char c :: nat) + 32) else c)"

definition is_ascii :: "string \<Rightarrow> bool" where
  "is_ascii s = list_all (\<lambda>c. (of_char c :: nat) < 128) s"

definition to_lower :: "(string \<Rightarrow> string) \<Rightarrow> string \<Rightarrow> string" where
  "to_lower um s = (if is_ascii s then map ascii_lower s else um s)"

lemma is_ascii_simps [simp]:
  "is_ascii []" "is_ascii (c # s) \<longleftrightarrow> (of_char c :: nat) < 128 \<and> is_ascii s"
  "is_ascii (s @ t) \<longleftrightarrow> is_ascii s \<and> is_ascii t"
  by (simp_all add: is_ascii_def)

lemma to_lower_Nil [simp]: "to_lower um [] = []"
  by (simp add: to_lower_def)

lemma to_lower_ascii: "is_ascii s \<Longrightarrow> to_lower um s = map ascii_lower s"
  by (simp add: to_lower_def)

text \<open>The UTF-8 encodings of the code points for which \<open>unicode.IsSpace\<close> holds.\<close>

definition space_runes :: "string list" where
  "space_runes =
     [[CHR 0x20], [CHR 0x09], [CHR 0x0A], [CHR 0x0B], [CHR 0x0C], [CHR 0x0D],
      [CHR 0xC2, CHR 0x85], [CHR 0xC2, CHR 0xA0], [CHR 0xE1, CHR 0x9A, CHR 0x80],
      [CHR 0xE2, CHR 0x80, CHR 0x80], [CHR 0xE2, CHR 0x80, CHR 0x81],
      [CHR 0xE2, CHR 0x80, CHR 0x82], [CHR 0xE2, CHR 0x80, CHR 0x83],
      [CHR 0xE2, CHR 0x80, CHR 0x84], [CHR 0xE2, CHR 0x80, CHR 0x85],
      [CHR 0xE2, CHR 0x80, CHR 0x86], [CHR 0xE2, CHR 0x80, CHR 0x87],
      [CHR 0xE2, CHR 0x80, CHR 0x88], [CHR 0xE2, CHR 0x80, CHR 0x89],
      [CHR 0xE2, CHR 0x80, CHR 0x8A], [CHR 0xE2, CHR 0x80, CHR 0xA8],
      [CHR 0xE2, CHR 0x80, CHR 0xA9], [CHR 0xE2, CHR 0x80, CHR 0xAF],
      [CHR 0xE2, CHR 0x81, CHR 0x9F], [CHR 0xE3, CHR 0x80, CHR 0x80]]"

definition space_len :: "string \<Rightarrow> nat" where
  "space_len s = (case find (\<lambda>r. has_prefix r s) space_runes of None \<Rightarrow> 0 | Some r \<Rightarrow> length r)"

definition space_len_rev :: "string \<Rightarrow> nat" where
  "space_len_rev s =
     (case find (\<lambda>r. has_prefix (rev r) s) space_runes of None \<Rightarrow> 0 | Some r \<Rightarrow> length r)"

text \<open>\<open>trim_with f\<close> drops leading runs of length \<open>f\<close>; the fuel is the length of the string.\<close>

fun trim_with :: "(string \<Rightarrow> nat) \<Rightarrow> nat \<Rightarrow> string \<Rightarrow> string" where
  "trim_with f 0 s = s"
| "trim_with f (Suc n) s = (if f s = 0 then s else trim_with f n (drop (f s) s))"

definition trim_space :: "string \<Rightarrow> string" where
  "trim_space s =
     (let l = trim_with space_len (length s) s
      in rev (trim_with space_len_rev (length l) (rev l)))"

definition trim_set :: "char set \<Rightarrow> string \<Rightarrow> string" where
  "trim_set cs s = rev (dropWhile (\<lambda>c. c \<in> cs) (rev (dropWhile (\<lambda>c. c \<in> cs) s)))"

lemma trim_with_suffix: "suffix (trim_with f n s) s"
proof (induction n arbitrary: s)
  case 0
  then show ?case by simp
next
  case (Suc n)
  then show ?case
    by (auto intro: suffix_order.order_trans suffix_drop)
qed

lemma trim_space_sublist: "sublist (trim_space s) s"
proof -
  let ?l = "trim_with space_len (length s) s"
  have "suffix ?l s" by (rule trim_with_suffix)
  moreover have "prefix (trim_space s) ?l"
    using trim_with_suffix [of space_len_rev "length ?l" "rev ?l"]
    by (simp add: trim_space_def Let_def suffix_to_prefix)
  ultimately show ?thesis
    by (meson prefix_imp_sublist sublist_order.order_trans suffix_imp_sublist)
qed

section \<open>Splitting\<close>

text \<open>\<open>strings.Split(s, sep)\<close> for a separator of one byte: always at least one piece.\<close>

fun split_on :: "char \<Rightarrow> string \<Rightarrow> string list" where
  "split_on d [] = [[]]"
| "split_on d (c # cs) =
     (if c = d then [] # split_on d cs
      else (case split_on d cs of [] \<Rightarrow> [[c]] | p # ps \<Rightarrow> (c # p) # ps))"

lemma split_on_not_Nil [simp]: "split_on d s \<noteq> []"
  by (induction s) (auto split: list.splits)

lemma split_on_no_sep: "d \<notin> set s \<Longrightarrow> split_on d s = [s]"
  by (induction s) auto

lemma split_on_append: "d \<notin> set p \<Longrightarrow> split_on d (p @ d # s) = p # split_on d s"
  by (induction p) auto

text \<open>\<open>strings.SplitN(s, sep, 2)\<close>: one piece, or the pieces before and after the first separator.\<close>

fun split_first :: "char \<Rightarrow> string \<Rightarrow> string list" where
  "split_first d [] = [[]]"
| "split_first d (c # cs) =
     (if c = d then [[], cs]
      else (case split_first d cs of [] \<Rightarrow> [[c]] | p # ps \<Rightarrow> (c # p) # ps))"

lemma split_first_append: "d \<notin> set p \<Longrightarrow> split_first d (p @ d # s) = [p, s]"
  by (induction p) auto

section \<open>Fields\<close>

text \<open>\<open>strings.Fields\<close>: the pieces between runs of white space, none of them empty.\<close>

fun split_fields_from :: "string \<Rightarrow> nat \<Rightarrow> string \<Rightarrow> string list" where
  "split_fields_from w 0 s = (if w = [] then [] else [w])"
| "split_fields_from w (Suc n) [] = (if w = [] then [] else [w])"
| "split_fields_from w (Suc n) (c # cs) =
     (let k = space_len (c # cs) in
      if k = 0 then split_fields_from (w @ [c]) n cs
      else (if w = [] then [] else [w]) @ split_fields_from [] n (drop k (c # cs)))"

definition split_fields :: "string \<Rightarrow> string list" where
  "split_fields s = split_fields_from [] (length s) s"

lemma fields_from_nonempty: "x \<in> set (split_fields_from w n s) \<Longrightarrow> x \<noteq> []"
  by (induction w n s rule: split_fields_from.induct) (auto simp: Let_def split: if_splits)

section \<open>Numbers\<close>

definition is_alpha :: "char \<Rightarrow> bool" where
  "is_alpha c \<longleftrightarrow> c \<ge> CHR ''A'' \<and> CHR ''Z'' \<ge> c \<or> c \<ge> CHR ''a'' \<and> CHR ''z'' \<ge> c"

definition is_digit :: "char \<Rightarrow> bool" where
  "is_digit c \<longleftrightarrow> CHR ''0'' \<le> c \<and> c \<le> CHR ''9''"

definition is_hex :: "char \<Rightarrow> bool" where
  "is_hex c \<longleftrightarrow> is_digit c \<or> CHR ''a'' \<le> c \<and> c \<le> CHR ''f'' \<or> CHR ''A'' \<le> c \<and> c \<le> CHR ''F''"

definition unhex :: "char \<Rightarrow> nat" where
  "unhex c =
     (if is_digit c then of_char c - 48
      else if CHR ''a'' \<le> c then of_char c - 87 else of_char c - 55)"

text \<open>
  \<open>strconv.ParseInt(s, 10, 64)\<close> and \<open>strconv.Atoi\<close>: an optional sign and at least one digit;
  \<open>None\<close> is a syntax or range error.
\<close>

fun digits_val :: "int \<Rightarrow> string \<Rightarrow> int option" where
  "digits_val acc [] = Some acc"
| "digits_val acc (c # cs) =
     (if is_digit c then digits_val (acc * 10 + (of_char c - 48)) cs else None)"

definition parse_int :: "string \<Rightarrow> int option" where
  "parse_int s =
     (let neg = (s \<noteq> [] \<and> hd s = CHR ''-'');
          ds = (if s \<noteq> [] \<and> (hd s = CHR ''-'' \<or> hd s = CHR ''+'') then tl s else s)
      in if ds = [] then None
         else (case digits_val 0 ds of
                 None \<Rightarrow> None
               | Some v \<Rightarrow> (let x = (if neg then - v else v) in if int64_range x then Some x else None)))"

lemma parse_int_range: "parse_int s = Some x \<Longrightarrow> int64_range x"
  by (auto simp: parse_int_def Let_def split: if_splits option.splits)

lemma digits_val_nonneg: "0 \<le> acc \<Longrightarrow> digits_val acc s = Some x \<Longrightarrow> 0 \<le> x"
proof (induction acc s rule: digits_val.induct)
  case (2 acc c cs)
  have "48 \<le> (of_char c :: int)" if "is_digit c"
  proof -
    have "of_char CHR ''0'' \<le> (of_char c :: nat)" using that by (simp add: is_digit_def less_eq_char_def)
    then have "48 \<le> (of_char c :: nat)" by simp
    moreover have "int (of_char c) = of_char c" by (simp add: of_nat_of_char)
    ultimately show ?thesis by linarith
  qed
  with 2 show ?case by (auto split: if_splits)
qed simp

text \<open>Decimal printing, the verb \<open>%d\<close>.\<close>

fun digits :: "nat \<Rightarrow> string" where
  "digits n = (if n < 10 then [char_of (48 + n)] else digits (n div 10) @ [char_of (48 + n mod 10)])"

declare digits.simps [simp del]

definition itoa :: "int \<Rightarrow> string" where
  "itoa i = (if i < 0 then CHR ''-'' # digits (nat (- i)) else digits (nat i))"

lemma space_len_0:
  assumes "c \<notin> set (map hd space_runes)" shows "space_len (c # s) = 0"
proof -
  have "list_all (\<lambda>r. r \<noteq> []) space_runes" by code_simp
  then have "\<not> has_prefix r (c # s)" if "r \<in> set space_runes" for r
    using assms that by (cases r) (force simp: list_all_iff)+
  then have "find (\<lambda>r. has_prefix r (c # s)) space_runes = None" by (simp add: find_None_iff)
  then show ?thesis by (simp add: space_len_def)
qed

lemma digit_char:
  assumes "n < 10"
  shows "is_digit (char_of (48 + n))" "of_char (char_of (48 + n) :: char) = 48 + int n"
    "space_len (char_of (48 + n) # s) = 0"
proof -
  have "list_all (\<lambda>n. is_digit (char_of (48 + n)) \<and> of_char (char_of (48 + n) :: char) = 48 + n
      \<and> char_of (48 + n) \<notin> set (map hd space_runes)) [0..<10]"
    by code_simp
  then have c: "is_digit (char_of (48 + n))" "of_char (char_of (48 + n) :: char) = 48 + n"
    "char_of (48 + n) \<notin> set (map hd space_runes)"
    using assms by (simp_all add: list_all_iff del: upt_Suc)
  have i: "(of_char ch :: int) = int (of_char ch)" for ch :: char by (simp add: of_nat_of_char)
  show "is_digit (char_of (48 + n))" by (rule c(1))
  show "of_char (char_of (48 + n) :: char) = 48 + int n" unfolding i c(2) by simp
  show "space_len (char_of (48 + n) # s) = 0" by (rule space_len_0 [OF c(3)])
qed

lemma digits_val_append:
  "digits_val acc (s @ t) = (case digits_val acc s of None \<Rightarrow> None | Some v \<Rightarrow> digits_val v t)"
  by (induction acc s rule: digits_val.induct) (auto split: option.splits)

lemma digits_val_digits: "digits_val 0 (digits n) = Some (int n)"
proof (induction n rule: digits.induct)
  case (1 n)
  show ?case
  proof (cases "n < 10")
    case True
    then show ?thesis using digit_char [OF True] by (simp add: digits.simps [of n])
  next
    case False
    have d: "n mod 10 < 10" by simp
    have "int n = int (n div 10) * 10 + int (n mod 10)"
      by (metis div_mult_mod_eq of_nat_add of_nat_mult of_nat_numeral)
    with 1 [OF False] digit_char [OF d] False show ?thesis
      by (simp add: digits.simps [of n] digits_val_append)
  qed
qed

lemma digits_chars: "c \<in> set (digits n) \<Longrightarrow> is_digit c"
proof (induction n rule: digits.induct)
  case (1 n)
  then show ?case using digit_char(1) [of n] digit_char(1) [of "n mod 10"]
    by (cases "n < 10") (auto simp: digits.simps [of n])
qed

lemma digits_not_Nil [simp]: "digits n \<noteq> []"
  by (simp add: digits.simps [of n])

lemma digits_hd: "hd (digits n) \<noteq> CHR ''-'' \<and> hd (digits n) \<noteq> CHR ''+''"
  using digits_chars [of "hd (digits n)" n] by (auto simp: is_digit_def less_eq_char_def)

lemma parse_int_itoa: "int64_range i \<Longrightarrow> parse_int (itoa i) = Some i"
  using digits_hd [of "nat i"] digits_val_digits [of "nat i"] digits_val_digits [of "nat (- i)"]
  by (auto simp: parse_int_def itoa_def Let_def)

section \<open>Hexadecimal encoding\<close>

definition hex_digit :: "nat \<Rightarrow> char" where
  "hex_digit n = ''0123456789abcdef'' ! n"

fun hex_encode :: "bytes \<Rightarrow> string" where
  "hex_encode [] = []"
| "hex_encode (b # bs) = hex_digit (unat b div 16) # hex_digit (unat b mod 16) # hex_encode bs"

text \<open>\<open>hex.DecodeString\<close>; \<open>None\<close> for an odd length or a character that is no digit.\<close>

fun hex_decode :: "string \<Rightarrow> bytes option" where
  "hex_decode [] = Some []"
| "hex_decode [c] = None"
| "hex_decode (c # d # s) =
     (if is_hex c \<and> is_hex d
      then map_option ((#) (word_of_nat (16 * unhex c + unhex d))) (hex_decode s) else None)"

lemma hex_digit_ok: "n < 16 \<Longrightarrow> is_hex (hex_digit n) \<and> unhex (hex_digit n) = n"
proof -
  have "list_all (\<lambda>n. is_hex (hex_digit n) \<and> unhex (hex_digit n) = n) [0..<16]"
    by code_simp
  then show "n < 16 \<Longrightarrow> ?thesis" by (simp add: list_all_iff del: upt_Suc)
qed

lemma hex_decode_encode [simp]: "hex_decode (hex_encode bs) = Some bs"
proof (induction bs)
  case (Cons b bs)
  have "unat b < 256" using unsigned_less [of b] by simp
  then have "unat b div 16 < 16" by simp
  then show ?case using hex_digit_ok Cons by simp
qed simp

lemma hex_encode_inj: "hex_encode a = hex_encode b \<Longrightarrow> a = b"
  using hex_decode_encode by (metis option.inject)

lemma length_hex_encode [simp]: "length (hex_encode bs) = 2 * length bs"
  by (induction bs) simp_all

lemma hex_decode_length: "hex_decode s = Some bs \<Longrightarrow> length s = 2 * length bs"
  by (induction s arbitrary: bs rule: hex_decode.induct) (auto split: if_splits)

end
