(* ===== verification/Regexp.thy ===== *)
theory Regexp
  imports Go_Strings
begin

text \<open>
  What the repository uses of package \<open>regexp\<close>: \<open>regexp.Compile\<close> and
  \<open>MatchString\<close>. Patterns in the part of the RE2 syntax that the shipped blocklists are written
  in (an optional \<open>(?i)\<close> at the front, literals, escaped punctuation, \<open>.\<close>, \<open>?\<close>,
  groups, alternation, \<open>^\<close> and \<open>$\<close>) are parsed and matched here as Go does it, on
  UTF-8 bytes. Every other pattern, which only a user's file can contain, is compiled by the
  argument \<open>ext\<close> of \<open>re_compile\<close>: \<open>None\<close> for a pattern Go rejects, otherwise the
  pattern's match predicate.
\<close>

section \<open>Runes\<close>

text \<open>
  The width of the rune at the front of a string, as \<open>utf8.DecodeRuneInString\<close> finds it:
  an invalid sequence is one byte wide.
\<close>

definition in_bytes :: "nat \<Rightarrow> nat \<Rightarrow> char \<Rightarrow> bool" where
  "in_bytes lo hi c \<longleftrightarrow> lo \<le> (of_char c :: nat) \<and> (of_char c :: nat) \<le> hi"

fun rune_len :: "string \<Rightarrow> nat" where
  "rune_len [] = 0"
| "rune_len (a # s) =
     (if in_bytes 0xC2 0xDF a then
        (case s of b # _ \<Rightarrow> if in_bytes 0x80 0xBF b then 2 else 1 | _ \<Rightarrow> 1)
      else if in_bytes 0xE0 0xEF a then
        (case s of
           b # c # _ \<Rightarrow>
             if in_bytes (if a = CHR 0xE0 then 0xA0 else 0x80) (if a = CHR 0xED then 0x9F else 0xBF) b
                \<and> in_bytes 0x80 0xBF c
             then 3 else 1
         | _ \<Rightarrow> 1)
      else if in_bytes 0xF0 0xF4 a then
        (case s of
           b # c # d # _ \<Rightarrow>
             if in_bytes (if a = CHR 0xF0 then 0x90 else 0x80) (if a = CHR 0xF4 then 0x8F else 0xBF) b
                \<and> in_bytes 0x80 0xBF c \<and> in_bytes 0x80 0xBF d
             then 4 else 1
         | _ \<Rightarrow> 1)
      else 1)"

lemma rune_len_pos: "s \<noteq> [] \<Longrightarrow> 0 < rune_len s"
  by (cases s) (auto split: list.splits)

lemma rune_len_le_length: "rune_len s \<le> length s"
  by (cases s) (auto split: list.splits)

lemma rune_len_continuation:
  "0 < i \<Longrightarrow> i < rune_len s \<Longrightarrow> 128 \<le> (of_char (s ! i) :: nat)"
  by (cases s)
    (auto simp: in_bytes_def less_Suc_eq numeral_eq_Suc split: list.splits if_splits)

lemma rune_len_stops_at_ascii:
  assumes "p \<noteq> []" and "t \<noteq> []" and "(of_char (hd t) :: nat) < 128"
  shows "rune_len (p @ t) \<le> length p"
proof (rule ccontr)
  assume "\<not> rune_len (p @ t) \<le> length p"
  then have "128 \<le> (of_char ((p @ t) ! length p) :: nat)"
    using assms(1) by (intro rune_len_continuation) auto
  moreover have "(p @ t) ! length p = hd t"
    using assms(2) by (simp add: nth_append hd_conv_nth)
  ultimately show False using assms(3) by simp
qed

section \<open>Syntax\<close>

datatype re = REmpty | RLit bool char | RAny | RBegin | REnd | RCat re re | RAlt re re | ROpt re

definition re_meta :: "char set" where
  "re_meta = set ''.+*?()|[]{}^$'' \<union> {CHR 0x5C}"

definition re_punct :: "char \<Rightarrow> bool" where
  "re_punct c \<longleftrightarrow> in_bytes 33 47 c \<or> in_bytes 58 64 c \<or> in_bytes 91 96 c \<or> in_bytes 123 126 c"

definition starts_with :: "char set \<Rightarrow> string \<Rightarrow> bool" where
  "starts_with cs s = (case s of [] \<Rightarrow> False | c # _ \<Rightarrow> c \<in> cs)"

text \<open>
  A recursive descent parser; each call spends one unit of fuel, \<open>parse_re\<close> gives four per
  byte of the pattern, and running out puts the pattern outside the subset.
\<close>

fun p_alt :: "nat \<Rightarrow> bool \<Rightarrow> string \<Rightarrow> (re \<times> string) option"
and p_seq :: "nat \<Rightarrow> bool \<Rightarrow> string \<Rightarrow> (re \<times> string) option"
and p_item :: "nat \<Rightarrow> bool \<Rightarrow> string \<Rightarrow> (re \<times> string) option"
and p_atom :: "nat \<Rightarrow> bool \<Rightarrow> string \<Rightarrow> (re \<times> string) option" where
  "p_alt 0 f s = None"
| "p_alt (Suc n) f s =
     (case p_seq n f s of
        None \<Rightarrow> None
      | Some (r, t) \<Rightarrow>
          if starts_with {CHR ''|''} t then
            (case p_alt n f (tl t) of None \<Rightarrow> None | Some (q, u) \<Rightarrow> Some (RAlt r q, u))
          else Some (r, t))"
| "p_seq 0 f s = None"
| "p_seq (Suc n) f s =
     (if s = [] \<or> starts_with {CHR '')'', CHR ''|''} s then Some (REmpty, s)
      else (case p_item n f s of
              None \<Rightarrow> None
            | Some (r, t) \<Rightarrow>
                (case p_seq n f t of None \<Rightarrow> None | Some (q, u) \<Rightarrow> Some (RCat r q, u))))"
| "p_item 0 f s = None"
| "p_item (Suc n) f s =
     (case p_atom n f s of
        None \<Rightarrow> None
      | Some (r, t) \<Rightarrow>
          if starts_with {CHR ''?''} t then
            (if starts_with (set ''?*+{'') (tl t) then None else Some (ROpt r, tl t))
          else if starts_with (set ''*+{'') t then None
          else Some (r, t))"
| "p_atom 0 f s = None"
| "p_atom (Suc n) f s =
     (case s of
        [] \<Rightarrow> None
      | c # t \<Rightarrow>
          if c = CHR ''('' then
            (if starts_with {CHR ''?''} t then None
             else (case p_alt n f t of
                     None \<Rightarrow> None
                   | Some (r, u) \<Rightarrow> if starts_with {CHR '')''} u then Some (r, tl u) else None))
          else if c = CHR ''.'' then Some (RAny, t)
          else if c = CHR ''^'' then Some (RBegin, t)
          else if c = CHR ''$'' then Some (REnd, t)
          else if c = CHR 0x5C then
            (case t of [] \<Rightarrow> None | d # u \<Rightarrow> if re_punct d then Some (RLit f d, u) else None)
          else if c \<in> re_meta \<or> \<not> in_bytes 32 126 c then None
          else Some (RLit f c, t))"

definition parse_re :: "string \<Rightarrow> re option" where
  "parse_re p =
     (let fold = has_prefix ''(?i)'' p; body = (if fold then drop 4 p else p)
      in case p_alt (4 * length p + 8) fold body of
           None \<Rightarrow> None
         | Some (r, t) \<Rightarrow> if t = [] then Some r else None)"

section \<open>Matching\<close>

text \<open>
  \<open>lit_rest f c s\<close> is what is left of \<open>s\<close> after the literal \<open>c\<close>, in all ways. Under
  \<open>(?i)\<close> Go compares by Unicode simple folding: the other case of an ASCII letter, and the
  two non-ASCII letters that fold to ASCII, the Kelvin sign to \<open>k\<close> and the long s to \<open>s\<close>.
\<close>

definition lit_rest :: "bool \<Rightarrow> char \<Rightarrow> string \<Rightarrow> string list" where
  "lit_rest f c s =
     (case s of
        [] \<Rightarrow> []
      | d # t \<Rightarrow> if d = c \<or> f \<and> ascii_lower d = ascii_lower c then [t] else [])
     @ (if f \<and> ascii_lower c = CHR ''k'' \<and> has_prefix [CHR 0xE2, CHR 0x84, CHR 0xAA] s
        then [drop 3 s] else [])
     @ (if f \<and> ascii_lower c = CHR ''s'' \<and> has_prefix [CHR 0xC5, CHR 0xBF] s
        then [drop 2 s] else [])"

text \<open>
  \<open>re_rest r (b, s)\<close> lists what can be left after a match of \<open>r\<close> at the front of \<open>s\<close>;
  \<open>b\<close> says whether this is the beginning of the text.
\<close>

fun re_rest :: "re \<Rightarrow> bool \<times> string \<Rightarrow> (bool \<times> string) list" where
  "re_rest REmpty p = [p]"
| "re_rest (RLit f c) (b, s) = map (Pair False) (lit_rest f c s)"
| "re_rest RAny (b, s) =
     (if s = [] \<or> hd s = CHR 0x0A then [] else [(False, drop (rune_len s) s)])"
| "re_rest RBegin (b, s) = (if b then [(b, s)] else [])"
| "re_rest REnd (b, s) = (if s = [] then [(b, s)] else [])"
| "re_rest (RCat r q) p = concat (map (re_rest q) (re_rest r p))"
| "re_rest (RAlt r q) p = re_rest r p @ re_rest q p"
| "re_rest (ROpt r) p = re_rest r p @ [p]"

text \<open>An unanchored search tries every rune boundary from the left.\<close>

function re_search :: "re \<Rightarrow> bool \<Rightarrow> string \<Rightarrow> bool" where
  "re_search r b s =
     (if re_rest r (b, s) \<noteq> [] then True
      else if s = [] then False
      else re_search r False (drop (rune_len s) s))"
  by pat_completeness auto
termination
  by (relation "measure (\<lambda>(r, b, s). length s)") (auto simp: rune_len_pos)

declare re_search.simps [simp del]

definition match_re :: "re \<Rightarrow> string \<Rightarrow> bool" where
  "match_re r s = re_search r True s"

record regexp =
  re_string :: string
  re_match :: "string \<Rightarrow> bool"

definition re_compile :: "(string \<Rightarrow> (string \<Rightarrow> bool) option) \<Rightarrow> string \<Rightarrow> regexp option" where
  "re_compile ext p =
     (case parse_re p of
        Some r \<Rightarrow> Some \<lparr>re_string = p, re_match = match_re r\<rparr>
      | None \<Rightarrow> map_option (\<lambda>m. \<lparr>re_string = p, re_match = m\<rparr>) (ext p))"

lemma re_compile_string: "re_compile ext p = Some re \<Longrightarrow> re_string re = p"
  by (auto simp: re_compile_def split: option.splits)

section \<open>Searching for a literal\<close>

text \<open>A match at any position that starts with an ASCII byte is found.\<close>

lemma re_search_at:
  assumes "t \<noteq> []" and "(of_char (hd t) :: nat) < 128" and "\<And>b. re_rest r (b, t) \<noteq> []"
  shows "re_search r b (p @ t)"
proof (induction "length p" arbitrary: p b rule: less_induct)
  case less
  show ?case
  proof (cases "p = []")
    case True
    with assms(3) show ?thesis by (simp add: re_search.simps)
  next
    case False
    then have le: "rune_len (p @ t) \<le> length p" and pos: "0 < rune_len (p @ t)"
      using assms(1,2) by (auto intro: rune_len_stops_at_ascii rune_len_pos)
    let ?p = "drop (rune_len (p @ t)) p"
    have "length ?p < length p" using False pos by simp
    then have "re_search r False (?p @ t)" by (rule less)
    then have "re_search r False (drop (rune_len (p @ t)) (p @ t))" using le by simp
    moreover have "p @ t \<noteq> []" using False by simp
    ultimately show ?thesis by (subst re_search.simps) (simp only: if_True if_False split: if_split, simp)
  qed
qed

fun lit_seq :: "string \<Rightarrow> re" where
  "lit_seq [] = REmpty"
| "lit_seq (c # w) = RCat (RLit True c) (lit_seq w)"

lemma lit_seq_rest:
  "map ascii_lower v = map ascii_lower w \<Longrightarrow> re_rest (lit_seq w) (b, v @ t) \<noteq> []"
proof (induction w arbitrary: v b)
  case Nil
  then show ?case by simp
next
  case (Cons c w)
  then obtain d v' where v: "v = d # v'" and d: "ascii_lower d = ascii_lower c"
    and v': "map ascii_lower v' = map ascii_lower w"
    by (cases v) auto
  have "(v' @ t) \<in> set (lit_rest True c (v @ t))"
    using v d by (auto simp: lit_rest_def)
  then have "(False, v' @ t) \<in> set (re_rest (RLit True c) (b, v @ t))"
    by auto
  moreover have "re_rest (lit_seq w) (False, v' @ t) \<noteq> []"
    using Cons.IH [OF v'] .
  ultimately show ?case
    by (fastforce simp del: re_rest.simps(2))
qed

lemma ascii_lower_lt_128: "(of_char (ascii_lower c) :: nat) < 128 \<longleftrightarrow> (of_char c :: nat) < 128"
proof (cases "CHR ''A'' \<le> c \<and> c \<le> CHR ''Z''")
  case True
  then have "65 \<le> (of_char c :: nat)" "(of_char c :: nat) \<le> 90"
    by (simp_all add: less_eq_char_def)
  then show ?thesis
    using True by (simp add: ascii_lower_def)
next
  case False
  then show ?thesis by (auto simp: ascii_lower_def)
qed

text \<open>
  A case-insensitive literal pattern finds every text that contains it up to ASCII case.
\<close>

lemma lit_search:
  assumes "contains (map ascii_lower s) w" and "w \<noteq> []" and "is_ascii w"
    and "map ascii_lower w = w"
  shows "re_search (lit_seq w) b s"
proof -
  obtain ps ss where "map ascii_lower s = ps @ w @ ss"
    using assms(1) by (auto simp: contains_iff sublist_def)
  then obtain p v t where s: "s = p @ v @ t" and v: "map ascii_lower v = w"
    by (metis map_eq_append_conv)
  have "v \<noteq> []" using v assms(2) by auto
  moreover have "(of_char (hd v) :: nat) < 128"
    using v assms(2,3) ascii_lower_lt_128 [of "hd v"]
    by (cases v) auto
  ultimately have "re_search (lit_seq w) b (p @ (v @ t))"
    using v assms(4) by (intro re_search_at lit_seq_rest) auto
  then show ?thesis by (simp add: s)
qed

text \<open>On ASCII text that search is exact: a literal pattern matches the texts that contain it up to case.\<close>

lemma lit_rest_ascii:
  "is_ascii s \<Longrightarrow> lit_rest True c s = (case s of [] \<Rightarrow> [] | d # t \<Rightarrow> if ascii_lower d = ascii_lower c then [t] else [])"
  by (cases s) (auto simp: lit_rest_def is_ascii_def)

lemma lit_seq_rest_ascii:
  "is_ascii s \<Longrightarrow> re_rest (lit_seq w) (b, s) \<noteq> [] \<longleftrightarrow> has_prefix (map ascii_lower w) (map ascii_lower s)"
proof (induction w arbitrary: b s)
  case (Cons c w)
  then show ?case by (cases s) (auto simp: lit_rest_ascii is_ascii_def)
qed simp

lemma rune_len_ascii: "is_ascii (c # s) \<Longrightarrow> rune_len (c # s) = 1"
  by (auto simp: is_ascii_def in_bytes_def)

lemma lit_search_ascii:
  "is_ascii s \<Longrightarrow> re_search (lit_seq w) b s \<longleftrightarrow> contains (map ascii_lower s) (map ascii_lower w)"
proof (induction s arbitrary: b)
  case Nil
  then show ?case by (subst re_search.simps) (use lit_seq_rest_ascii [of "[]" w b] in \<open>cases w; auto\<close>)
next
  case (Cons c s)
  have "is_ascii s" using Cons.prems by (simp add: is_ascii_def)
  then show ?case using Cons.IH [of False] lit_seq_rest_ascii [OF Cons.prems, of w b] rune_len_ascii [OF Cons.prems]
    by (subst re_search.simps) auto
qed

end
