(* ===== verification/Blocklist.thy ===== *)
theory Blocklist
  imports Regexp
begin

text \<open>
  \<open>internal/filter/blocklist.go\<close>: the compiled blocklist, the check of a window against it,
  the built-in patterns, loading and merging the user's file, and the hot-reload loop.

  The parsed form of a file comes from \<open>gopkg.in/yaml.v3\<close>, which is the argument
  \<open>yaml\<close>; \<open>um\<close> is the Unicode branch of \<open>strings.ToLower\<close> and \<open>ext\<close> compiles the patterns
  outside the modelled regular expression syntax. Go's \<open>map[string]struct{}\<close> is a set of strings
  (the code only tests membership and ranges over it for a test that does not depend on the
  order). The mutex and the atomic pointer make a reload one indivisible replacement.
\<close>

section \<open>Data\<close>

record blocklist_config =
  cfg_apps :: "string list"
  cfg_auth_patterns :: "string list"
  cfg_url_patterns :: "string list"
  cfg_title_patterns :: "string list"
  cfg_sensitive_input_roles :: "string list"

record compiled_blocklist =
  apps :: "string set"
  auth_patterns :: "string set"
  url_regexps :: "regexp list"
  title_regexps :: "regexp list"
  sensitive_inputs :: "string set"

record window_context =
  process_name :: string
  window_title :: string
  browser_url :: string
  focused_input_role :: string
  pid :: int

record block_decision =
  blocked :: bool
  reason :: string

datatype blocklist_error =
    ReadError string
  | ParseError string
  | InvalidUrlPattern string
  | InvalidTitlePattern string

record blocklist =
  current :: "compiled_blocklist option"
  healthy :: bool
  watching :: bool

section \<open>The check\<close>

definition first_match :: "regexp list \<Rightarrow> string \<Rightarrow> regexp option" where
  "first_match res s = find (\<lambda>r. re_match r s) res"

definition check_compiled ::
  "(string \<Rightarrow> string) \<Rightarrow> compiled_blocklist \<Rightarrow> window_context \<Rightarrow> block_decision" where
  "check_compiled um c ctx =
     (let pname = to_lower um (process_name ctx);
          url_hit = (if browser_url ctx \<noteq> [] then first_match (url_regexps c) (browser_url ctx) else None);
          title_hit = (if window_title ctx \<noteq> [] then first_match (title_regexps c) (window_title ctx) else None)
      in
      if pname \<in> apps c then
        \<lparr>blocked = True, reason = ''app_match:'' @ process_name ctx\<rparr>
      else if \<exists>p \<in> auth_patterns c. contains pname p then
        \<lparr>blocked = True, reason = ''auth_process:'' @ process_name ctx\<rparr>
      else (case url_hit of
        Some r \<Rightarrow> \<lparr>blocked = True, reason = ''url_pattern:'' @ re_string r\<rparr>
      | None \<Rightarrow> (case title_hit of
        Some r \<Rightarrow> \<lparr>blocked = True, reason = ''title_pattern:'' @ re_string r\<rparr>
      | None \<Rightarrow>
          if focused_input_role ctx \<noteq> []
             \<and> to_lower um (focused_input_role ctx) \<in> sensitive_inputs c then
            \<lparr>blocked = True, reason = ''sensitive_input:'' @ focused_input_role ctx\<rparr>
          else \<lparr>blocked = False, reason = ''pass''\<rparr>)))"

definition check :: "(string \<Rightarrow> string) \<Rightarrow> blocklist \<Rightarrow> window_context \<Rightarrow> block_decision" where
  "check um bl ctx =
     (case current bl of
        None \<Rightarrow> \<lparr>blocked = True, reason = ''blocklist_unavailable''\<rparr>
      | Some c \<Rightarrow> check_compiled um c ctx)"

section \<open>Compiling and merging\<close>

fun compile_patterns ::
  "(string \<Rightarrow> (string \<Rightarrow> bool) option) \<Rightarrow> (string \<Rightarrow> blocklist_error) \<Rightarrow> string list
     \<Rightarrow> blocklist_error + regexp list" where
  "compile_patterns ext err [] = Inr []"
| "compile_patterns ext err (p # ps) =
     (case re_compile ext p of
        None \<Rightarrow> Inl (err p)
      | Some r \<Rightarrow> map_sum id (\<lambda>rs. r # rs) (compile_patterns ext err ps))"

definition compile ::
  "(string \<Rightarrow> string) \<Rightarrow> (string \<Rightarrow> (string \<Rightarrow> bool) option) \<Rightarrow> blocklist_config
     \<Rightarrow> blocklist_error + compiled_blocklist" where
  "compile um ext cfg =
     (case compile_patterns ext InvalidUrlPattern (cfg_url_patterns cfg) of
        Inl e \<Rightarrow> Inl e
      | Inr urls \<Rightarrow>
          (case compile_patterns ext InvalidTitlePattern (cfg_title_patterns cfg) of
             Inl e \<Rightarrow> Inl e
           | Inr titles \<Rightarrow>
               Inr \<lparr>apps = set (map (to_lower um) (cfg_apps cfg)),
                    auth_patterns = set (map (to_lower um) (cfg_auth_patterns cfg)),
                    url_regexps = urls, title_regexps = titles,
                    sensitive_inputs = set (map (to_lower um) (cfg_sensitive_input_roles cfg))\<rparr>))"

definition merge_with_defaults ::
  "compiled_blocklist \<Rightarrow> compiled_blocklist \<Rightarrow> compiled_blocklist" where
  "merge_with_defaults src defaults =
     \<lparr>apps = apps defaults \<union> apps src,
      auth_patterns = auth_patterns defaults \<union> auth_patterns src,
      url_regexps = url_regexps defaults @ url_regexps src,
      title_regexps = title_regexps defaults @ title_regexps src,
      sensitive_inputs = sensitive_inputs defaults \<union> sensitive_inputs src\<rparr>"

section \<open>The built-in blocklist\<close>

text \<open>\<open>esc\<close> is the backslash of the pattern strings.\<close>

abbreviation esc :: string where
  "esc \<equiv> [CHR 0x5C]"

definition default_url_patterns :: "string list" where
  "default_url_patterns =
     [''(?i)^https?://(127'' @ esc @ ''.0'' @ esc @ ''.0'' @ esc @ ''.1|localhost):7327(/|$)'',
      ''(?i)bank'', ''(?i)banking'',
      ''(?i)paypal'' @ esc @ ''.com'', ''(?i)stripe'' @ esc @ ''.com/dashboard'',
      ''(?i)'' @ esc @ ''.irs'' @ esc @ ''.gov'', ''(?i)turbotax'' @ esc @ ''.com'',
      ''(?i)mychart'' @ esc @ ''.com'', ''(?i)epic'' @ esc @ ''.com'',
      ''(?i)/login'', ''(?i)/signin'', ''(?i)/auth'',
      ''(?i)/password'', ''(?i)/2fa'', ''(?i)/mfa'',
      ''(?i)/reset-password'', ''(?i)/forgot-password'',
      ''(?i)mail'' @ esc @ ''.google'' @ esc @ ''.com'',
      ''(?i)outlook'' @ esc @ ''.live'' @ esc @ ''.com'',
      ''(?i)proton'' @ esc @ ''.me'', ''(?i)protonmail'' @ esc @ ''.com'']"

definition default_title_patterns :: "string list" where
  "default_title_patterns =
     [''(?i)digital ghost'',
      ''(?i)password'', ''(?i)passphrase'', ''(?i)secret'',
      ''(?i)private key'', ''(?i)login'', ''(?i)sign in'',
      ''(?i)authenticate'', ''(?i)'' @ esc @ ''.env'', ''(?i)credentials'',
      ''(?i)api.?key'', ''(?i)token'']"

definition default_config :: blocklist_config where
  "default_config =
     \<lparr>cfg_apps =
        [''1password'', ''1password 7'', ''1password 8'',
         ''bitwarden'',
         ''keepass'', ''keepassxc'',
         ''dashlane'',
         ''lastpass'',
         ''keychain access'',
         ''gnome-keyring-daemon'',
         ''kwallet'', ''kwalletmanager'',
         ''pinentry'', ''pinentry-gtk'', ''pinentry-qt'', ''pinentry-curses'', ''pinentry-gnome3'',
         ''ssh-askpass'',
         ''seahorse''],
      cfg_auth_patterns =
        [''sudo'', ''polkit'', ''pkttyagent'', ''pkexec'',
         ''consent.exe''],
      cfg_url_patterns = default_url_patterns,
      cfg_title_patterns = default_title_patterns,
      cfg_sensitive_input_roles = [''password'', ''spinbutton'']\<rparr>"

text \<open>\<open>None\<close> is \<open>log.Fatalf\<close>: the process exits because a built-in pattern does not compile.\<close>

definition hardcoded_defaults ::
  "(string \<Rightarrow> string) \<Rightarrow> (string \<Rightarrow> (string \<Rightarrow> bool) option) \<Rightarrow> compiled_blocklist option" where
  "hardcoded_defaults um ext =
     (case compile um ext default_config of Inl e \<Rightarrow> None | Inr c \<Rightarrow> Some c)"

section \<open>Loading, hot reload\<close>

text \<open>
  \<open>file\<close> is the outcome of \<open>os.ReadFile\<close>: \<open>None\<close> when the file cannot be read. The outer
  \<open>None\<close> of the results is the process exit of \<open>hardcoded_defaults\<close>.
\<close>

definition load_from_file ::
  "(string \<Rightarrow> string) \<Rightarrow> (string \<Rightarrow> (string \<Rightarrow> bool) option) \<Rightarrow> (string \<Rightarrow> blocklist_config option)
     \<Rightarrow> string \<Rightarrow> string option \<Rightarrow> blocklist \<Rightarrow> (blocklist \<times> blocklist_error option) option" where
  "load_from_file um ext yaml path file bl =
     (case file of
        None \<Rightarrow> Some (bl, Some (ReadError path))
      | Some data \<Rightarrow>
          (case yaml data of
             None \<Rightarrow> Some (bl, Some (ParseError path))
           | Some cfg \<Rightarrow>
               (case compile um ext cfg of
                  Inl e \<Rightarrow> Some (bl, Some e)
                | Inr compiled \<Rightarrow>
                    (case hardcoded_defaults um ext of
                       None \<Rightarrow> None
                     | Some d \<Rightarrow>
                         Some (bl\<lparr>current := Some (merge_with_defaults compiled d),
                                  healthy := True\<rparr>, None)))))"

definition new_blocklist ::
  "(string \<Rightarrow> string) \<Rightarrow> (string \<Rightarrow> (string \<Rightarrow> bool) option) \<Rightarrow> (string \<Rightarrow> blocklist_config option)
     \<Rightarrow> string \<Rightarrow> string option \<Rightarrow> bool \<Rightarrow> blocklist option" where
  "new_blocklist um ext yaml path file watch_ok =
     (case hardcoded_defaults um ext of
        None \<Rightarrow> None
      | Some d \<Rightarrow>
          (let bl = \<lparr>current = Some d, healthy = True, watching = False\<rparr> in
           if path = [] then Some bl
           else (case load_from_file um ext yaml path file bl of
                   None \<Rightarrow> None
                 | Some (bl', _) \<Rightarrow> Some (bl'\<lparr>watching := watch_ok\<rparr>))))"

text \<open>
  One event of the watcher goroutine: an event of the file, with what the file holds at that
  moment, or an error of the watcher.
\<close>

datatype fs_op = OpWrite | OpCreate | OpRemove | OpRename | OpChmod

datatype watch_event = FsEvent "fs_op set" "string option" | WatcherError

definition watch_step ::
  "(string \<Rightarrow> string) \<Rightarrow> (string \<Rightarrow> (string \<Rightarrow> bool) option) \<Rightarrow> (string \<Rightarrow> blocklist_config option)
     \<Rightarrow> string \<Rightarrow> watch_event \<Rightarrow> blocklist \<Rightarrow> blocklist option" where
  "watch_step um ext yaml path ev bl =
     (case ev of
        FsEvent ops file \<Rightarrow>
          (if OpWrite \<in> ops \<or> OpCreate \<in> ops
           then map_option fst (load_from_file um ext yaml path file bl)
           else Some bl)
      | WatcherError \<Rightarrow> Some bl)"

fun watch_file ::
  "(string \<Rightarrow> string) \<Rightarrow> (string \<Rightarrow> (string \<Rightarrow> bool) option) \<Rightarrow> (string \<Rightarrow> blocklist_config option)
     \<Rightarrow> string \<Rightarrow> watch_event list \<Rightarrow> blocklist \<Rightarrow> blocklist option" where
  "watch_file um ext yaml path [] bl = Some bl"
| "watch_file um ext yaml path (ev # evs) bl =
     Option.bind (watch_step um ext yaml path ev bl) (watch_file um ext yaml path evs)"

text \<open>\<open>Close\<close> stops the watcher goroutine; the active list stays.\<close>

definition close_blocklist :: "blocklist \<Rightarrow> blocklist" where
  "close_blocklist bl = bl\<lparr>watching := False\<rparr>"

section \<open>When a window is blocked\<close>

lemma first_match_None: "first_match res s = None \<longleftrightarrow> (\<forall>r \<in> set res. \<not> re_match r s)"
  by (auto simp: first_match_def find_None_iff)

lemma check_compiled_blocked_iff:
  "blocked (check_compiled um c ctx) \<longleftrightarrow>
     to_lower um (process_name ctx) \<in> apps c
     \<or> (\<exists>p \<in> auth_patterns c. contains (to_lower um (process_name ctx)) p)
     \<or> browser_url ctx \<noteq> [] \<and> (\<exists>r \<in> set (url_regexps c). re_match r (browser_url ctx))
     \<or> window_title ctx \<noteq> [] \<and> (\<exists>r \<in> set (title_regexps c). re_match r (window_title ctx))
     \<or> focused_input_role ctx \<noteq> [] \<and> to_lower um (focused_input_role ctx) \<in> sensitive_inputs c"
proof -
  let ?u = "if browser_url ctx \<noteq> [] then first_match (url_regexps c) (browser_url ctx) else None"
  let ?t = "if window_title ctx \<noteq> [] then first_match (title_regexps c) (window_title ctx) else None"
  have u: "?u = None \<longleftrightarrow>
      \<not> (browser_url ctx \<noteq> [] \<and> (\<exists>r \<in> set (url_regexps c). re_match r (browser_url ctx)))"
    by (simp add: first_match_None)
  have t: "?t = None \<longleftrightarrow>
      \<not> (window_title ctx \<noteq> [] \<and> (\<exists>r \<in> set (title_regexps c). re_match r (window_title ctx)))"
    by (simp add: first_match_None)
  have "blocked (check_compiled um c ctx) \<longleftrightarrow>
     to_lower um (process_name ctx) \<in> apps c
     \<or> (\<exists>p \<in> auth_patterns c. contains (to_lower um (process_name ctx)) p)
     \<or> ?u \<noteq> None \<or> ?t \<noteq> None
     \<or> focused_input_role ctx \<noteq> [] \<and> to_lower um (focused_input_role ctx) \<in> sensitive_inputs c"
    unfolding check_compiled_def Let_def
    by (cases ?u; cases ?t) simp_all
  then show ?thesis unfolding u t by blast
qed

text \<open>A larger blocklist blocks more.\<close>

definition covers :: "compiled_blocklist \<Rightarrow> compiled_blocklist \<Rightarrow> bool" where
  "covers c d \<longleftrightarrow>
     apps d \<subseteq> apps c \<and> auth_patterns d \<subseteq> auth_patterns c
     \<and> set (url_regexps d) \<subseteq> set (url_regexps c) \<and> set (title_regexps d) \<subseteq> set (title_regexps c)
     \<and> sensitive_inputs d \<subseteq> sensitive_inputs c"

lemma covers_refl [simp]: "covers c c"
  by (simp add: covers_def)

lemma covers_merge [simp]: "covers (merge_with_defaults src d) d"
  by (auto simp: covers_def merge_with_defaults_def)

lemma check_compiled_mono:
  "covers c d \<Longrightarrow> blocked (check_compiled um d ctx) \<Longrightarrow> blocked (check_compiled um c ctx)"
  unfolding check_compiled_blocked_iff covers_def by blast

section \<open>The built-in patterns\<close>

definition title_words :: "string list" where
  "title_words =
     [''digital ghost'', ''password'', ''passphrase'', ''secret'', ''private key'', ''login'',
      ''sign in'', ''authenticate'', ''.env'', ''credentials'', ''token'']"

definition url_words :: "string list" where
  "url_words =
     [''bank'', ''banking'', ''paypal.com'', ''stripe.com/dashboard'', ''.irs.gov'',
      ''turbotax.com'', ''mychart.com'', ''epic.com'', ''/login'', ''/signin'', ''/auth'',
      ''/password'', ''/2fa'', ''/mfa'', ''/reset-password'', ''/forgot-password'',
      ''mail.google.com'', ''outlook.live.com'', ''proton.me'', ''protonmail.com'']"

definition api_key_re :: re where
  "api_key_re = RCat (RLit True CHR ''a'') (RCat (RLit True CHR ''p'') (RCat (RLit True CHR ''i'')
     (RCat (ROpt RAny) (lit_seq ''key''))))"

fun lit_then :: "string \<Rightarrow> re \<Rightarrow> re" where
  "lit_then [] r = r"
| "lit_then (c # w) r = RCat (RLit True c) (lit_then w r)"

definition self_url_re :: re where
  "self_url_re =
     RCat RBegin (lit_then ''http'' (RCat (ROpt (RLit True CHR ''s'')) (lit_then ''://''
       (RCat (RAlt (lit_seq ''127.0.0.1'') (lit_seq ''localhost''))
         (lit_then '':7327'' (RCat (RAlt (lit_seq ''/'') (RCat REnd REmpty)) REmpty))))))"

lemma parse_default_urls:
  "map parse_re default_url_patterns = Some self_url_re # map (\<lambda>w. Some (lit_seq w)) url_words"
  by code_simp

lemma parse_default_titles:
  "map parse_re default_title_patterns =
     map (\<lambda>w. Some (lit_seq w)) (butlast title_words) @ [Some api_key_re, Some (lit_seq (last title_words))]"
  by code_simp

lemma compile_patterns_parsed:
  "None \<notin> set (map parse_re ps) \<Longrightarrow>
     compile_patterns ext err ps =
       Inr (map (\<lambda>p. \<lparr>re_string = p, re_match = match_re (the (parse_re p))\<rparr>) ps)"
  by (induction ps) (auto simp: re_compile_def split: option.splits)

lemma defaults_parse:
  "None \<notin> set (map parse_re default_url_patterns)" "None \<notin> set (map parse_re default_title_patterns)"
  unfolding parse_default_urls parse_default_titles by auto

definition default_compiled :: "(string \<Rightarrow> string) \<Rightarrow> compiled_blocklist" where
  "default_compiled um =
     \<lparr>apps = set (map (to_lower um) (cfg_apps default_config)),
      auth_patterns = set (map (to_lower um) (cfg_auth_patterns default_config)),
      url_regexps = map (\<lambda>p. \<lparr>re_string = p, re_match = match_re (the (parse_re p))\<rparr>) default_url_patterns,
      title_regexps = map (\<lambda>p. \<lparr>re_string = p, re_match = match_re (the (parse_re p))\<rparr>) default_title_patterns,
      sensitive_inputs = set (map (to_lower um) (cfg_sensitive_input_roles default_config))\<rparr>"

lemma hardcoded_defaults_eq: "hardcoded_defaults um ext = Some (default_compiled um)"
  by (simp add: hardcoded_defaults_def compile_def default_config_def default_compiled_def
      compile_patterns_parsed [OF defaults_parse(1)] compile_patterns_parsed [OF defaults_parse(2)])

lemma default_regexps:
  "map re_match (url_regexps (default_compiled um)) =
     map (\<lambda>r. match_re (the r)) (map parse_re default_url_patterns)"
  "map re_match (title_regexps (default_compiled um)) =
     map (\<lambda>r. match_re (the r)) (map parse_re default_title_patterns)"
  by (simp_all add: default_compiled_def)

lemma ex_map_iff: "(\<exists>r \<in> set rs. re_match r s) \<longleftrightarrow> (\<exists>m \<in> set (map re_match rs). m s)"
  by auto

lemma default_title_match:
  "(\<exists>r \<in> set (title_regexps (default_compiled um)). re_match r s) \<longleftrightarrow>
     (\<exists>w \<in> set title_words. match_re (lit_seq w) s) \<or> match_re api_key_re s"
proof -
  have "set title_words = insert (last title_words) (set (butlast title_words))"
    by (simp add: title_words_def insert_commute)
  then show ?thesis unfolding ex_map_iff default_regexps parse_default_titles by auto
qed

lemma default_url_match:
  "(\<exists>r \<in> set (url_regexps (default_compiled um)). re_match r s) \<longleftrightarrow>
     match_re self_url_re s \<or> (\<exists>w \<in> set url_words. match_re (lit_seq w) s)"
  unfolding ex_map_iff default_regexps parse_default_urls by auto

lemma words_ok:
  "list_all (\<lambda>w. w \<noteq> [] \<and> is_ascii w \<and> map ascii_lower w = w) (url_words @ title_words)"
  by code_simp

lemma map_to_lower_id:
  "list_all (\<lambda>w. is_ascii w \<and> map ascii_lower w = w) ws \<Longrightarrow> map (to_lower um) ws = ws"
  by (induction ws) (auto simp: to_lower_ascii)

lemma default_sets:
  "apps (default_compiled um) = set (cfg_apps default_config)"
  "auth_patterns (default_compiled um) = set (cfg_auth_patterns default_config)"
  "sensitive_inputs (default_compiled um) = {''password'', ''spinbutton''}"
proof -
  have "list_all (\<lambda>w. is_ascii w \<and> map ascii_lower w = w) (cfg_apps default_config)"
    "list_all (\<lambda>w. is_ascii w \<and> map ascii_lower w = w) (cfg_auth_patterns default_config)"
    "list_all (\<lambda>w. is_ascii w \<and> map ascii_lower w = w) (cfg_sensitive_input_roles default_config)"
    by code_simp+
  then show "apps (default_compiled um) = set (cfg_apps default_config)"
    "auth_patterns (default_compiled um) = set (cfg_auth_patterns default_config)"
    "sensitive_inputs (default_compiled um) = {''password'', ''spinbutton''}"
    unfolding default_compiled_def by (simp_all only: compiled_blocklist.simps map_to_lower_id)
      (simp_all add: default_config_def)
qed

section \<open>What a list names\<close>

text \<open>
  A text with \<open>api\<close> and \<open>key\<close> next to each other or one rune apart, which is no newline, up to
  the case of the letters.
\<close>

definition api_key_here :: "string \<Rightarrow> bool" where
  "api_key_here s \<longleftrightarrow>
     take 3 (map ascii_lower s) = ''api''
     \<and> (let t = drop 3 s in
          take 3 (map ascii_lower t) = ''key''
          \<or> t \<noteq> [] \<and> hd t \<noteq> CHR 0x0A \<and> take 3 (map ascii_lower (drop (rune_len t) t)) = ''key'')"

definition has_api_key :: "string \<Rightarrow> bool" where
  "has_api_key s \<longleftrightarrow> list_ex (\<lambda>n. api_key_here (drop n s)) [0..<length s]"

text \<open>
  The windows the lists of a file name: an application by its name, an authentication program by a
  part of its name, the focused field by its role, a page or a title by one of the fragments, in any mix
  of upper and lower case and anywhere in the text.
\<close>

definition lists_window ::
  "(string \<Rightarrow> string) \<Rightarrow> blocklist_config \<Rightarrow> string list \<Rightarrow> string list \<Rightarrow> window_context \<Rightarrow> bool" where
  "lists_window um cfg uws tws ctx \<longleftrightarrow>
     (\<exists>a \<in> set (cfg_apps cfg). to_lower um a = to_lower um (process_name ctx))
     \<or> (\<exists>p \<in> set (cfg_auth_patterns cfg). contains (to_lower um (process_name ctx)) (to_lower um p))
     \<or> (focused_input_role ctx \<noteq> []
          \<and> (\<exists>r \<in> set (cfg_sensitive_input_roles cfg). to_lower um r = to_lower um (focused_input_role ctx)))
     \<or> (\<exists>w \<in> set uws. contains (map ascii_lower (browser_url ctx)) w)
     \<or> (\<exists>w \<in> set tws. contains (map ascii_lower (window_title ctx)) w)
     \<or> has_api_key (window_title ctx)"

lemma re_rest_catI:
  "p \<in> set (re_rest r q) \<Longrightarrow> x \<in> set (re_rest r' p) \<Longrightarrow> x \<in> set (re_rest (RCat r r') q)"
  by auto

lemma lit_rest_fold: "ascii_lower d = ascii_lower c \<Longrightarrow> (False, t) \<in> set (re_rest (RLit True c) (b, d # t))"
  by (auto simp: lit_rest_def)

lemma api_key_rest:
  assumes "api_key_here s" shows "re_rest api_key_re (b, s) \<noteq> []"
proof -
  obtain x y z t where s: "s = x # y # z # t" and low: "ascii_lower x = CHR ''a''" "ascii_lower y = CHR ''p''" "ascii_lower z = CHR ''i''"
    using assms by (cases s; cases "tl s"; cases "tl (tl s)") (auto simp: api_key_here_def)
  have low': "ascii_lower x = ascii_lower CHR ''a''" "ascii_lower y = ascii_lower CHR ''p''" "ascii_lower z = ascii_lower CHR ''i''"
    unfolding low by code_simp+
  have key: "\<exists>p. p \<in> set (re_rest (lit_seq ''key'') (c, u))" if k: "take 3 (map ascii_lower u) = ''key''" for c u
  proof -
    have "map ascii_lower (take 3 u) = map ascii_lower ''key''" using k unfolding take_map by (simp add: ascii_lower_def)
    from lit_seq_rest [OF this, of c "drop 3 u"] have "re_rest (lit_seq ''key'') (c, u) \<noteq> []" by (simp del: lit_seq.simps)
    then show ?thesis by (metis list.set_intros(1) neq_Nil_conv)
  qed
  have "\<exists>p. p \<in> set (re_rest (RCat (ROpt RAny) (lit_seq ''key'')) (False, t))"
  proof -
    consider "take 3 (map ascii_lower t) = ''key''"
      | "t \<noteq> []" "hd t \<noteq> CHR 0x0A" "take 3 (map ascii_lower (drop (rune_len t) t)) = ''key''"
      using assms s by (auto simp: api_key_here_def Let_def)
    then show ?thesis
    proof cases
      case 1
      obtain p where p: "p \<in> set (re_rest (lit_seq ''key'') (False, t))" using key [OF 1] by blast
      have "(False, t) \<in> set (re_rest (ROpt RAny) (False, t))" by simp
      from re_rest_catI [OF this p] show ?thesis by blast
    next
      case 2
      obtain p where p: "p \<in> set (re_rest (lit_seq ''key'') (False, drop (rune_len t) t))"
        using key [OF 2(3)] by blast
      have "(False, drop (rune_len t) t) \<in> set (re_rest (ROpt RAny) (False, t))" using 2(1,2) by simp
      from re_rest_catI [OF this p] show ?thesis by blast
    qed
  qed
  then obtain p where p: "p \<in> set (re_rest (RCat (ROpt RAny) (lit_seq ''key'')) (False, t))" ..
  have "p \<in> set (re_rest api_key_re (b, s))"
    unfolding api_key_re_def s
    by (rule re_rest_catI [OF lit_rest_fold [OF low'(1)] re_rest_catI [OF lit_rest_fold [OF low'(2)]
          re_rest_catI [OF lit_rest_fold [OF low'(3)] p]]])
  then show ?thesis by force
qed

lemma api_key_match:
  assumes "has_api_key s" shows "match_re api_key_re s" "s \<noteq> []"
proof -
  obtain n where n: "n < length s" "api_key_here (drop n s)" using assms by (auto simp: has_api_key_def list_ex_iff)
  have "ascii_lower (hd (drop n s)) = CHR ''a''" using n by (cases "drop n s") (auto simp: api_key_here_def)
  then have "(of_char (hd (drop n s)) :: nat) < 128" using ascii_lower_lt_128 [of "hd (drop n s)"] by simp
  from re_search_at [of "drop n s", OF _ this api_key_rest [OF n(2)], of True "take n s"] n(1)
  show "match_re api_key_re s" by (simp add: match_re_def)
  show "s \<noteq> []" using n(1) by auto
qed

text \<open>A compiled list that has the file's names and matches the fragments blocks what the file names.\<close>

lemma lists_window_blocked:
  assumes "lists_window um cfg uws tws ctx"
    and "apps c = set (map (to_lower um) (cfg_apps cfg))" "auth_patterns c = set (map (to_lower um) (cfg_auth_patterns cfg))"
      "sensitive_inputs c = set (map (to_lower um) (cfg_sensitive_input_roles cfg))"
    and urls: "\<And>s w. w \<in> set uws \<Longrightarrow> match_re (lit_seq w) s \<Longrightarrow> \<exists>r \<in> set (url_regexps c). re_match r s"
    and titles: "\<And>s w. w \<in> set tws \<Longrightarrow> match_re (lit_seq w) s \<Longrightarrow> \<exists>r \<in> set (title_regexps c). re_match r s"
    and api: "\<And>s. match_re api_key_re s \<Longrightarrow> \<exists>r \<in> set (title_regexps c). re_match r s"
    and ok: "list_all (\<lambda>w. w \<noteq> [] \<and> is_ascii w \<and> map ascii_lower w = w) (uws @ tws)"
  shows "blocked (check_compiled um c ctx)"
proof -
  have word: "match_re (lit_seq w) s \<and> s \<noteq> []" if "w \<in> set (uws @ tws)" "contains (map ascii_lower s) w" for w s
  proof -
    have "w \<noteq> []" "is_ascii w" "map ascii_lower w = w" using ok that(1) by (auto simp: list_all_iff)
    then show ?thesis unfolding match_re_def using that(2) lit_search [of s w True] by (cases "s = []") auto
  qed
  from assms(1) consider
      "\<exists>a \<in> set (cfg_apps cfg). to_lower um a = to_lower um (process_name ctx)"
    | "\<exists>p \<in> set (cfg_auth_patterns cfg). contains (to_lower um (process_name ctx)) (to_lower um p)"
    | "focused_input_role ctx \<noteq> []" "\<exists>r \<in> set (cfg_sensitive_input_roles cfg). to_lower um r = to_lower um (focused_input_role ctx)"
    | w where "w \<in> set uws" "contains (map ascii_lower (browser_url ctx)) w"
    | w where "w \<in> set tws" "contains (map ascii_lower (window_title ctx)) w"
    | "has_api_key (window_title ctx)"
    unfolding lists_window_def by blast
  then show ?thesis
  proof cases
    case 1
    then have "to_lower um (process_name ctx) \<in> apps c" unfolding assms(2) set_map by (metis imageI)
    then show ?thesis unfolding check_compiled_blocked_iff by (rule disjI1)
  next
    case 2
    then have "\<exists>p \<in> auth_patterns c. contains (to_lower um (process_name ctx)) p" unfolding assms(3) by auto
    then show ?thesis unfolding check_compiled_blocked_iff by blast
  next
    case 3
    then have "to_lower um (focused_input_role ctx) \<in> sensitive_inputs c" unfolding assms(4) set_map by (metis imageI)
    with 3(1) show ?thesis unfolding check_compiled_blocked_iff by blast
  next
    case 4
    then show ?thesis unfolding check_compiled_blocked_iff using word [of w] urls [of w] by auto
  next
    case 5
    then show ?thesis unfolding check_compiled_blocked_iff using word [of w] titles [of w] by auto
  next
    case 6
    then show ?thesis unfolding check_compiled_blocked_iff using api_key_match api by blast
  qed
qed

section \<open>The contract the privacy gate relies on\<close>

text \<open>
  A filter with a state that is replaced while the program runs: whatever the replacements, a
  window in the baseline stays blocked, and a replacement always leaves a filter behind.
\<close>

locale reloadable_filter =
  fixes chk :: "'b \<Rightarrow> window_context \<Rightarrow> block_decision"
    and reload :: "'e \<Rightarrow> 'b \<Rightarrow> 'b option"
    and invar :: "'b \<Rightarrow> bool"
    and baseline :: "window_context \<Rightarrow> bool"
  assumes baseline_blocked: "invar b \<Longrightarrow> baseline ctx \<Longrightarrow> blocked (chk b ctx)"
    and reload_total: "invar b \<Longrightarrow> \<exists>b'. reload e b = Some b'"
    and reload_invar: "invar b \<Longrightarrow> reload e b = Some b' \<Longrightarrow> invar b'"
begin

lemma reloads_keep:
  assumes run: "\<And>b. run [] b = Some b"
    "\<And>e es b. run (e # es) b = Option.bind (reload e b) (run es)"
  shows "invar b \<Longrightarrow> \<exists>b'. run es b = Some b' \<and> invar b'"
proof (induction es arbitrary: b)
  case Nil
  then show ?case by (simp add: run)
next
  case (Cons e es)
  then obtain b1 where "reload e b = Some b1" "invar b1"
    using reload_total reload_invar by blast
  with Cons.IH show ?case by (simp add: run)
qed

end

definition protects :: "(string \<Rightarrow> string) \<Rightarrow> blocklist \<Rightarrow> bool" where
  "protects um bl \<longleftrightarrow> (\<exists>c. current bl = Some c \<and> covers c (default_compiled um))"

lemma protects_blocked:
  "protects um bl \<Longrightarrow> blocked (check_compiled um (default_compiled um) ctx) \<Longrightarrow> blocked (check um bl ctx)"
  by (auto simp: protects_def check_def intro: check_compiled_mono)

lemma load_from_file_cases:
  "load_from_file um ext yaml path file bl = Some (bl', err) \<longleftrightarrow>
     (\<exists>e. err = Some e \<and> bl' = bl
          \<and> (file = None \<and> e = ReadError path
             \<or> (\<exists>d. file = Some d \<and> yaml d = None \<and> e = ParseError path)
             \<or> (\<exists>d cfg. file = Some d \<and> yaml d = Some cfg \<and> compile um ext cfg = Inl e)))
     \<or> (\<exists>d cfg c. file = Some d \<and> yaml d = Some cfg \<and> compile um ext cfg = Inr c \<and> err = None
          \<and> bl' = bl\<lparr>current := Some (merge_with_defaults c (default_compiled um)), healthy := True\<rparr>)"
  by (auto simp: load_from_file_def hardcoded_defaults_eq split: option.splits sum.splits)

lemma load_from_file_total: "\<exists>r. load_from_file um ext yaml path file bl = Some r"
  by (auto simp: load_from_file_def hardcoded_defaults_eq split: option.splits sum.splits)

lemma load_from_file_protects:
  "load_from_file um ext yaml path file bl = Some (bl', err) \<Longrightarrow> protects um bl \<Longrightarrow> protects um bl'"
  unfolding load_from_file_cases by (auto simp: protects_def)

lemma watch_step_total: "\<exists>bl'. watch_step um ext yaml path ev bl = Some bl'"
  using load_from_file_total [of um ext yaml path _ bl]
  by (auto simp: watch_step_def split: watch_event.splits)

lemma watch_step_protects:
  assumes "protects um bl" and "watch_step um ext yaml path ev bl = Some bl'"
  shows "protects um bl'"
proof (cases ev)
  case (FsEvent ops f)
  show ?thesis
  proof (cases "OpWrite \<in> ops \<or> OpCreate \<in> ops")
    case True
    then have "map_option fst (load_from_file um ext yaml path f bl) = Some bl'"
      using assms(2) FsEvent by (simp add: watch_step_def)
    then obtain err where "load_from_file um ext yaml path f bl = Some (bl', err)"
      by (cases "load_from_file um ext yaml path f bl") auto
    with assms(1) show ?thesis by (blast intro: load_from_file_protects)
  next
    case False
    with assms FsEvent show ?thesis by (simp add: watch_step_def)
  qed
next
  case WatcherError
  with assms show ?thesis by (simp add: watch_step_def)
qed

interpretation bl: reloadable_filter "check um" "watch_step um ext yaml path" "protects um"
    "\<lambda>ctx. blocked (check_compiled um (default_compiled um) ctx)"
  for um ext yaml path
  by unfold_locales (auto intro: protects_blocked watch_step_protects simp: watch_step_total)

lemma new_blocklist_protects:
  obtains bl where "new_blocklist um ext yaml path file watch_ok = Some bl" and "protects um bl"
proof -
  let ?bl = "\<lparr>current = Some (default_compiled um), healthy = True, watching = False\<rparr>"
  have p: "protects um ?bl" by (simp add: protects_def)
  obtain bl' err where l: "load_from_file um ext yaml path file ?bl = Some (bl', err)"
    using load_from_file_total [of um ext yaml path "file" ?bl] by auto
  with p have "protects um bl'" by (blast intro: load_from_file_protects)
  then have "protects um (bl'\<lparr>watching := watch_ok\<rparr>)" by (simp add: protects_def)
  with p l that show ?thesis
    by (cases "path = []") (auto simp: new_blocklist_def hardcoded_defaults_eq Let_def)
qed

text \<open>Digital Ghost's own search page.\<close>

lemma lit_then_rest:
  "w \<noteq> [] \<Longrightarrow> x \<in> set (re_rest r (False, t)) \<Longrightarrow> x \<in> set (re_rest (lit_then w r) (b, w @ t))"
proof (induction w arbitrary: b)
  case Nil
  then show ?case by simp
next
  case (Cons c w)
  have head: "(False, w @ t) \<in> set (re_rest (RLit True c) (b, (c # w) @ t))"
    by (auto simp: lit_rest_def)
  have "x \<in> set (re_rest (lit_then w r) (False, w @ t))"
    using Cons by (cases "w = []") auto
  with head show ?case unfolding lit_then.simps by (rule re_rest_catI)
qed

lemma lit_seq_eq_lit_then: "lit_seq w = lit_then w REmpty"
  by (induction w) auto

lemma self_url_matches:
  assumes "scheme \<in> {''http'', ''https''}" and "host \<in> {''127.0.0.1'', ''localhost''}"
    and "t = [] \<or> hd t = CHR ''/''"
  shows "match_re self_url_re (scheme @ ''://'' @ host @ '':7327'' @ t)"
proof -
  let ?eol = "RCat (RAlt (lit_seq ''/'') (RCat REnd REmpty)) REmpty"
  have e: "\<exists>x. x \<in> set (re_rest ?eol (False, t))"
    using assms(3) by (cases t) (auto simp: lit_rest_def intro!: exI)
  then obtain x where "x \<in> set (re_rest ?eol (False, t))" ..
  then have port: "x \<in> set (re_rest (lit_then '':7327'' ?eol) (False, '':7327'' @ t))"
    by (rule lit_then_rest [rotated]) simp
  have host: "(False, '':7327'' @ t) \<in>
      set (re_rest (RAlt (lit_seq ''127.0.0.1'') (lit_seq ''localhost'')) (False, host @ '':7327'' @ t))"
  proof -
    have "(False, '':7327'' @ t) \<in> set (re_rest (lit_seq host) (False, host @ '':7327'' @ t))"
      unfolding lit_seq_eq_lit_then using assms(2) by (intro lit_then_rest) auto
    moreover have "host = ''127.0.0.1'' \<or> host = ''localhost''" using assms(2) by blast
    ultimately show ?thesis unfolding re_rest.simps set_append by blast
  qed
  let ?tail = "RCat (RAlt (lit_seq ''127.0.0.1'') (lit_seq ''localhost'')) (lit_then '':7327'' ?eol)"
  have "x \<in> set (re_rest ?tail (False, host @ '':7327'' @ t))"
    using host port by (rule re_rest_catI)
  then have sep: "x \<in> set (re_rest (lit_then ''://'' ?tail) (False, ''://'' @ host @ '':7327'' @ t))"
    by (rule lit_then_rest [rotated]) simp
  let ?rest = "''://'' @ host @ '':7327'' @ t"
  have opt: "(False, ?rest) \<in> set (re_rest (ROpt (RLit True CHR ''s'')) (False, drop 4 scheme @ ?rest))"
    using assms(1) by (auto simp: lit_rest_def)
  have "x \<in> set (re_rest (RCat (ROpt (RLit True CHR ''s'')) (lit_then ''://'' ?tail))
      (False, drop 4 scheme @ ?rest))"
    using opt sep by (rule re_rest_catI)
  then have "x \<in> set (re_rest (lit_then ''http'' (RCat (ROpt (RLit True CHR ''s'')) (lit_then ''://'' ?tail)))
      (True, ''http'' @ drop 4 scheme @ ?rest))"
    by (rule lit_then_rest [rotated]) simp
  moreover have eq: "''http'' @ drop 4 scheme @ ?rest = scheme @ ?rest"
    using assms(1) by auto
  ultimately have "x \<in> set (re_rest self_url_re (True, scheme @ ?rest))"
    unfolding eq by (simp add: self_url_re_def del: lit_then.simps lit_seq.simps)
  then have "re_rest self_url_re (True, scheme @ ?rest) \<noteq> []" by force
  then show ?thesis
    unfolding match_re_def by (subst re_search.simps) simp
qed

section \<open>Properties\<close>

text \<open>
  C19. The built-in protections cannot be lost: whatever the configured file holds when the
  program starts (unreadable, malformed, or any list), and whatever sequence of file events and
  watcher errors follows, the blocklist exists and blocks every window that the built-in list
  blocks.
\<close>

theorem hot_reload_keeps_defaults:
  assumes "hardcoded_defaults um ext = Some d" and "blocked (check_compiled um d ctx)"
  shows "\<exists>bl bl'. new_blocklist um ext yaml path file watch_ok = Some bl
           \<and> watch_file um ext yaml path evs bl = Some bl' \<and> blocked (check um bl' ctx)"
proof -
  have d: "d = default_compiled um" using assms(1) by (simp add: hardcoded_defaults_eq)
  obtain bl where bl: "new_blocklist um ext yaml path file watch_ok = Some bl" "protects um bl"
    by (rule new_blocklist_protects)
  obtain bl' where "watch_file um ext yaml path evs bl = Some bl'" "protects um bl'"
    using bl.reloads_keep [where run = "watch_file um ext yaml path" and ext = ext and yaml = yaml
        and path = path and es = evs, OF _ _ bl(2)] by auto
  with bl(1) assms(2) d show ?thesis using protects_blocked by blast
qed

theorem hot_reload_keeps_defaults_witness:
  "\<exists>bl bl'. new_blocklist id (\<lambda>_. None) (\<lambda>_. None) ''blocklist.yaml'' (Some ''apps: ['') True = Some bl
     \<and> watch_file id (\<lambda>_. None) (\<lambda>_. None) ''blocklist.yaml''
         [FsEvent {OpWrite} None, WatcherError, FsEvent {OpCreate} (Some ''x'')] bl = Some bl'
     \<and> blocked (check id bl' \<lparr>process_name = ''KeePassXC'', window_title = [], browser_url = [],
                             focused_input_role = [], pid = 7\<rparr>)"
proof (rule hot_reload_keeps_defaults [OF hardcoded_defaults_eq])
  show "blocked (check_compiled id (default_compiled id)
    \<lparr>process_name = ''KeePassXC'', window_title = [], browser_url = [], focused_input_role = [], pid = 7\<rparr>)"
    unfolding check_compiled_blocked_iff default_sets
    by (intro disjI1) (simp add: to_lower_def default_config_def, code_simp)
qed


text \<open>The address of Digital Ghost's own search page.\<close>

definition own_page :: "string \<Rightarrow> bool" where
  "own_page url \<longleftrightarrow>
     (\<exists>scheme \<in> {''http'', ''https''}. \<exists>host \<in> {''127.0.0.1'', ''localhost''}.
        url = scheme @ ''://'' @ host @ '':7327'' \<or> has_prefix (scheme @ ''://'' @ host @ '':7327/'') url)"

definition builtin_names_window :: "(string \<Rightarrow> string) \<Rightarrow> window_context \<Rightarrow> bool" where
  "builtin_names_window um ctx \<longleftrightarrow>
     lists_window um default_config url_words title_words ctx \<or> own_page (browser_url ctx)"

lemma own_page_cases:
  assumes "own_page url"
  obtains scheme host t where "scheme \<in> {''http'', ''https''}" "host \<in> {''127.0.0.1'', ''localhost''}"
    "t = [] \<or> hd t = CHR ''/''" "url = scheme @ ''://'' @ host @ '':7327'' @ t"
proof -
  obtain scheme host where p: "scheme \<in> {''http'', ''https''}" "host \<in> {''127.0.0.1'', ''localhost''}"
    and u: "url = scheme @ ''://'' @ host @ '':7327'' \<or> has_prefix (scheme @ ''://'' @ host @ '':7327/'') url"
    using assms unfolding own_page_def by blast
  from u show thesis
  proof
    assume "url = scheme @ ''://'' @ host @ '':7327''"
    then show thesis using that [OF p, of "[]"] by simp
  next
    assume "has_prefix (scheme @ ''://'' @ host @ '':7327/'') url"
    then obtain t where "url = (scheme @ ''://'' @ host @ '':7327/'') @ t" unfolding has_prefix_iff prefix_def by blast
    then show thesis using that [OF p, of "CHR ''/'' # t"] by simp
  qed
qed

lemma builtin_names_blocked:
  assumes "builtin_names_window um ctx" shows "blocked (check_compiled um (default_compiled um) ctx)"
  using assms unfolding builtin_names_window_def
proof
  assume "lists_window um default_config url_words title_words ctx"
  then show ?thesis
    by (rule lists_window_blocked)
      (use default_url_match [of um] default_title_match [of um] words_ok in \<open>auto simp: default_compiled_def simp del: set_map\<close>)
next
  assume "own_page (browser_url ctx)"
  then obtain scheme host t where "scheme \<in> {''http'', ''https''}" "host \<in> {''127.0.0.1'', ''localhost''}"
    "t = [] \<or> hd t = CHR ''/''" and u: "browser_url ctx = scheme @ ''://'' @ host @ '':7327'' @ t"
    by (rule own_page_cases)
  from self_url_matches [OF this(1-3)] u show ?thesis
    unfolding check_compiled_blocked_iff default_url_match by auto
qed

lemma running_blocklist_protects:
  assumes "new_blocklist um ext yaml path file watch_ok = Some bl"
    and "watch_file um ext yaml path evs bl = Some bl'"
  shows "protects um bl'"
proof -
  have "protects um bl"
    using assms(1) new_blocklist_protects [of um ext yaml path "file" watch_ok] by auto
  then show ?thesis
    using assms(2) bl.reloads_keep [where run = "watch_file um ext yaml path" and um = um
        and ext = ext and yaml = yaml and path = path and es = evs] by force
qed

text \<open>
  C18. Sensitive windows are blocked whatever the user's file says: a window that any entry of the built-in
  list names is blocked by a running blocklist after any history of reloads. The entries are the
  applications and authentication programs, the roles of sensitive fields, the fragments of titles
  (password, token, \<dots>, and \<open>api\<close> with \<open>key\<close> at most one character after it) and of URLs (bank, paypal.com, /login, \<dots>),
  each in any mix of upper and lower case and anywhere in the text, and the address of the own search page.
\<close>

theorem sensitive_windows_blocked:
  assumes "new_blocklist um ext yaml path file watch_ok = Some bl"
    and "watch_file um ext yaml path evs bl = Some bl'"
    and "builtin_names_window um ctx"
  shows "blocked (check um bl' ctx)"
  using running_blocklist_protects [OF assms(1,2)] builtin_names_blocked [OF assms(3)]
  by (blast intro: protects_blocked)

theorem sensitive_windows_blocked_witness:
  "blocked (check id \<lparr>current = Some (default_compiled id), healthy = True, watching = False\<rparr>
     \<lparr>process_name = ''firefox'', window_title = ''My API-Key vault'', browser_url = [],
      focused_input_role = [], pid = 9\<rparr>)"
proof (rule sensitive_windows_blocked)
  show "new_blocklist id (\<lambda>_. None) (\<lambda>_. None) [] None False =
      Some \<lparr>current = Some (default_compiled id), healthy = True, watching = False\<rparr>"
    by (simp add: new_blocklist_def hardcoded_defaults_eq)
  show "watch_file id (\<lambda>_. None) (\<lambda>_. None) [] []
      \<lparr>current = Some (default_compiled id), healthy = True, watching = False\<rparr> =
      Some \<lparr>current = Some (default_compiled id), healthy = True, watching = False\<rparr>"
    by simp
  have "has_api_key ''My API-Key vault''" by code_simp
  then show "builtin_names_window id
      \<lparr>process_name = ''firefox'', window_title = ''My API-Key vault'', browser_url = [], focused_input_role = [], pid = 9\<rparr>"
    by (simp add: builtin_names_window_def lists_window_def)
qed

text \<open>
  A reload is all or nothing. If it reports an error (unreadable file, malformed YAML, a
  pattern that does not compile) the blocklist is unchanged; otherwise the new list contains every
  built-in entry and every entry of the file, and it was put in place in one step.
\<close>

theorem reload_atomic:
  assumes "load_from_file um ext yaml path file bl = Some (bl', err)"
  shows "(err \<noteq> None \<and> bl' = bl)
     \<or> (err = None \<and> (\<exists>data cfg c d m. file = Some data \<and> yaml data = Some cfg
          \<and> compile um ext cfg = Inr c \<and> hardcoded_defaults um ext = Some d
          \<and> bl' = bl\<lparr>current := Some m, healthy := True\<rparr> \<and> covers m c \<and> covers m d))"
proof -
  have m: "covers (merge_with_defaults c (default_compiled um)) c" for c
    by (auto simp: covers_def merge_with_defaults_def)
  from assms consider (failed) "err \<noteq> None" "bl' = bl"
    | (ok) data cfg c where "file = Some data" "yaml data = Some cfg" "compile um ext cfg = Inr c"
        "err = None"
        "bl' = bl\<lparr>current := Some (merge_with_defaults c (default_compiled um)), healthy := True\<rparr>"
    unfolding load_from_file_cases by blast
  then show ?thesis
  proof cases
    case failed
    then show ?thesis by blast
  next
    case ok
    then show ?thesis using m covers_merge hardcoded_defaults_eq by blast
  qed
qed

theorem reload_atomic_witness:
  "\<exists>bl'. load_from_file id (\<lambda>_. None)
      (\<lambda>_. Some \<lparr>cfg_apps = [''MySecretApp''], cfg_auth_patterns = [], cfg_url_patterns = [''(?i)intranet''],
                 cfg_title_patterns = [], cfg_sensitive_input_roles = []\<rparr>)
      ''b.yaml'' (Some ''...'') \<lparr>current = None, healthy = False, watching = True\<rparr> = Some (bl', None)
    \<and> (\<exists>m. current bl' = Some m \<and> ''mysecretapp'' \<in> apps m \<and> ''1password'' \<in> apps m)"
proof -
  let ?cfg = "\<lparr>cfg_apps = [''MySecretApp''], cfg_auth_patterns = [], cfg_url_patterns = [''(?i)intranet''],
                 cfg_title_patterns = [], cfg_sensitive_input_roles = []\<rparr>"
  let ?bl = "\<lparr>current = None, healthy = False, watching = True\<rparr>"
  have p: "parse_re ''(?i)intranet'' = Some (lit_seq ''intranet'')" by code_simp
  have a: "is_ascii ''MySecretApp''" "map ascii_lower ''MySecretApp'' = ''mysecretapp''" by code_simp+
  have t: "to_lower id ''MySecretApp'' = ''mysecretapp''"
    using to_lower_ascii [OF a(1)] a(2) by metis
  obtain c where c: "compile id (\<lambda>_. None) ?cfg = Inr c" and ca: "apps c = {''mysecretapp''}"
    by (simp add: compile_def re_compile_def p t)
  then obtain bl' where l: "load_from_file id (\<lambda>_. None) (\<lambda>_. Some ?cfg) ''b.yaml'' (Some ''...'') ?bl = Some (bl', None)"
    by (simp add: load_from_file_def hardcoded_defaults_eq)
  from reload_atomic [OF l] c obtain d m where "hardcoded_defaults id (\<lambda>_. None) = Some d"
    "bl' = ?bl\<lparr>current := Some m, healthy := True\<rparr>" "covers m c" "covers m d"
    by auto
  moreover have "''1password'' \<in> apps (default_compiled id)"
    unfolding default_sets by (simp add: default_config_def)
  ultimately show ?thesis
    using l ca by (auto simp: hardcoded_defaults_eq covers_def)
qed

text \<open>
  The search page of Digital Ghost itself is never captured from a browser that reports the
  full URL: \<open>http\<close> or \<open>https\<close>, either loopback name, port 7327, any path.
\<close>

theorem own_ui_blocked:
  assumes "new_blocklist um ext yaml path file watch_ok = Some bl"
    and "watch_file um ext yaml path evs bl = Some bl'"
    and "scheme \<in> {''http'', ''https''}" and "host \<in> {''127.0.0.1'', ''localhost''}"
    and "t = [] \<or> hd t = CHR ''/''"
    and "browser_url ctx = scheme @ ''://'' @ host @ '':7327'' @ t"
  shows "blocked (check um bl' ctx)"
proof -
  have "match_re self_url_re (browser_url ctx)"
    using self_url_matches [OF assms(3-5)] assms(6) by simp
  then have "blocked (check_compiled um (default_compiled um) ctx)"
    unfolding check_compiled_blocked_iff default_url_match using assms(6) by auto
  then show ?thesis
    by (rule protects_blocked [OF running_blocklist_protects [OF assms(1,2)]])
qed

theorem own_ui_blocked_witness:
  "blocked (check id \<lparr>current = Some (default_compiled id), healthy = True, watching = False\<rparr>
     \<lparr>process_name = ''chrome'', window_title = [], browser_url = ''http://localhost:7327/api'',
      focused_input_role = [], pid = 9\<rparr>)"
  by (rule own_ui_blocked [of id "\<lambda>_. None" "\<lambda>_. None" "[]" None False
        "\<lparr>current = Some (default_compiled id), healthy = True, watching = False\<rparr>" "[]" _
        "''http''" "''localhost''" "''/api''"])
    (simp_all add: new_blocklist_def hardcoded_defaults_eq)

text \<open>
  The same page escapes the built-in list when the address bar omits the scheme, as Chromium's
  does: the built-in self pattern requires \<open>http://\<close> or \<open>https://\<close>, so the URL
  \<open>localhost:7327/\<close> is not blocked by it.
\<close>

theorem own_ui_without_scheme_passes:
  "\<not> blocked (check_compiled um (default_compiled um)
     \<lparr>process_name = ''chrome'', window_title = [], browser_url = ''localhost:7327/'',
      focused_input_role = [], pid = n\<rparr>)"
proof -
  have "\<not> match_re self_url_re ''localhost:7327/''"
    "\<not> list_ex (\<lambda>w. match_re (lit_seq w) ''localhost:7327/'') url_words" by code_simp+
  moreover have "''chrome'' \<notin> set (cfg_apps default_config)"
    "\<not> list_ex (contains ''chrome'') (cfg_auth_patterns default_config)"
    "is_ascii ''chrome''" "map ascii_lower ''chrome'' = ''chrome''" by code_simp+
  ultimately show ?thesis
    unfolding check_compiled_blocked_iff default_url_match default_sets
    by (simp add: to_lower_ascii list_ex_iff)
qed

text \<open>
  The blocklist is not fail-closed in the sense of its header: when the configured file cannot
  be read, or its YAML is malformed, the program starts with the built-in list, and windows that
  the built-in list does not name pass.
\<close>

theorem unreadable_file_is_not_block_all:
  "\<exists>bl. new_blocklist um ext yaml ''blocklist.yaml'' None watch_ok = Some bl
     \<and> \<not> blocked (check um bl
         \<lparr>process_name = ''notepad'', window_title = ''Untitled'', browser_url = [],
          focused_input_role = [], pid = n\<rparr>)"
proof -
  have "\<not> list_ex (\<lambda>w. match_re (lit_seq w) ''Untitled'') title_words"
    "\<not> match_re api_key_re ''Untitled''" by code_simp+
  moreover have "''notepad'' \<notin> set (cfg_apps default_config)"
    "\<not> list_ex (contains ''notepad'') (cfg_auth_patterns default_config)"
    "is_ascii ''notepad''" "map ascii_lower ''notepad'' = ''notepad''" by code_simp+
  ultimately have "\<not> blocked (check_compiled um (default_compiled um)
         \<lparr>process_name = ''notepad'', window_title = ''Untitled'', browser_url = [],
          focused_input_role = [], pid = n\<rparr>)"
    unfolding check_compiled_blocked_iff default_title_match default_sets
    by (simp add: to_lower_ascii list_ex_iff)
  then show ?thesis
    by (simp add: new_blocklist_def hardcoded_defaults_eq load_from_file_def check_def)
qed

end
