(* ===== verification/Default_Blocklist.thy ===== *)
theory Default_Blocklist
  imports Blocklist
begin

text \<open>
  The blocklist \<open>internal/defaults\<close> embeds in the program, which \<open>ensureDefaultBlocklist\<close> writes on the
  first start and which is loaded from then on. Its lists are written out here as the YAML decoder
  delivers them; the lemmas say what it blocks, beyond the built-in list, and what it does not.
\<close>

section \<open>The embedded file\<close>

definition embedded_url_patterns :: "string list" where
  "embedded_url_patterns =
     [''(?i)bank'', ''(?i)banking'', ''(?i)'' @ esc @ ''.hsbc'' @ esc @ ''.'',
      ''(?i)'' @ esc @ ''.barclays'' @ esc @ ''.'', ''(?i)'' @ esc @ ''.chase'' @ esc @ ''.'',
      ''(?i)'' @ esc @ ''.wellsfargo'' @ esc @ ''.'', ''(?i)'' @ esc @ ''.bofa'' @ esc @ ''.'',
      ''(?i)'' @ esc @ ''.citibank'' @ esc @ ''.'', ''(?i)'' @ esc @ ''.capitalone'' @ esc @ ''.'',
      ''(?i)'' @ esc @ ''.schwab'' @ esc @ ''.'', ''(?i)'' @ esc @ ''.fidelity'' @ esc @ ''.'',
      ''(?i)'' @ esc @ ''.vanguard'' @ esc @ ''.'', ''(?i)paypal'' @ esc @ ''.com'',
      ''(?i)stripe'' @ esc @ ''.com/dashboard'', ''(?i)venmo'' @ esc @ ''.com'',
      ''(?i)cashapp'' @ esc @ ''.com'', ''(?i)wise'' @ esc @ ''.com'',
      ''(?i)'' @ esc @ ''.irs'' @ esc @ ''.gov'',
      ''(?i)'' @ esc @ ''.hmrc'' @ esc @ ''.gov'' @ esc @ ''.uk'', ''(?i)turbotax'' @ esc @ ''.com'',
      ''(?i)hrblock'' @ esc @ ''.com'', ''(?i)mychart'' @ esc @ ''.com'', ''(?i)epic'' @ esc @ ''.com'',
      ''(?i)healthgrades'' @ esc @ ''.com'', ''(?i)webmd'' @ esc @ ''.com/patient'',
      ''(?i)myhealth'' @ esc @ ''.'', ''(?i)/login'', ''(?i)/signin'', ''(?i)/auth'', ''(?i)/oauth'',
      ''(?i)/password'', ''(?i)/2fa'', ''(?i)/mfa'', ''(?i)/verify'', ''(?i)/reset-password'',
      ''(?i)/forgot-password'', ''(?i)mail'' @ esc @ ''.google'' @ esc @ ''.com'',
      ''(?i)outlook'' @ esc @ ''.live'' @ esc @ ''.com'',
      ''(?i)outlook'' @ esc @ ''.office'' @ esc @ ''.com'',
      ''(?i)mail'' @ esc @ ''.yahoo'' @ esc @ ''.com'', ''(?i)proton'' @ esc @ ''.me'',
      ''(?i)protonmail'' @ esc @ ''.com'']"

definition embedded_title_patterns :: "string list" where
  "embedded_title_patterns =
     [''(?i)password'', ''(?i)passphrase'', ''(?i)secret'', ''(?i)private key'', ''(?i)login'',
      ''(?i)sign in'', ''(?i)authenticate'', ''(?i)'' @ esc @ ''.env'', ''(?i)credentials'',
      ''(?i)api.?key'', ''(?i)token'']"

definition embedded_config :: blocklist_config where
  "embedded_config =
     \<lparr>cfg_apps =
        [''1Password'', ''1password'', ''Bitwarden'', ''bitwarden'', ''KeePass'', ''KeePassXC'',
         ''keepassxc'', ''Dashlane'', ''LastPass'', ''Keychain Access'', ''gnome-keyring-daemon'',
         ''kwallet'', ''pinentry'', ''pinentry-gtk'', ''pinentry-qt'', ''pinentry-curses'',
         ''ssh-askpass''],
      cfg_auth_patterns =
        [''sudo'', ''polkit'', ''pkttyagent'', ''pkexec'', ''gksu'', ''kdesudo'',
         ''UserAccountControlSettings'', ''consent.exe''],
      cfg_url_patterns = embedded_url_patterns,
      cfg_title_patterns = embedded_title_patterns,
      cfg_sensitive_input_roles = [''password'', ''spinbutton'']\<rparr>"

section \<open>What it compiles to\<close>

definition embedded_url_words :: "string list" where
  "embedded_url_words =
     [''bank'', ''banking'', ''.hsbc.'', ''.barclays.'', ''.chase.'', ''.wellsfargo.'', ''.bofa.'',
      ''.citibank.'', ''.capitalone.'', ''.schwab.'', ''.fidelity.'', ''.vanguard.'', ''paypal.com'',
      ''stripe.com/dashboard'', ''venmo.com'', ''cashapp.com'', ''wise.com'', ''.irs.gov'',
      ''.hmrc.gov.uk'', ''turbotax.com'', ''hrblock.com'', ''mychart.com'', ''epic.com'',
      ''healthgrades.com'', ''webmd.com/patient'', ''myhealth.'', ''/login'', ''/signin'', ''/auth'',
      ''/oauth'', ''/password'', ''/2fa'', ''/mfa'', ''/verify'', ''/reset-password'',
      ''/forgot-password'', ''mail.google.com'', ''outlook.live.com'', ''outlook.office.com'',
      ''mail.yahoo.com'', ''proton.me'', ''protonmail.com'']"

definition embedded_title_words :: "string list" where
  "embedded_title_words =
     [''password'', ''passphrase'', ''secret'', ''private key'', ''login'', ''sign in'',
      ''authenticate'', ''.env'', ''credentials'', ''token'']"

lemma parse_embedded_urls:
  "map parse_re embedded_url_patterns = map (\<lambda>w. Some (lit_seq w)) embedded_url_words"
  by code_simp

lemma parse_embedded_titles:
  "map parse_re embedded_title_patterns =
     map (\<lambda>w. Some (lit_seq w)) (butlast embedded_title_words) @ [Some api_key_re, Some (lit_seq (last embedded_title_words))]"
  by code_simp

lemma embedded_parse:
  "None \<notin> set (map parse_re embedded_url_patterns)" "None \<notin> set (map parse_re embedded_title_patterns)"
  unfolding parse_embedded_urls parse_embedded_titles by auto

definition pattern_regexps :: "string list \<Rightarrow> regexp list" where
  "pattern_regexps ps = map (\<lambda>p. \<lparr>re_string = p, re_match = match_re (the (parse_re p))\<rparr>) ps"

definition embedded_compiled :: "(string \<Rightarrow> string) \<Rightarrow> compiled_blocklist" where
  "embedded_compiled um =
     \<lparr>apps = set (map (to_lower um) (cfg_apps embedded_config)),
      auth_patterns = set (map (to_lower um) (cfg_auth_patterns embedded_config)),
      url_regexps = pattern_regexps embedded_url_patterns,
      title_regexps = pattern_regexps embedded_title_patterns,
      sensitive_inputs = set (map (to_lower um) (cfg_sensitive_input_roles embedded_config))\<rparr>"

lemma embedded_compiles: "compile um ext embedded_config = Inr (embedded_compiled um)"
  by (simp add: compile_def embedded_config_def embedded_compiled_def pattern_regexps_def
      compile_patterns_parsed [OF embedded_parse(1)] compile_patterns_parsed [OF embedded_parse(2)])

lemma embedded_url_match:
  "(\<exists>r \<in> set (url_regexps (embedded_compiled um)). re_match r s) \<longleftrightarrow> (\<exists>w \<in> set embedded_url_words. match_re (lit_seq w) s)"
proof -
  have e: "map re_match (url_regexps (embedded_compiled um)) = map (\<lambda>r. match_re (the r)) (map parse_re embedded_url_patterns)"
    by (simp add: embedded_compiled_def pattern_regexps_def)
  show ?thesis unfolding ex_map_iff e parse_embedded_urls by auto
qed

lemma embedded_title_match:
  "(\<exists>r \<in> set (title_regexps (embedded_compiled um)). re_match r s) \<longleftrightarrow>
     (\<exists>w \<in> set embedded_title_words. match_re (lit_seq w) s) \<or> match_re api_key_re s"
proof -
  have e: "map re_match (title_regexps (embedded_compiled um)) = map (\<lambda>r. match_re (the r)) (map parse_re embedded_title_patterns)"
    by (simp add: embedded_compiled_def pattern_regexps_def)
  have w: "set embedded_title_words = insert (last embedded_title_words) (set (butlast embedded_title_words))"
    by (simp add: embedded_title_words_def insert_commute)
  show ?thesis unfolding ex_map_iff e parse_embedded_titles w by auto
qed

lemma embedded_words_ok:
  "list_all (\<lambda>w. w \<noteq> [] \<and> is_ascii w \<and> map ascii_lower w = w) (embedded_url_words @ embedded_title_words)"
  by code_simp

lemma embedded_names_ascii:
  "list_all is_ascii (cfg_apps embedded_config @ cfg_auth_patterns embedded_config)"
  by code_simp

lemma map_to_lower_ascii: "list_all is_ascii ws \<Longrightarrow> map (to_lower um) ws = map (map ascii_lower) ws"
  by (induction ws) (auto simp: to_lower_ascii)

lemma embedded_names:
  "apps (embedded_compiled um) = map ascii_lower ` set (cfg_apps embedded_config)"
  "auth_patterns (embedded_compiled um) = map ascii_lower ` set (cfg_auth_patterns embedded_config)"
proof -
  have "map (to_lower um) (cfg_apps embedded_config) = map (map ascii_lower) (cfg_apps embedded_config)"
    "map (to_lower um) (cfg_auth_patterns embedded_config) = map (map ascii_lower) (cfg_auth_patterns embedded_config)"
    using embedded_names_ascii by (auto intro!: map_to_lower_ascii simp del: map_eq_conv)
  then show "apps (embedded_compiled um) = map ascii_lower ` set (cfg_apps embedded_config)"
    "auth_patterns (embedded_compiled um) = map ascii_lower ` set (cfg_auth_patterns embedded_config)"
    by (simp_all only: embedded_compiled_def compiled_blocklist.simps set_map)
qed

text \<open>What one of its lists names.\<close>

definition embedded_names_window :: "(string \<Rightarrow> string) \<Rightarrow> window_context \<Rightarrow> bool" where
  "embedded_names_window um ctx \<longleftrightarrow> lists_window um embedded_config embedded_url_words embedded_title_words ctx"

lemma embedded_blocks:
  assumes "embedded_names_window um ctx" shows "blocked (check_compiled um (embedded_compiled um) ctx)"
  using assms unfolding embedded_names_window_def
  by (rule lists_window_blocked)
    (use embedded_url_match [of um] embedded_title_match [of um] embedded_words_ok in \<open>auto simp: embedded_compiled_def simp del: set_map\<close>)

section \<open>Theorems\<close>

text \<open>
  With the embedded file in place every window it names is blocked at the start: an application by its
  name, an authentication program by a part of its name, a field by its role, a page or a title by any of the fragments
  or the \<open>api.?key\<close> of its title patterns, all in any mix of upper and lower case.
\<close>

lemma embedded_list_blocks:
  assumes "yaml text = Some embedded_config" and "path \<noteq> []"
    and "new_blocklist um ext yaml path (Some text) watch_ok = Some bl" and "embedded_names_window um ctx"
  shows "blocked (check um bl ctx)"
proof -
  have "bl = \<lparr>current = Some (merge_with_defaults (embedded_compiled um) (default_compiled um)), healthy = True,
      watching = watch_ok\<rparr>"
    using assms(1-3) by (simp add: new_blocklist_def load_from_file_def hardcoded_defaults_eq embedded_compiles Let_def)
  moreover have "covers (merge_with_defaults (embedded_compiled um) (default_compiled um)) (embedded_compiled um)"
    by (auto simp: covers_def merge_with_defaults_def)
  ultimately show ?thesis using check_compiled_mono embedded_blocks [OF assms(4)] by (simp add: check_def)
qed

lemma hsbc_page_named:
  "embedded_names_window um \<lparr>process_name = ''firefox'', window_title = [], browser_url = ''www.HSBC.co.uk/'', focused_input_role = [], pid = 3\<rparr>"
  (is "embedded_names_window um ?ctx")
proof -
  have "contains (map ascii_lower (browser_url ?ctx)) ''.hsbc.''" "''.hsbc.'' \<in> set embedded_url_words" by code_simp+
  then show ?thesis unfolding embedded_names_window_def lists_window_def by blast
qed

text \<open>
  The patterns for banks begin with a dot: a page on the bare domain passes both lists.
\<close>

theorem bare_bank_domain_passes:
  "\<not> blocked (check_compiled um (merge_with_defaults (embedded_compiled um) (default_compiled um))
     \<lparr>process_name = ''chrome'', window_title = ''Chase'', browser_url = ''chase.com/personal'',
      focused_input_role = [], pid = n\<rparr>)"
proof -
  have n: "\<not> match_re self_url_re ''chase.com/personal''" "\<not> match_re api_key_re ''Chase''" by code_simp+
  have l: "is_ascii ''chase.com/personal''" "is_ascii ''Chase''"
    "\<not> list_ex (contains (map ascii_lower ''chase.com/personal'')) (map (map ascii_lower) (url_words @ embedded_url_words))"
    "\<not> list_ex (contains (map ascii_lower ''Chase'')) (map (map ascii_lower) (title_words @ embedded_title_words))"
    by code_simp+
  have w: "(\<exists>w \<in> set ws. match_re (lit_seq w) s) \<longleftrightarrow> list_ex (contains (map ascii_lower s)) (map (map ascii_lower) ws)"
    if "is_ascii s" for ws s
    using that unfolding match_re_def list_ex_iff by (simp only: lit_search_ascii set_map bex_simps)
  have p: "''chrome'' \<notin> set (cfg_apps default_config)" "''chrome'' \<notin> set (map (map ascii_lower) (cfg_apps embedded_config))"
    "\<not> list_ex (contains ''chrome'') (cfg_auth_patterns default_config)"
    "\<not> list_ex (contains ''chrome'') (map (map ascii_lower) (cfg_auth_patterns embedded_config))"
    "is_ascii ''chrome''" "map ascii_lower ''chrome'' = ''chrome''" by code_simp+
  have lower: "to_lower um ''chrome'' = ''chrome''" using p(5,6) by (simp only: to_lower_ascii)
  have apps: "''chrome'' \<notin> apps (default_compiled um) \<union> apps (embedded_compiled um)"
    using p(1,2) by (simp only: default_sets embedded_names set_map Un_iff simp_thms)
  have auth: "\<not> (\<exists>p \<in> auth_patterns (default_compiled um) \<union> auth_patterns (embedded_compiled um). contains ''chrome'' p)"
    using p(3,4) by (simp only: default_sets embedded_names set_map list_ex_iff bex_Un simp_thms)
  have ex: "(\<exists>r \<in> set (xs @ ys). P r) \<longleftrightarrow> (\<exists>r \<in> set xs. P r) \<or> (\<exists>r \<in> set ys. P r)" for xs ys :: "'x list" and P
    by auto
  show ?thesis
    unfolding check_compiled_blocked_iff merge_with_defaults_def compiled_blocklist.simps window_context.simps ex
      default_url_match embedded_url_match default_title_match embedded_title_match lower
    using n l apps auth unfolding w [OF l(1)] w [OF l(2)] by (simp only: list_ex_append map_append simp_thms)
qed

end
