(* ===== verification/Privacy_Gate.thy ===== *)
theory Privacy_Gate
  imports Blocklist
begin

text \<open>
  \<open>internal/capture/privacy.go\<close> and the window queries it calls: the gate that runs before any
  pixel is read, its pause switch, and what the three platforms report about windows
  (\<open>capture_windows.go\<close>, \<open>capture_linux_x11.go\<close>, \<open>capture_unsupported.go\<close>).

  The answers of the operating system (foreground window, process image path, child windows of a
  browser, UI Automation) are a record; the decisions the code takes on them are definitions.
\<close>

section \<open>The gate\<close>

record window_metadata =
  md_process_name :: string
  md_window_title :: string
  md_browser_url :: string
  md_focused_input_role :: string
  md_pid :: int

record gate =
  gate_blocklist :: blocklist
  paused :: bool

record gate_result =
  gr_blocked :: bool
  gr_reason :: string
  gr_window_ctx :: window_context

definition new_gate :: "blocklist \<Rightarrow> gate" where
  "new_gate bl = \<lparr>gate_blocklist = bl, paused = False\<rparr>"

definition pause :: "gate \<Rightarrow> gate" where
  "pause g = g\<lparr>paused := True\<rparr>"

definition resume :: "gate \<Rightarrow> gate" where
  "resume g = g\<lparr>paused := False\<rparr>"

definition zero_context :: window_context where
  "zero_context = \<lparr>process_name = [], window_title = [], browser_url = [],
                   focused_input_role = [], pid = 0\<rparr>"

definition context_of :: "window_metadata \<Rightarrow> window_context" where
  "context_of md = \<lparr>process_name = md_process_name md, window_title = md_window_title md,
                    browser_url = md_browser_url md, focused_input_role = md_focused_input_role md,
                    pid = md_pid md\<rparr>"

definition background_context :: "string \<Rightarrow> window_context" where
  "background_context proc = zero_context\<lparr>process_name := proc\<rparr>"

fun background_block :: "(window_context \<Rightarrow> block_decision) \<Rightarrow> string list \<Rightarrow> block_decision option" where
  "background_block chk [] = None"
| "background_block chk (proc # procs) =
     (let d = chk (background_context proc)
      in if blocked d then Some d else background_block chk procs)"

definition sensitive_roles :: "string set" where
  "sensitive_roles = {''password'', ''spinbutton''}"

definition block_result :: "string \<Rightarrow> gate_result" where
  "block_result r = \<lparr>gr_blocked = True, gr_reason = r, gr_window_ctx = zero_context\<rparr>"

text \<open>
  \<open>Gate.Check\<close>: \<open>chk\<close> is the blocklist's check, \<open>query\<close> the result of
  \<open>queryWindowContext\<close>, \<open>bg\<close> that of \<open>queryVisibleBackgroundProcesses\<close>.
\<close>

definition gate_check ::
  "(window_context \<Rightarrow> block_decision) \<Rightarrow> bool \<Rightarrow> string + window_metadata \<Rightarrow> string list \<Rightarrow> gate_result" where
  "gate_check chk is_paused query bg =
     (case query of
        Inl err \<Rightarrow> block_result (''metadata_query_failed:'' @ err)
      | Inr md \<Rightarrow>
          (let decision = chk (context_of md) in
           if blocked decision then block_result (reason decision)
           else (case background_block chk bg of
             Some d \<Rightarrow> block_result (''background_window:'' @ reason d)
           | None \<Rightarrow>
               if md_focused_input_role md \<noteq> [] \<and> md_focused_input_role md \<in> sensitive_roles
               then block_result (''sensitive_input_focused:'' @ md_focused_input_role md)
               else if is_paused then block_result ''capture_paused''
               else \<lparr>gr_blocked = False, gr_reason = ''pass'', gr_window_ctx = context_of md\<rparr>)))"

definition check_gate :: "(string \<Rightarrow> string) \<Rightarrow> gate \<Rightarrow> string + window_metadata \<Rightarrow> string list \<Rightarrow> gate_result" where
  "check_gate um g query bg = gate_check (check um (gate_blocklist g)) (paused g) query bg"

section \<open>What the platforms report\<close>

text \<open>Linux without a complete backend, and unsupported platforms: no metadata, no windows.\<close>

definition query_window_context_x11 :: "string + window_metadata" where
  "query_window_context_x11 =
     Inl (''X11 window metadata not yet implemented: ''
        @ ''privacy gate cannot function without real process/window information'')"

definition query_visible_background_processes_x11 :: "string list" where
  "query_visible_background_processes_x11 = []"

definition query_window_context_unsupported :: "string + window_metadata" where
  "query_window_context_unsupported = Inl ''screen capture is not supported on this platform''"

definition query_visible_background_processes_unsupported :: "string list" where
  "query_visible_background_processes_unsupported = []"

text \<open>
  \<open>filepath.Base\<close> on Windows, for paths with an optional drive letter (the image paths the OS
  returns): the part after the last separator.
\<close>

definition is_sep :: "char \<Rightarrow> bool" where
  "is_sep c \<longleftrightarrow> c = CHR 0x5C \<or> c = CHR ''/''"

definition strip_drive :: "string \<Rightarrow> string" where
  "strip_drive p = (case p of c # d # t \<Rightarrow> if d = CHR '':'' then t else p | _ \<Rightarrow> p)"

definition base_name :: "string \<Rightarrow> string" where
  "base_name p =
     (if p = [] then ''.''
      else let q = strip_drive (rev (dropWhile is_sep (rev p)));
               b = rev (takeWhile (\<lambda>c. \<not> is_sep c) (rev q))
           in if b = [] then [CHR 0x5C] else b)"

text \<open>
  The answers of Windows at one moment. A handle or a process identifier is 0 when there is none;
  \<open>exe\<close> is \<open>None\<close> when the process cannot be opened or its image path cannot be read.
\<close>

record win_window =
  hwnd :: nat
  visible :: bool
  win_pid :: nat
  exe :: "string option"

record windows_desktop =
  foreground :: nat
  fg_title :: string
  fg_pid :: nat
  fg_exe :: "string option"
  fg_children :: "(string \<times> string) list"
  uia_url :: string
  focused_is_password :: bool
  top_level :: "win_window list"

definition strip_exe :: "string \<Rightarrow> string" where
  "strip_exe n = (if length n > 4 \<and> drop (length n - 4) n = ''.exe'' then take (length n - 4) n else n)"

text \<open>
  \<open>enumChildWindowProc\<close> as \<open>EnumChildWindows\<close> drives it: the enumeration stops at the
  first omnibox control, whose text (if any) is the URL.
\<close>

fun enum_child_windows :: "(string \<times> string) list \<Rightarrow> string" where
  "enum_child_windows [] = []"
| "enum_child_windows ((class_name, txt) # ws) =
     (if class_name = ''Chrome_OmniboxView'' \<or> class_name = ''OmniboxViewViews'' then txt
      else enum_child_windows ws)"

definition known_browsers :: "string list" where
  "known_browsers = [''opera'', ''chrome'', ''firefox'', ''msedge'', ''brave'', ''vivaldi'', ''chromium'']"

definition extract_browser_url :: "(string \<Rightarrow> string) \<Rightarrow> windows_desktop \<Rightarrow> string \<Rightarrow> string" where
  "extract_browser_url um w proc =
     (if \<not> list_ex (contains (to_lower um proc)) known_browsers then []
      else let url = enum_child_windows (fg_children w)
           in if url \<noteq> [] then url else uia_url w)"

definition query_window_context_windows ::
  "(string \<Rightarrow> string) \<Rightarrow> windows_desktop \<Rightarrow> string + window_metadata" where
  "query_window_context_windows um w =
     (if foreground w = 0 then
        Inr \<lparr>md_process_name = ''unknown'', md_window_title = [], md_browser_url = [],
             md_focused_input_role = [], md_pid = 0\<rparr>
      else let pname = (if fg_pid w \<noteq> 0
                        then (case fg_exe w of None \<Rightarrow> ''unknown'' | Some path \<Rightarrow> strip_exe (base_name path))
                        else ''unknown'')
           in Inr \<lparr>md_process_name = pname, md_window_title = fg_title w,
                   md_browser_url = extract_browser_url um w pname,
                   md_focused_input_role = (if focused_is_password w then ''password'' else []),
                   md_pid = int (fg_pid w)\<rparr>)"

fun background_processes :: "(string \<Rightarrow> string) \<Rightarrow> nat \<Rightarrow> win_window list \<Rightarrow> string list" where
  "background_processes um fg [] = []"
| "background_processes um fg (w # ws) =
     (if hwnd w = fg then background_processes um fg ws
      else if \<not> visible w then background_processes um fg ws
      else if win_pid w = 0 then background_processes um fg ws
      else (case exe w of
              None \<Rightarrow> background_processes um fg ws
            | Some path \<Rightarrow> to_lower um (base_name path) # background_processes um fg ws))"

definition query_visible_background_processes_windows ::
  "(string \<Rightarrow> string) \<Rightarrow> windows_desktop \<Rightarrow> string list" where
  "query_visible_background_processes_windows um w = background_processes um (foreground w) (top_level w)"

definition check_windows :: "(string \<Rightarrow> string) \<Rightarrow> gate \<Rightarrow> windows_desktop \<Rightarrow> gate_result" where
  "check_windows um g w =
     check_gate um g (query_window_context_windows um w) (query_visible_background_processes_windows um w)"

section \<open>Lemmas\<close>

lemma block_result_blocked [simp]: "gr_blocked (block_result r)"
  by (simp add: block_result_def)

lemma background_block_None:
  "background_block chk procs = None \<longleftrightarrow> (\<forall>p \<in> set procs. \<not> blocked (chk (background_context p)))"
  by (induction procs) (auto simp: Let_def)

lemma gate_check_pass_iff:
  "\<not> gr_blocked (gate_check chk pz query bg) \<longleftrightarrow>
     (\<exists>md. query = Inr md \<and> \<not> blocked (chk (context_of md))
        \<and> (\<forall>p \<in> set bg. \<not> blocked (chk (background_context p)))
        \<and> md_focused_input_role md \<notin> sensitive_roles \<and> \<not> pz
        \<and> gate_check chk pz query bg = \<lparr>gr_blocked = False, gr_reason = ''pass'', gr_window_ctx = context_of md\<rparr>)"
  by (cases query; cases "background_block chk bg")
    (auto simp: gate_check_def Let_def background_block_None [symmetric] sensitive_roles_def)

context reloadable_filter
begin

text \<open>A gate over any such filter keeps the filter's baseline, for every window it looks at.\<close>

lemma gate_blocks_foreground:
  "invar b \<Longrightarrow> baseline (context_of md) \<Longrightarrow> gr_blocked (gate_check (chk b) pz (Inr md) bg)"
  using baseline_blocked gate_check_pass_iff by blast

lemma gate_blocks_background:
  "invar b \<Longrightarrow> p \<in> set bg \<Longrightarrow> baseline (background_context p) \<Longrightarrow>
     gr_blocked (gate_check (chk b) pz query bg)"
  using baseline_blocked gate_check_pass_iff by blast

end

section \<open>Evaluating the built-in list\<close>

lemma default_blocked_iff:
  "blocked (check_compiled um (default_compiled um) ctx) \<longleftrightarrow>
     to_lower um (process_name ctx) \<in> set (cfg_apps default_config)
     \<or> list_ex (contains (to_lower um (process_name ctx))) (cfg_auth_patterns default_config)
     \<or> browser_url ctx \<noteq> [] \<and> (match_re self_url_re (browser_url ctx)
          \<or> list_ex (\<lambda>w. match_re (lit_seq w) (browser_url ctx)) url_words)
     \<or> window_title ctx \<noteq> [] \<and> (list_ex (\<lambda>w. match_re (lit_seq w) (window_title ctx)) title_words
          \<or> match_re api_key_re (window_title ctx))
     \<or> focused_input_role ctx \<noteq> [] \<and> to_lower um (focused_input_role ctx) \<in> {''password'', ''spinbutton''}"
  unfolding check_compiled_blocked_iff default_url_match default_title_match default_sets
  by (auto simp: list_ex_iff)

lemma default_passes_plain:
  assumes "is_ascii (process_name ctx)" and "browser_url ctx = []" and "focused_input_role ctx = []"
    and "map ascii_lower (process_name ctx) = n"
    and "n \<notin> set (cfg_apps default_config)" and "\<not> list_ex (contains n) (cfg_auth_patterns default_config)"
    and "window_title ctx \<noteq> [] \<Longrightarrow> \<not> (list_ex (\<lambda>w. match_re (lit_seq w) (window_title ctx)) title_words
          \<or> match_re api_key_re (window_title ctx))"
  shows "\<not> blocked (check_compiled um (default_compiled um) ctx)"
  unfolding default_blocked_iff using assms by (auto simp: to_lower_ascii)

abbreviation default_blocklist :: "(string \<Rightarrow> string) \<Rightarrow> blocklist" where
  "default_blocklist um \<equiv> \<lparr>current = Some (default_compiled um), healthy = True, watching = False\<rparr>"

lemma default_blocklist_protects [simp]: "protects um (default_blocklist um)"
  by (simp add: protects_def)

lemma check_default [simp]: "check um (default_blocklist um) ctx = check_compiled um (default_compiled um) ctx"
  by (simp add: check_def)

definition notes_desktop :: windows_desktop where
  "notes_desktop = \<lparr>foreground = 1, fg_title = ''notes.txt'', fg_pid = 40,
     fg_exe = Some (''C:'' @ esc @ ''Windows'' @ esc @ ''notepad.exe''), fg_children = [], uia_url = [],
     focused_is_password = False,
     top_level = [\<lparr>hwnd = 1, visible = True, win_pid = 40,
                    exe = Some (''C:'' @ esc @ ''Windows'' @ esc @ ''notepad.exe'')\<rparr>]\<rparr>"

lemma notepad_md:
  "query_window_context_windows um notes_desktop =
     Inr \<lparr>md_process_name = ''notepad'', md_window_title = ''notes.txt'', md_browser_url = [],
          md_focused_input_role = [], md_pid = 40\<rparr>"
proof -
  have "strip_exe (base_name (''C:'' @ esc @ ''Windows'' @ esc @ ''notepad.exe'')) = ''notepad''"
    "\<not> list_ex (contains ''notepad'') known_browsers" "is_ascii ''notepad''"
    "map ascii_lower ''notepad'' = ''notepad''" by code_simp+
  then show ?thesis
    by (simp add: query_window_context_windows_def notes_desktop_def extract_browser_url_def to_lower_ascii)
qed

lemma notepad_passes:
  "\<not> blocked (check_compiled um (default_compiled um) (context_of
     \<lparr>md_process_name = ''notepad'', md_window_title = ''notes.txt'', md_browser_url = [],
          md_focused_input_role = [], md_pid = 40\<rparr>))"
  by (rule default_passes_plain [where n = "''notepad''"])
    (simp_all add: context_of_def, code_simp+)

section \<open>Properties\<close>

text \<open>
  What a passing gate guarantees: the metadata query succeeded, capture is not paused, the
  context handed on is exactly the queried one, and neither the foreground window nor any visible
  background window is one that the built-in list blocks. This holds for the blocklist as it is
  after any start and any history of reloads.
\<close>

theorem gate_pass_is_safe:
  assumes "new_blocklist um ext yaml path file watch_ok = Some bl"
    and "watch_file um ext yaml path evs bl = Some (gate_blocklist g)"
    and "\<not> gr_blocked (check_gate um g query bg)"
  shows "\<exists>md. query = Inr md \<and> gr_window_ctx (check_gate um g query bg) = context_of md \<and> \<not> paused g
     \<and> md_focused_input_role md \<notin> sensitive_roles
     \<and> (\<forall>ctx \<in> insert (context_of md) (background_context ` set bg).
           \<not> blocked (check_compiled um (default_compiled um) ctx))"
proof -
  have p: "protects um (gate_blocklist g)"
    by (rule running_blocklist_protects [OF assms(1,2)])
  have n: "\<not> gr_blocked (gate_check (check um (gate_blocklist g)) (paused g) query bg)"
    using assms(3) by (simp add: check_gate_def)
  then obtain md where md: "query = Inr md" "md_focused_input_role md \<notin> sensitive_roles" "\<not> paused g"
    "gr_window_ctx (check_gate um g query bg) = context_of md"
    unfolding gate_check_pass_iff check_gate_def by (metis gate_result.select_convs(3))
  have "\<not> blocked (check_compiled um (default_compiled um) (context_of md))"
    using bl.gate_blocks_foreground [OF p] n md(1) by metis
  moreover have "\<not> blocked (check_compiled um (default_compiled um) (background_context q))"
    if "q \<in> set bg" for q
    using bl.gate_blocks_background [OF p that] n by metis
  ultimately show ?thesis using md by auto
qed

theorem gate_pass_is_safe_witness:
  "\<not> blocked (check_compiled id (default_compiled id) (background_context ''explorer.exe''))
   \<and> \<not> gr_blocked (check_gate id (new_gate (default_blocklist id)) (query_window_context_windows id notes_desktop) [''explorer.exe''])"
proof -
  let ?g = "new_gate (default_blocklist id)"
  have e: "\<not> blocked (check_compiled id (default_compiled id) (background_context ''explorer.exe''))"
    by (rule default_passes_plain [where n = "''explorer.exe''"])
      (simp_all add: background_context_def zero_context_def, code_simp+)
  have pass: "\<not> gr_blocked (check_gate id ?g (query_window_context_windows id notes_desktop) [''explorer.exe''])"
    using e notepad_passes
    by (simp add: check_gate_def gate_check_def new_gate_def notepad_md Let_def)
  have n: "new_blocklist id (\<lambda>_. None) (\<lambda>_. None) [] None False = Some (default_blocklist id)"
    by (simp add: new_blocklist_def hardcoded_defaults_eq)
  have w: "watch_file id (\<lambda>_. None) (\<lambda>_. None) [] [] (default_blocklist id) = Some (gate_blocklist ?g)"
    by (simp add: new_gate_def)
  from gate_pass_is_safe [OF n w pass]
  have "\<not> blocked (check_compiled id (default_compiled id) (background_context ''explorer.exe''))"
    by auto
  with pass show ?thesis by blast
qed

text \<open>
  Pausing suppresses every capture but nothing else: while paused the gate blocks, and it gives
  exactly the reason it would give without the pause whenever there is one, so blocked windows are
  still detected; resuming restores the unpaused decision.
\<close>

theorem pause_only_suppresses:
  "check_gate um (pause g) query bg =
     (if gr_blocked (check_gate um (resume g) query bg) then check_gate um (resume g) query bg
      else block_result ''capture_paused'')
   \<and> gr_blocked (check_gate um (pause g) query bg)
   \<and> check_gate um (resume (pause g)) query bg = check_gate um (resume g) query bg"
  by (cases query)
    (auto simp: check_gate_def gate_check_def pause_def resume_def Let_def split: option.splits)

text \<open>
  On the platforms without window metadata no frame ever passes the gate, whatever the
  blocklist and the pause switch.
\<close>

theorem no_metadata_no_capture:
  "gr_blocked (check_gate um g query_window_context_x11 query_visible_background_processes_x11)
   \<and> gr_blocked (check_gate um g query_window_context_unsupported query_visible_background_processes_unsupported)"
  by (simp add: check_gate_def gate_check_def query_window_context_x11_def query_window_context_unsupported_def)

text \<open>
  On Windows a focused password field blocks the whole frame in every application, and so does
  a foreground process on the built-in application list, whose image name ends in \<open>.exe\<close>.
\<close>

theorem windows_password_and_apps_blocked:
  assumes "protects um (gate_blocklist g)" and "foreground w \<noteq> 0"
    and "focused_is_password w
         \<or> (\<exists>path a. fg_pid w \<noteq> 0 \<and> fg_exe w = Some path \<and> a \<in> set (cfg_apps default_config)
              \<and> base_name path = n @ ''.exe'' \<and> n \<noteq> [] \<and> to_lower um n = a)"
  shows "gr_blocked (check_windows um g w)"
proof -
  obtain md where md: "query_window_context_windows um w = Inr md"
    "focused_is_password w \<Longrightarrow> md_focused_input_role md = ''password''"
    "\<And>path. fg_pid w \<noteq> 0 \<Longrightarrow> fg_exe w = Some path \<Longrightarrow> md_process_name md = strip_exe (base_name path)"
    using assms(2) by (auto simp: query_window_context_windows_def Let_def split: option.splits)
  have "blocked (check_compiled um (default_compiled um) (context_of md))"
    using assms(3)
  proof (elim disjE exE conjE)
    assume "focused_is_password w"
    moreover have "is_ascii ''password''" "map ascii_lower ''password'' = ''password''" by code_simp+
    ultimately show ?thesis
      using md(2) unfolding default_blocked_iff by (simp add: context_of_def to_lower_ascii)
  next
    fix path a
    assume "fg_pid w \<noteq> 0" "fg_exe w = Some path" "a \<in> set (cfg_apps default_config)"
      "base_name path = n @ ''.exe''" "n \<noteq> []" "to_lower um n = a"
    then show ?thesis
      using md(3) unfolding default_blocked_iff by (simp add: context_of_def strip_exe_def)
  qed
  then show ?thesis
    unfolding check_windows_def check_gate_def md(1)
    by (rule bl.gate_blocks_foreground [OF assms(1)])
qed

theorem windows_password_and_apps_blocked_witness:
  "gr_blocked (check_windows id (new_gate (default_blocklist id)) (notes_desktop\<lparr>focused_is_password := True\<rparr>))"
  by (rule windows_password_and_apps_blocked) (simp_all add: new_gate_def notes_desktop_def)

text \<open>
  The background-window check does not see the built-in applications: the foreground name is
  reported without \<open>.exe\<close>, background names with it, so no name of the application list is
  matched behind the foreground window. With 1Password open behind Notepad the frame passes.
\<close>

theorem background_apps_pass:
  "list_all (\<lambda>a. \<not> blocked (check_compiled um (default_compiled um) (background_context (a @ ''.exe'')))
        \<and> blocked (check_compiled um (default_compiled um) (background_context a)))
     (cfg_apps default_config)
   \<and> \<not> gr_blocked (check_windows um (new_gate (default_blocklist um))
        (notes_desktop\<lparr>top_level := top_level notes_desktop @
           [\<lparr>hwnd = 2, visible = True, win_pid = 77,
             exe = Some (''C:'' @ esc @ ''1Password'' @ esc @ ''1password.exe'')\<rparr>]\<rparr>))"
proof -
  have l: "list_all (\<lambda>a. is_ascii a \<and> is_ascii (a @ ''.exe'') \<and> map ascii_lower a = a
      \<and> map ascii_lower (a @ ''.exe'') = a @ ''.exe''
      \<and> a @ ''.exe'' \<notin> set (cfg_apps default_config)
      \<and> \<not> list_ex (contains (a @ ''.exe'')) (cfg_auth_patterns default_config)) (cfg_apps default_config)"
    by code_simp
  have b: "list_all (\<lambda>a. \<not> blocked (check_compiled um (default_compiled um) (background_context (a @ ''.exe'')))
        \<and> blocked (check_compiled um (default_compiled um) (background_context a)))
     (cfg_apps default_config)"
    using l unfolding default_blocked_iff
    by (simp add: list_all_iff background_context_def zero_context_def to_lower_ascii)
  have q: "query_visible_background_processes_windows um
      (notes_desktop\<lparr>top_level := top_level notes_desktop @
           [\<lparr>hwnd = 2, visible = True, win_pid = 77,
             exe = Some (''C:'' @ esc @ ''1Password'' @ esc @ ''1password.exe'')\<rparr>]\<rparr>) = [''1password.exe'']"
  proof -
    have "base_name (''C:'' @ esc @ ''1Password'' @ esc @ ''1password.exe'') = ''1password.exe''"
      "is_ascii ''1password.exe''" "map ascii_lower ''1password.exe'' = ''1password.exe''" by code_simp+
    then show ?thesis
      by (simp add: query_visible_background_processes_windows_def notes_desktop_def to_lower_ascii)
  qed
  have m: "query_window_context_windows um (notes_desktop\<lparr>top_level := tl\<rparr>) = query_window_context_windows um notes_desktop"
    for tl by (simp add: query_window_context_windows_def extract_browser_url_def Let_def)
  have "''1password'' \<in> set (cfg_apps default_config)" by (simp add: default_config_def)
  then have "\<not> blocked (check_compiled um (default_compiled um) (background_context (''1password'' @ ''.exe'')))"
    using b unfolding list_all_iff by blast
  then show ?thesis
    using b notepad_passes unfolding check_windows_def q m
    by (simp add: check_gate_def gate_check_def new_gate_def notepad_md Let_def)
qed

text \<open>
  On Windows the query reports a process name even when there is no foreground window, and the
  gate lets that frame pass; the UAC prompt, whose process is \<open>consent.exe\<close>, passes too,
  because its \<open>.exe\<close> is stripped before it is compared with the pattern \<open>consent.exe\<close>.
\<close>

theorem windows_query_fails_open:
  "\<not> gr_blocked (check_windows um (new_gate (default_blocklist um)) (notes_desktop\<lparr>foreground := 0, top_level := []\<rparr>))
   \<and> \<not> gr_blocked (check_windows um (new_gate (default_blocklist um))
        (notes_desktop\<lparr>fg_title := ''User Account Control'',
                 fg_exe := Some (''C:'' @ esc @ ''Windows'' @ esc @ ''consent.exe''), top_level := []\<rparr>))"
proof -
  have u: "\<not> blocked (check_compiled um (default_compiled um) (context_of
     \<lparr>md_process_name = ''unknown'', md_window_title = [], md_browser_url = [],
             md_focused_input_role = [], md_pid = 0\<rparr>))"
    by (rule default_passes_plain [where n = "''unknown''"]) (simp_all add: context_of_def, code_simp+)
  have c: "\<not> blocked (check_compiled um (default_compiled um) (context_of
     \<lparr>md_process_name = ''consent'', md_window_title = ''User Account Control'', md_browser_url = [],
             md_focused_input_role = [], md_pid = 40\<rparr>))"
    by (rule default_passes_plain [where n = "''consent''"]) (simp_all add: context_of_def, code_simp+)
  have "strip_exe (base_name (''C:'' @ esc @ ''Windows'' @ esc @ ''consent.exe'')) = ''consent''"
    "\<not> list_ex (contains ''consent'') known_browsers" "is_ascii ''consent''"
    "map ascii_lower ''consent'' = ''consent''" by code_simp+
  then show ?thesis using u c
    by (simp add: check_windows_def check_gate_def gate_check_def new_gate_def Let_def notes_desktop_def
        query_window_context_windows_def query_visible_background_processes_windows_def
        extract_browser_url_def to_lower_ascii)
qed

end
