(* ===== verification/Classifier.thy ===== *)
theory Classifier
  imports Go_Strings
begin

text \<open>
  \<open>internal/filter/classifier.go\<close>: the content category of a window, from its process name,
  title and URL, by substring search over fixed tables. The seven tests run in a fixed order and
  the first that succeeds decides.
\<close>

datatype content_class =
    ClassUnknown | ClassWorkDocument | ClassWorkCode | ClassWorkResearch
  | ClassCommunication | ClassSystemUI | ClassEntertainment | ClassSocial

record classifier_input =
  ci_process_name :: string
  ci_window_title :: string
  ci_browser_url :: string

section \<open>The seven tests\<close>

definition entertainment_domains :: "string list" where
  "entertainment_domains =
     [''youtube.com'', ''youtu.be'', ''netflix.com'', ''twitch.tv'', ''hulu.com'',
      ''disneyplus.com'', ''primevideo.com'', ''spotify.com'', ''soundcloud.com'',
      ''tiktok.com'', ''reddit.com/r/funny'', ''reddit.com/r/memes'', ''reddit.com/r/gaming'',
      ''imgur.com'', ''9gag.com'', ''buzzfeed.com'']"

definition entertainment_procs :: "string list" where
  "entertainment_procs =
     [''vlc'', ''mpv'', ''totem'', ''rhythmbox'', ''spotify'', ''steam'', ''lutris'', ''heroic'']"

definition entertainment_titles :: "string list" where
  "entertainment_titles =
     [''- youtube'', ''netflix'', ''twitch'']"

definition is_entertainment :: "string \<Rightarrow> string \<Rightarrow> string \<Rightarrow> bool" where
  "is_entertainment url title proc =
     (list_ex (contains url) entertainment_domains \<or> list_ex (contains proc) entertainment_procs
      \<or> list_ex (contains title) entertainment_titles)"

definition social_domains :: "string list" where
  "social_domains =
     [''twitter.com'', ''x.com'', ''instagram.com'', ''facebook.com'', ''linkedin.com/feed'',
      ''reddit.com'', ''mastodon.social'', ''bsky.app'']"

definition is_social :: "string \<Rightarrow> string \<Rightarrow> string \<Rightarrow> bool" where
  "is_social url title proc = list_ex (contains url) social_domains"

definition code_procs :: "string list" where
  "code_procs =
     [''code'', ''code-insiders'', ''vim'', ''nvim'', ''neovim'', ''emacs'', ''idea'',
      ''goland'', ''pycharm'', ''webstorm'', ''clion'', ''rider'', ''xcode'', ''eclipse'',
      ''sublime_text'', ''zed'', ''helix'', ''cursor'', ''gnome-terminal'', ''konsole'',
      ''xterm'', ''alacritty'', ''kitty'', ''wezterm'', ''iterm2'']"

definition code_exact_procs :: "string list" where
  "code_exact_procs =
     [''bash'', ''zsh'', ''fish'', ''sh'', ''ksh'', ''tcsh'', ''cmd'', ''powershell'',
      ''pwsh'', ''windows terminal'']"

definition code_domains :: "string list" where
  "code_domains =
     [''github.com'', ''gitlab.com'', ''bitbucket.org'', ''codereview.chromium.org'',
      ''gerrit'', ''jsfiddle.net'', ''codepen.io'', ''replit.com'', ''codesandbox.io'']"

definition code_titles :: "string list" where
  "code_titles =
     [''.go'', ''.py'', ''.rs'', ''.ts'', ''.js'', ''.java'', ''.c'', ''.cpp'', ''.rb'',
      ''.sh'', ''terminal'', ''console'']"

definition is_work_code :: "string \<Rightarrow> string \<Rightarrow> string \<Rightarrow> bool" where
  "is_work_code url title proc =
     (list_ex (contains proc) code_procs
      \<or> list_ex (\<lambda>p. proc = p \<or> proc = p @ ''.exe'') code_exact_procs
      \<or> list_ex (contains url) code_domains \<or> list_ex (contains title) code_titles)"

definition document_procs :: "string list" where
  "document_procs =
     [''soffice'', ''libreoffice'', ''evince'', ''okular'', ''zathura'', ''pages'',
      ''numbers'', ''keynote'', ''word'', ''excel'', ''powerpoint'', ''onenote'', ''obsidian'',
      ''logseq'', ''notion'', ''typora'', ''zettlr'']"

definition document_domains :: "string list" where
  "document_domains =
     [''docs.google.com'', ''sheets.google.com'', ''slides.google.com'', ''drive.google.com'',
      ''notion.so'', ''notion.site'', ''confluence'', ''sharepoint.com'', ''onedrive.live.com'']"

definition document_titles :: "string list" where
  "document_titles =
     [''.pdf'', ''.docx'', ''.xlsx'', ''.md'', ''.txt'',
      [CHR 0xE2, CHR 0x80, CHR 0x94] @ '' notion'', ''confluence'']"

definition is_work_document :: "string \<Rightarrow> string \<Rightarrow> string \<Rightarrow> bool" where
  "is_work_document url title proc =
     (list_ex (contains proc) document_procs \<or> list_ex (contains url) document_domains
      \<or> list_ex (contains title) document_titles)"

definition research_domains :: "string list" where
  "research_domains =
     [''arxiv.org'', ''scholar.google.com'', ''semanticscholar.org'',
      ''pubmed.ncbi.nlm.nih.gov'', ''stackoverflow.com'', ''stackexchange.com'',
      ''news.ycombinator.com'', ''lobste.rs'', ''lwn.net'', ''acm.org'', ''ieee.org'',
      ''medium.com'', ''substack.com'', ''dev.to'', ''docs.'', ''wiki.'', ''wikipedia.org'',
      ''man7.org'']"

definition is_work_research :: "string \<Rightarrow> string \<Rightarrow> string \<Rightarrow> bool" where
  "is_work_research url title proc = list_ex (contains url) research_domains"

definition communication_procs :: "string list" where
  "communication_procs =
     [''slack'', ''discord'', ''teams'', ''msteams'', ''zoom'', ''telegram-desktop'',
      ''signal-desktop'', ''thunderbird'', ''evolution'', ''mutt'', ''neomutt'']"

definition communication_domains :: "string list" where
  "communication_domains =
     [''mail.google.com'', ''outlook.office.com'', ''slack.com'', ''discord.com'',
      ''teams.microsoft.com'', ''jira.'', ''linear.app'', ''asana.com'', ''trello.com'']"

definition is_communication :: "string \<Rightarrow> string \<Rightarrow> string \<Rightarrow> bool" where
  "is_communication url title proc =
     (list_ex (contains proc) communication_procs \<or> list_ex (contains url) communication_domains)"

definition system_procs :: "string list" where
  "system_procs =
     [''nautilus'', ''thunar'', ''dolphin'', ''nemo'', ''pcmanfm'', ''gnome-control-center'',
      ''systemsettings5'', ''gnome-software'', ''discover'', ''synaptic'', ''gnome-disks'',
      ''gparted'', ''gnome-system-monitor'', ''ksysguard'', ''finder'', ''explorer'',
      ''shellexperiencehost'', ''startmenuexperiencehost'', ''searchhost'', ''searchapp'',
      ''searchui'', ''lockapp'', ''logonui'', ''applicationframehost'', ''runtimebroker'',
      ''systemsettings'', ''settingssynchost'', ''dwm'', ''taskmgr'', ''regedit'', ''msiexec'',
      ''winlogon'', ''userinit'']"

definition system_titles :: "string list" where
  "system_titles =
     [''notification center'', ''action center'', ''windows security'', ''windows update'',
      ''task manager'']"

definition is_system_ui :: "string \<Rightarrow> string \<Rightarrow> string \<Rightarrow> bool" where
  "is_system_ui url title proc =
     (list_ex (contains proc) system_procs \<or> list_ex (contains title) system_titles)"

section \<open>Classify\<close>

definition classify :: "(string \<Rightarrow> string) \<Rightarrow> classifier_input \<Rightarrow> content_class" where
  "classify um input =
     (let url = to_lower um (ci_browser_url input);
          title = to_lower um (ci_window_title input);
          proc = to_lower um (ci_process_name input)
      in if is_entertainment url title proc then ClassEntertainment
         else if is_social url title proc then ClassSocial
         else if is_work_code url title proc then ClassWorkCode
         else if is_work_document url title proc then ClassWorkDocument
         else if is_work_research url title proc then ClassWorkResearch
         else if is_communication url title proc then ClassCommunication
         else if is_system_ui url title proc then ClassSystemUI
         else ClassUnknown)"

lemmas class_tests = is_entertainment_def is_social_def is_work_code_def is_work_document_def
  is_work_research_def is_communication_def is_system_ui_def

lemma classify_entertainment_iff:
  "classify um i = ClassEntertainment \<longleftrightarrow>
     is_entertainment (to_lower um (ci_browser_url i)) (to_lower um (ci_window_title i))
       (to_lower um (ci_process_name i))"
  by (simp add: classify_def Let_def)

lemma classify_system_iff:
  "classify um i = ClassSystemUI \<longleftrightarrow>
     (let u = to_lower um (ci_browser_url i); t = to_lower um (ci_window_title i);
          p = to_lower um (ci_process_name i)
      in is_system_ui u t p \<and> \<not> is_entertainment u t p \<and> \<not> is_social u t p \<and> \<not> is_work_code u t p
         \<and> \<not> is_work_document u t p \<and> \<not> is_work_research u t p \<and> \<not> is_communication u t p)"
  by (simp add: classify_def Let_def)

lemma classify_ascii:
  "is_ascii u \<Longrightarrow> is_ascii t \<Longrightarrow> is_ascii p \<Longrightarrow>
   classify um \<lparr>ci_process_name = p, ci_window_title = t, ci_browser_url = u\<rparr> =
   classify id \<lparr>ci_process_name = p, ci_window_title = t, ci_browser_url = u\<rparr>"
  by (simp add: classify_def to_lower_ascii)

section \<open>Properties\<close>

text \<open>
  The tables are searched as substrings, which misfiles common windows: the social domain
  \<open>x.com\<close> matches \<open>dropbox.com\<close>, the C file suffix in a title matches every \<open>.com\<close>, and since the
  system test runs last, a Windows shell overlay whose title mentions a file is not filed as
  system UI and so not dropped.
\<close>

theorem substring_tables_misfile:
  "classify um \<lparr>ci_process_name = ''chrome'', ci_window_title = ''Files - Dropbox'',
                ci_browser_url = ''https://www.dropbox.com/home''\<rparr> = ClassSocial
   \<and> classify um \<lparr>ci_process_name = ''chrome'', ci_window_title = ''Booking.com: hotels'',
                  ci_browser_url = ''https://booking.test''\<rparr> = ClassWorkCode
   \<and> classify um \<lparr>ci_process_name = ''ShellExperienceHost'', ci_window_title = ''Notification Center: notes.txt'',
                  ci_browser_url = []\<rparr> = ClassWorkDocument
   \<and> classify um \<lparr>ci_process_name = ''ShellExperienceHost'', ci_window_title = ''Notification Center'',
                  ci_browser_url = []\<rparr> = ClassSystemUI"
proof -
  have a: "is_ascii ''chrome''" "is_ascii ''Files - Dropbox''" "is_ascii ''https://www.dropbox.com/home''"
    "is_ascii ''Booking.com: hotels''" "is_ascii ''https://booking.test''" "is_ascii ''ShellExperienceHost''"
    "is_ascii ''Notification Center: notes.txt''" "is_ascii ''Notification Center''" "is_ascii []"
    by code_simp+
  show ?thesis
    by (intro conjI; rule trans [OF classify_ascii]; (rule a)?) code_simp+
qed

end
