(* ===== verification/Float64.thy ===== *)
theory Float64
  imports Complex_Main Prelude
begin

text \<open>
  IEEE 754 binary64 arithmetic as Go's \<open>float64\<close> uses it: the result of an operation is the
  exact result rounded to nearest, ties to even, with gradual underflow. \<open>fl64\<close> is that
  rounding on the reals. The magnitudes of the program (weights, ratios, seconds, percentages) stay
  far below \<open>2 ^ 1024\<close>, so overflow to an infinity is left out of \<open>fl64\<close>; the values a user can
  write into the configuration, infinities and NaN included, are the type \<open>f64\<close>, whose
  comparisons are those of IEEE 754.
\<close>

section \<open>Rounding\<close>

definition rne :: "real \<Rightarrow> int" where
  "rne x = (let n = \<lfloor>x\<rfloor>; d = x - of_int n
            in if d < 1/2 \<or> d = 1/2 \<and> even n then n else n + 1)"

definition ulp_exp :: "real \<Rightarrow> int" where
  "ulp_exp x = max (\<lfloor>log 2 \<bar>x\<bar>\<rfloor> - 52) (- 1074)"

definition fl64 :: "real \<Rightarrow> real" where
  "fl64 x = (if x = 0 then 0
             else of_int (rne (x / 2 powr of_int (ulp_exp x))) * 2 powr of_int (ulp_exp x))"

lemma rne_of_int [simp]: "rne (of_int k) = k"
  by (simp add: rne_def)

lemma rne_floor_or: "rne x = \<lfloor>x\<rfloor> \<or> rne x = \<lfloor>x\<rfloor> + 1"
  by (simp add: rne_def Let_def)

lemma rne_mono: "x \<le> y \<Longrightarrow> rne x \<le> rne y"
proof (cases "\<lfloor>x\<rfloor> = \<lfloor>y\<rfloor>")
  case True
  then show "x \<le> y \<Longrightarrow> rne x \<le> rne y" by (auto simp: rne_def Let_def)
next
  case False
  then show "x \<le> y \<Longrightarrow> rne x \<le> rne y"
    using rne_floor_or [of x] rne_floor_or [of y] floor_mono [of x y] by linarith
qed

lemma rne_minus: "rne (- x) = - rne x"
proof (cases "x = of_int \<lfloor>x\<rfloor>")
  case True
  then have "rne x = \<lfloor>x\<rfloor>" "rne (- x) = - \<lfloor>x\<rfloor>"
    using rne_of_int [of "\<lfloor>x\<rfloor>"] rne_of_int [of "- \<lfloor>x\<rfloor>"] by auto
  then show ?thesis by simp
next
  case False
  have l: "of_int \<lfloor>x\<rfloor> < x" using False of_int_floor_le [of x] by linarith
  have "\<lfloor>- x\<rfloor> = - \<lfloor>x\<rfloor> - 1"
    by (rule floor_unique) (use l floor_less_iff [of x "\<lfloor>x\<rfloor> + 1"] in auto, linarith)
  then show ?thesis by (auto simp: rne_def Let_def)
qed

lemma fl64_0 [simp]: "fl64 0 = 0"
  by (simp add: fl64_def)

lemma fl64_minus: "fl64 (- x) = - fl64 x"
  by (simp add: fl64_def ulp_exp_def rne_minus)

lemma powr_ulp_bounds:
  assumes "x > 0"
  shows "x < 2 powr of_int (ulp_exp x + 53)"
    and "ulp_exp x > - 1074 \<Longrightarrow> 2 powr of_int (ulp_exp x + 52) \<le> x"
proof -
  have f: "of_int \<lfloor>log 2 x\<rfloor> \<le> log 2 x" "log 2 x < of_int \<lfloor>log 2 x\<rfloor> + 1" by linarith+
  have "log 2 x < of_int (ulp_exp x + 53)"
    using f(2) assms unfolding ulp_exp_def by simp linarith
  then show "x < 2 powr of_int (ulp_exp x + 53)" using assms by (simp add: log_less_iff)
  assume "ulp_exp x > - 1074"
  then have "ulp_exp x + 52 = \<lfloor>log 2 x\<rfloor>" using assms unfolding ulp_exp_def by auto
  moreover have "2 powr of_int \<lfloor>log 2 x\<rfloor> \<le> x"
    using f(1) assms by (subst le_log_iff [symmetric]) auto
  ultimately show "2 powr of_int (ulp_exp x + 52) \<le> x" by simp
qed

lemma rne_power: "rne (2 powr of_nat n) = 2 ^ n"
  using rne_of_int [of "2 ^ n"] by (simp add: powr_realpow)

lemma fl64_mono_pos:
  assumes "0 < x" "x \<le> y"
  shows "fl64 x \<le> fl64 y"
proof -
  let ?e = "ulp_exp x" and ?f = "ulp_exp y"
  have y: "0 < y" using assms by simp
  have "\<lfloor>log 2 x\<rfloor> \<le> \<lfloor>log 2 y\<rfloor>" using assms by (intro floor_mono) simp
  then have le: "?e \<le> ?f" using assms y unfolding ulp_exp_def by simp
  show ?thesis
  proof (cases "?e = ?f")
    case True
    have "rne (x / 2 powr of_int ?f) \<le> rne (y / 2 powr of_int ?f)"
      using assms by (intro rne_mono divide_right_mono) auto
    then show ?thesis using assms y True by (simp add: fl64_def mult_right_mono)
  next
    case False
    moreover have "- 1074 \<le> ?e" by (simp add: ulp_exp_def)
    ultimately have lt: "?e + 1 \<le> ?f" and big: "?f > - 1074" using le by linarith+
    have "x / 2 powr of_int ?e \<le> 2 powr of_nat 53"
      using powr_ulp_bounds(1) [OF assms(1)] by (simp add: field_simps powr_add)
    from rne_mono [OF this] have "rne (x / 2 powr of_int ?e) \<le> 2 ^ 53" by (simp only: rne_power)
    then have "real_of_int (rne (x / 2 powr of_int ?e)) \<le> 2 ^ 53" by simp
    then have a: "fl64 x \<le> 2 ^ 53 * 2 powr of_int ?e" using assms by (simp add: fl64_def mult_right_mono)
    have "2 powr of_nat 52 \<le> y / 2 powr of_int ?f"
      using powr_ulp_bounds(2) [OF y big] by (simp add: field_simps powr_add)
    from rne_mono [OF this] have "2 ^ 52 \<le> rne (y / 2 powr of_int ?f)" by (simp only: rne_power)
    then have "(2::real) ^ 52 \<le> of_int (rne (y / 2 powr of_int ?f))" by simp
    then have b: "2 ^ 52 * 2 powr of_int ?f \<le> fl64 y" using y by (simp add: fl64_def mult_right_mono)
    have "(2::real) * 2 powr of_int ?e = 2 powr of_int (?e + 1)" by (simp add: powr_add)
    also have "\<dots> \<le> 2 powr of_int ?f" using lt by (intro powr_mono) auto
    finally have "(2::real) ^ 53 * 2 powr of_int ?e \<le> 2 ^ 52 * 2 powr of_int ?f" by simp
    with a b show ?thesis by linarith
  qed
qed

lemma fl64_nonneg: "0 \<le> x \<Longrightarrow> 0 \<le> fl64 x"
proof -
  assume "0 \<le> x"
  then have "0 \<le> x / 2 powr of_int (ulp_exp x)" by simp
  from rne_mono [OF this] have "0 \<le> rne (x / 2 powr of_int (ulp_exp x))"
    using rne_of_int [of 0] by simp
  then show ?thesis by (simp add: fl64_def)
qed

lemma fl64_mono: "x \<le> y \<Longrightarrow> fl64 x \<le> fl64 y"
proof -
  assume le: "x \<le> y"
  consider "0 < x" | "x \<le> 0" "0 \<le> y" | "y < 0" by linarith
  then show ?thesis
  proof cases
    case 1
    then show ?thesis using le by (rule fl64_mono_pos)
  next
    case 2
    then show ?thesis using fl64_nonneg [of y] fl64_nonneg [of "- x"] by (simp add: fl64_minus)
  next
    case 3
    then show ?thesis using fl64_mono_pos [of "- y" "- x"] le by (simp add: fl64_minus)
  qed
qed

text \<open>Every number of at most 53 significant bits in range is a fixed point.\<close>

lemma fl64_representable:
  assumes "\<bar>k\<bar> \<le> 2 ^ 53" "- 1074 \<le> j"
  shows "fl64 (of_int k * 2 powr of_int j) = of_int k * 2 powr of_int j"
proof (cases "k = 0")
  case True
  then show ?thesis by simp
next
  case False
  let ?x = "of_int k * 2 powr of_int j :: real"
  have "log 2 \<bar>?x\<bar> = log 2 (of_int \<bar>k\<bar>) + of_int j"
    using False by (simp add: abs_mult log_mult)
  moreover have "real_of_int \<bar>k\<bar> \<le> of_int (2 ^ 53)" using assms(1) by (simp only: of_int_le_iff)
  then have "real_of_int \<bar>k\<bar> \<le> 2 ^ 53" by simp
  then have "log 2 (of_int \<bar>k\<bar>) \<le> 53"
    using False by (subst log_le_iff) (auto simp: powr_numeral)
  ultimately have "log 2 \<bar>?x\<bar> \<le> of_int (53 + j)" by simp
  then have u: "ulp_exp ?x \<le> j + 1" using assms(2) unfolding ulp_exp_def by simp linarith
  have "\<exists>m. ?x / 2 powr of_int (ulp_exp ?x) = of_int m"
  proof (cases "ulp_exp ?x \<le> j")
    case True
    then have "?x / 2 powr of_int (ulp_exp ?x) = of_int k * 2 powr of_nat (nat (j - ulp_exp ?x))"
      by (simp add: powr_diff)
    also have "\<dots> = of_int (k * 2 ^ nat (j - ulp_exp ?x))" by (simp only: powr_realpow) simp
    finally show ?thesis by blast
  next
    case False
    with u have e: "ulp_exp ?x = j + 1" by simp
    then have "ulp_exp ?x > - 1074" using assms(2) by simp
    then have "\<lfloor>log 2 \<bar>?x\<bar>\<rfloor> = j + 53" using e unfolding ulp_exp_def by auto
    then have "real_of_int (j + 53) \<le> log 2 \<bar>?x\<bar>" by linarith
    then have "53 \<le> log 2 (real_of_int \<bar>k\<bar>)"
      using \<open>log 2 \<bar>?x\<bar> = _\<close> by simp
    then have "2 ^ 53 \<le> real_of_int \<bar>k\<bar>" using \<open>k \<noteq> 0\<close> by (subst (asm) le_log_iff) (auto simp: powr_numeral)
    then have "2 ^ 53 \<le> \<bar>k\<bar>" by simp
    then have "\<bar>k\<bar> = 2 * 2 ^ 52" using assms(1) by simp
    then have "k = 2 * 2 ^ 52 \<or> k = 2 * (- (2 ^ 52))" by linarith
    then obtain m where m: "k = 2 * m" by blast
    have "?x / 2 powr of_int (ulp_exp ?x) = of_int m" unfolding e by (simp add: m powr_add)
    then show ?thesis by blast
  qed
  then obtain m where "?x / 2 powr of_int (ulp_exp ?x) = of_int m" by blast
  then show ?thesis unfolding fl64_def using False
    by (simp only: rne_of_int) (simp add: field_simps)
qed

lemma fl64_of_int: "\<bar>k\<bar> \<le> 2 ^ 53 \<Longrightarrow> fl64 (of_int k) = of_int k"
  using fl64_representable [of k 0] by simp

lemma fl64_1 [simp]: "fl64 1 = 1"
  using fl64_of_int [of 1] by simp

lemma fl64_numeral: "(numeral n :: int) \<le> 2 ^ 53 \<Longrightarrow> fl64 (numeral n) = numeral n"
  using fl64_of_int [of "numeral n"] by simp

lemma fl64_half: "\<bar>k\<bar> \<le> 2 ^ 53 \<Longrightarrow> fl64 (of_int k / 2) = of_int k / 2"
  using fl64_representable [of k "- 1"] by (simp add: powr_minus divide_simps)

text \<open>The relative error of a result in the normal range, and of a product or quotient of two steps.\<close>

lemma rne_error: "\<bar>of_int (rne x) - x\<bar> \<le> 1/2"
  unfolding rne_def Let_def by (auto; linarith)

lemma fl64_error:
  assumes "2 powr (- 1000) \<le> x"
  shows "\<bar>fl64 x - x\<bar> \<le> x / 2 ^ 53"
proof -
  let ?u = "2 powr of_int (ulp_exp x) :: real"
  have "(0::real) < 2 powr (- 1000)" by simp
  with assms have pos: "0 < x" by linarith
  have "- 1000 \<le> log 2 x" using assms pos by (simp add: le_log_iff)
  then have "ulp_exp x > - 1074" using pos unfolding ulp_exp_def by simp linarith
  then have low: "2 powr of_int (ulp_exp x + 52) \<le> x" by (rule powr_ulp_bounds(2) [OF pos])
  have "fl64 x - x = (of_int (rne (x / ?u)) - x / ?u) * ?u" using pos by (simp add: fl64_def field_simps)
  then have "\<bar>fl64 x - x\<bar> \<le> 1/2 * ?u"
    using mult_right_mono [OF rne_error, of ?u "x / ?u"] by (simp add: abs_mult)
  also have "?u = 2 powr of_int (ulp_exp x + 52) / 2 ^ 52" by (simp add: powr_add)
  finally show ?thesis using low by simp
qed

lemma fl64_le_rel: "2 powr (- 1000) \<le> x \<Longrightarrow> fl64 x \<le> x * (1 + 1 / 2 ^ 53)"
proof -
  assume "2 powr (- 1000) \<le> x"
  from fl64_error [OF this] have "fl64 x \<le> x + x / 2 ^ 53" by linarith
  then show ?thesis by (simp add: distrib_left)
qed

section \<open>Values a YAML document can hold\<close>

datatype f64 = Fin real | PInf | NInf | NaN

fun f64_less :: "f64 \<Rightarrow> f64 \<Rightarrow> bool" where
  "f64_less (Fin x) (Fin y) = (x < y)"
| "f64_less (Fin x) PInf = True"
| "f64_less NInf (Fin y) = True"
| "f64_less NInf PInf = True"
| "f64_less _ _ = False"

fun f64_le :: "f64 \<Rightarrow> f64 \<Rightarrow> bool" where
  "f64_le (Fin x) (Fin y) = (x \<le> y)"
| "f64_le (Fin x) PInf = True"
| "f64_le NInf (Fin y) = True"
| "f64_le NInf NInf = True"
| "f64_le NInf PInf = True"
| "f64_le PInf PInf = True"
| "f64_le _ _ = False"

lemma f64_le_NaN [simp]: "\<not> f64_le NaN y" "\<not> f64_le x NaN"
  by (cases x; cases y; simp)+

lemma f64_not_less: "x \<noteq> NaN \<Longrightarrow> y \<noteq> NaN \<Longrightarrow> \<not> f64_less x y \<longleftrightarrow> f64_le y x"
  by (cases x; cases y; auto)

lemma f64_not_le: "x \<noteq> NaN \<Longrightarrow> y \<noteq> NaN \<Longrightarrow> \<not> f64_le x y \<longleftrightarrow> f64_less y x"
  by (cases x; cases y; auto)

lemma f64_less_NaN [simp]: "\<not> f64_less NaN y" "\<not> f64_less x NaN"
  by (cases x; cases y; simp)+

end
