(* ===== verification/Engagement.thy ===== *)
theory Engagement
  imports Classifier Float64
begin

text \<open>
  \<open>internal/filter/engagement.go\<close>: the engagement score, a product of four weights computed in
  \<open>float64\<close>. Every arithmetic operation of the code is one rounding \<open>fl64\<close> here, in the order
  the code applies them. The two logarithms of the \<open>math\<close> package differ between architectures and
  their last bit is not specified: they are the argument \<open>go_math\<close>, and the properties that need
  anything of them name it as the hypothesis \<open>math_contract\<close>, which the rounded logarithms meet.
\<close>

record engagement_signals =
  dwell_seconds :: real
  typed_within_seconds :: real
  scrolled_within_seconds :: real
  clicked_within_seconds :: real
  es_content_class :: content_class
  es_view_count :: int
  es_captured_at :: int

section \<open>The weights\<close>

record go_math =
  math_log1p :: "real \<Rightarrow> real"
  math_log :: "real \<Rightarrow> real"

definition class_weights :: "content_class \<Rightarrow> real option" where
  "class_weights = Map.empty
     (ClassUnknown \<mapsto> fl64 (5/10), ClassWorkDocument \<mapsto> fl64 1, ClassWorkCode \<mapsto> fl64 1,
      ClassWorkResearch \<mapsto> fl64 (9/10), ClassCommunication \<mapsto> fl64 (7/10), ClassSystemUI \<mapsto> fl64 (2/10),
      ClassEntertainment \<mapsto> fl64 (1/10), ClassSocial \<mapsto> fl64 (15/100))"

definition dwell_weight :: "go_math \<Rightarrow> real \<Rightarrow> real" where
  "dwell_weight m seconds =
     (if seconds < 1 then fl64 (1/10)
      else let w = fl64 (math_log1p m seconds / math_log1p m 30)
           in if w > 1 then 1 else if w < fl64 (1/10) then fl64 (1/10) else w)"

definition recent :: "real \<Rightarrow> bool" where
  "recent t \<longleftrightarrow> t > 0 \<and> t \<le> 10"

definition interaction_weight :: "engagement_signals \<Rightarrow> real" where
  "interaction_weight s =
     (if recent (typed_within_seconds s) then 3
      else if recent (scrolled_within_seconds s) then 2
      else if recent (clicked_within_seconds s) then fl64 (3/2)
      else 1)"

definition content_class_weight :: "content_class \<Rightarrow> real" where
  "content_class_weight c =
     (case class_weights c of Some w \<Rightarrow> w | None \<Rightarrow> the (class_weights ClassUnknown))"

definition view_count_boost :: "go_math \<Rightarrow> int \<Rightarrow> real" where
  "view_count_boost m n =
     (if n \<le> 1 then 1
      else let boost = fl64 (1 + math_log m (fl64 (of_int n)))
           in if boost > 2 then 2 else boost)"

definition engagement_score :: "go_math \<Rightarrow> engagement_signals \<Rightarrow> real" where
  "engagement_score m s =
     fl64 (fl64 (fl64 (dwell_weight m (dwell_seconds s) * interaction_weight s)
                 * content_class_weight (es_content_class s))
           * view_count_boost m (es_view_count s))"

section \<open>The logarithms\<close>

text \<open>
  What the monotonicity of the score needs of the logarithms: they do not decrease, and they are
  not negative where the true logarithms are positive.
\<close>

definition math_contract :: "go_math \<Rightarrow> bool" where
  "math_contract m \<longleftrightarrow>
     (\<forall>x y. 0 \<le> x \<longrightarrow> x \<le> y \<longrightarrow> math_log1p m x \<le> math_log1p m y) \<and> 0 < math_log1p m 30
     \<and> (\<forall>x y. 1 \<le> x \<longrightarrow> x \<le> y \<longrightarrow> math_log m x \<le> math_log m y) \<and> 0 \<le> math_log m 1"

text \<open>The correctly rounded logarithms.\<close>

definition rounded_math :: go_math where
  "rounded_math = \<lparr>math_log1p = (\<lambda>x. fl64 (ln (1 + x))), math_log = (\<lambda>x. fl64 (ln x))\<rparr>"

lemma rounded_log1p_30: "0 < math_log1p rounded_math 30"
proof -
  have "1 \<le> ln (31::real)" using exp_le by (subst ln_ge_iff) auto
  then have "1 \<le> fl64 (ln 31)" using fl64_mono [of 1 "ln 31"] by simp
  then show ?thesis by (simp add: rounded_math_def)
qed

lemma rounded_math_contract: "math_contract rounded_math"
  using rounded_log1p_30 by (simp add: math_contract_def rounded_math_def fl64_mono)

section \<open>Lemmas\<close>

lemma fl64_dyadic: "\<bar>k\<bar> \<le> 2 ^ 53 \<Longrightarrow> n \<le> 1074 \<Longrightarrow> fl64 (of_int k / 2 ^ n) = of_int k / 2 ^ n"
  using fl64_representable [of k "- int n"] by (simp add: powr_minus powr_realpow divide_simps)

lemma fl64_le_dyadic:
  "x \<le> of_int k / 2 ^ n \<Longrightarrow> \<bar>k\<bar> \<le> 2 ^ 53 \<Longrightarrow> n \<le> 1074 \<Longrightarrow> fl64 x \<le> of_int k / 2 ^ n"
  using fl64_mono [of x "of_int k / 2 ^ n"] by (simp add: fl64_dyadic)

lemma fl64_ge_dyadic:
  "of_int k / 2 ^ n \<le> x \<Longrightarrow> \<bar>k\<bar> \<le> 2 ^ 53 \<Longrightarrow> n \<le> 1074 \<Longrightarrow> of_int k / 2 ^ n \<le> fl64 x"
  using fl64_mono [of "of_int k / 2 ^ n" x] by (simp add: fl64_dyadic)

lemma tenth_bounds: "0 < fl64 (1/10)" "fl64 (1/10) \<le> 1/8"
  using fl64_ge_dyadic [of 1 4 "1/10"] fl64_le_dyadic [of "1/10" 1 3] by simp_all

lemma dwell_weight_bounds: "fl64 (1/10) \<le> dwell_weight m s" "dwell_weight m s \<le> 1"
  using tenth_bounds by (auto simp: dwell_weight_def Let_def)

lemma dwell_weight_mono:
  assumes "math_contract m" "s \<le> t" shows "dwell_weight m s \<le> dwell_weight m t"
proof (cases "s < 1")
  case True
  then show ?thesis using dwell_weight_bounds(1) [of m t] by (simp add: dwell_weight_def)
next
  case False
  with assms have "fl64 (math_log1p m s / math_log1p m 30) \<le> fl64 (math_log1p m t / math_log1p m 30)"
    by (intro fl64_mono divide_right_mono) (auto simp: math_contract_def)
  with False assms(2) tenth_bounds show ?thesis by (auto simp: dwell_weight_def Let_def)
qed

lemma interaction_weight_cases: "interaction_weight s \<in> {1, 3/2, 2, 3}"
  using fl64_half [of 3] by (simp add: interaction_weight_def)

lemma content_class_weight_bounds: "0 < content_class_weight c" "content_class_weight c \<le> 1"
proof -
  have "1/16 \<le> fl64 x \<and> fl64 x \<le> 1" if "1/16 \<le> x" "x \<le> 1" for x
    using fl64_ge_dyadic [of 1 4 x] fl64_mono [of x 1] that by simp
  from this [of "1/10"] this [of "2/10"] this [of "15/100"] this [of "5/10"] this [of "7/10"] this [of "9/10"]
  show "0 < content_class_weight c" "content_class_weight c \<le> 1"
    by (cases c; simp add: content_class_weight_def class_weights_def)+
qed

lemma view_count_boost_le: "view_count_boost m n \<le> 2"
  by (simp add: view_count_boost_def Let_def)

lemma view_count_boost_ge:
  assumes "math_contract m" shows "1 \<le> view_count_boost m n"
proof (cases "n \<le> 1")
  case False
  then have "1 \<le> fl64 (of_int n)" using fl64_mono [of 1 "of_int n"] by simp
  then have "math_log m 1 \<le> math_log m (fl64 (of_int n))" using assms by (simp add: math_contract_def)
  then have "0 \<le> math_log m (fl64 (of_int n))" using assms unfolding math_contract_def by linarith
  then show ?thesis using fl64_mono [of 1 "1 + math_log m (fl64 (of_int n))"] False
    by (simp add: view_count_boost_def Let_def)
qed (simp add: view_count_boost_def)

lemma view_count_boost_mono:
  assumes "math_contract m" "i \<le> n" shows "view_count_boost m i \<le> view_count_boost m n"
proof (cases "i \<le> 1")
  case True
  then show ?thesis using view_count_boost_ge [OF assms(1), of n] by (simp add: view_count_boost_def)
next
  case False
  have "1 \<le> fl64 (of_int i)" using fl64_mono [of 1 "of_int i"] False by simp
  moreover have "fl64 (of_int i) \<le> fl64 (of_int n)" using assms(2) by (intro fl64_mono) simp
  ultimately have "fl64 (1 + math_log m (fl64 (of_int i))) \<le> fl64 (1 + math_log m (fl64 (of_int n)))"
    using assms(1) by (intro fl64_mono add_left_mono) (simp add: math_contract_def)
  with False assms(2) show ?thesis by (auto simp: view_count_boost_def Let_def)
qed

lemma dwell_weight_pos: "0 < dwell_weight m s"
  using dwell_weight_bounds(1) [of m s] tenth_bounds(1) by linarith

lemma score_mono:
  assumes "math_contract m"
    and "dwell_weight m (dwell_seconds s) \<le> dwell_weight m (dwell_seconds t)"
    and "interaction_weight s \<le> interaction_weight t"
    and "content_class_weight (es_content_class s) \<le> content_class_weight (es_content_class t)"
    and "view_count_boost m (es_view_count s) \<le> view_count_boost m (es_view_count t)"
  shows "engagement_score m s \<le> engagement_score m t"
proof -
  have i: "0 \<le> interaction_weight u" for u using interaction_weight_cases [of u] by auto
  note p = less_imp_le [OF dwell_weight_pos] i less_imp_le [OF content_class_weight_bounds(1)]
    order_trans [OF zero_le_one view_count_boost_ge [OF assms(1)]]
  show ?thesis unfolding engagement_score_def
    by (intro fl64_mono mult_mono assms fl64_nonneg mult_nonneg_nonneg p)
qed

section \<open>Properties\<close>

text \<open>
  The score is bounded whatever the signals are: it is never negative and never above 6, the
  product of the largest weights (dwell 1, typing 3, work content 1, repeated view 2). Rounding
  cannot push it out of that range.
\<close>

theorem engagement_score_bounds:
  assumes "math_contract m"
  shows "0 \<le> engagement_score m s \<and> engagement_score m s \<le> 6"
proof -
  have i: "0 \<le> interaction_weight s" "interaction_weight s \<le> 3"
    using interaction_weight_cases [of s] by auto
  let ?d = "dwell_weight m (dwell_seconds s)" and ?c = "content_class_weight (es_content_class s)"
    and ?v = "view_count_boost m (es_view_count s)"
  have d: "0 \<le> ?d" "?d \<le> 1" and c: "0 \<le> ?c" "?c \<le> 1" and v: "0 \<le> ?v" "?v \<le> 2"
    using dwell_weight_bounds [of m] content_class_weight_bounds view_count_boost_le [of m] view_count_boost_ge [OF assms]
      dwell_weight_pos [of m] by (auto intro: less_imp_le order_trans [OF zero_le_one])
  have "?d * interaction_weight s \<le> 1 * 3" using i d by (intro mult_mono) auto
  from fl64_mono [OF this] have "fl64 (?d * interaction_weight s) \<le> 3" by (simp add: fl64_numeral)
  then have "fl64 (?d * interaction_weight s) * ?c \<le> 3 * 1" using c by (intro mult_mono) auto
  from fl64_mono [OF this] have "fl64 (fl64 (?d * interaction_weight s) * ?c) \<le> 3" by (simp add: fl64_numeral)
  then have "fl64 (fl64 (?d * interaction_weight s) * ?c) * ?v \<le> 3 * 2" using v by (intro mult_mono) auto
  from fl64_mono [OF this] have "engagement_score m s \<le> 6" by (simp add: engagement_score_def fl64_numeral)
  moreover have "0 \<le> engagement_score m s"
    using i d c v unfolding engagement_score_def by (intro fl64_nonneg mult_nonneg_nonneg)
  ultimately show ?thesis by simp
qed

text \<open>
  One user is at least as active as another: whatever the other did lately, this one did that or
  something that shows more engagement; typing is the strongest sign, then scrolling, then a click.
\<close>

definition at_least_as_active :: "engagement_signals \<Rightarrow> engagement_signals \<Rightarrow> bool" where
  "at_least_as_active t s \<longleftrightarrow>
     (recent (typed_within_seconds s) \<longrightarrow> recent (typed_within_seconds t))
     \<and> (recent (scrolled_within_seconds s) \<longrightarrow> recent (scrolled_within_seconds t) \<or> recent (typed_within_seconds t))
     \<and> (recent (clicked_within_seconds s) \<longrightarrow>
          recent (clicked_within_seconds t) \<or> recent (scrolled_within_seconds t) \<or> recent (typed_within_seconds t))"

lemma interaction_weight_mono: "at_least_as_active t s \<Longrightarrow> interaction_weight s \<le> interaction_weight t"
  using fl64_half [of 3] by (auto simp: at_least_as_active_def interaction_weight_def)

text \<open>
  C40. More engagement never lowers the score: staying longer on a window, seeing it more often,
  clicking, scrolling or typing in it, or doing more of these than before, can only raise it, also after the rounding of each product.
\<close>

theorem engagement_score_mono:
  assumes "math_contract m"
    and "dwell_seconds s \<le> dwell_seconds t" and "es_view_count s \<le> es_view_count t"
    and "es_content_class s = es_content_class t" and "at_least_as_active t s"
  shows "engagement_score m s \<le> engagement_score m t"
  using assms by (intro score_mono dwell_weight_mono view_count_boost_mono interaction_weight_mono) auto

definition glance :: engagement_signals where
  "glance = \<lparr>dwell_seconds = 2, typed_within_seconds = 0, scrolled_within_seconds = 0,
             clicked_within_seconds = 0, es_content_class = ClassWorkCode, es_view_count = 1,
             es_captured_at = 0\<rparr>"

theorem engagement_score_bounds_witness:
  "0 \<le> engagement_score rounded_math glance \<and> engagement_score rounded_math glance \<le> 6"
  by (rule engagement_score_bounds [OF rounded_math_contract])

theorem engagement_score_mono_witness:
  "engagement_score rounded_math (glance\<lparr>clicked_within_seconds := 2\<rparr>)
     \<le> engagement_score rounded_math (glance\<lparr>dwell_seconds := 45, scrolled_within_seconds := 4, es_view_count := 3\<rparr>)"
  by (rule engagement_score_mono [OF rounded_math_contract]) (simp_all add: glance_def recent_def at_least_as_active_def)

text \<open>
  A window that is only looked at (no recent typing, scrolling or clicking) and seen once
  stays below the default threshold 0.3 when its class is entertainment, social or system UI,
  however long it is on screen.
\<close>

theorem passive_noise_below_threshold:
  assumes "\<not> recent (typed_within_seconds s)" "\<not> recent (scrolled_within_seconds s)"
    "\<not> recent (clicked_within_seconds s)" "es_view_count s = 1"
    and "es_content_class s \<in> {ClassEntertainment, ClassSocial, ClassSystemUI}"
  shows "engagement_score m s < fl64 (3/10)"
proof -
  let ?c = "content_class_weight (es_content_class s)" and ?d = "dwell_weight m (dwell_seconds s)"
  have one: "interaction_weight s = 1" "view_count_boost m (es_view_count s) = 1"
    using assms by (simp_all add: interaction_weight_def view_count_boost_def)
  have c: "?c \<le> 1/4"
    using assms(5) fl64_le_dyadic [of _ 1 2] by (auto simp: content_class_weight_def class_weights_def)
  have "fl64 ?d \<le> 1" "0 \<le> fl64 ?d"
    using fl64_mono [OF dwell_weight_bounds(2)] less_imp_le [OF dwell_weight_pos] fl64_nonneg by auto
  then have "fl64 ?d * ?c \<le> 1 * (1/4)"
    using c content_class_weight_bounds(1) [of "es_content_class s"] by (intro mult_mono) auto
  then have "fl64 (fl64 ?d * ?c) \<le> of_int 1 / 2 ^ 2" by (intro fl64_le_dyadic) auto
  then have "fl64 (fl64 (fl64 ?d * ?c)) \<le> of_int 1 / 2 ^ 2" by (rule fl64_le_dyadic) auto
  then have "engagement_score m s \<le> 1/4" by (simp add: engagement_score_def one)
  also have "\<dots> < 9/32" by simp
  also have "\<dots> \<le> fl64 (3/10)" using fl64_ge_dyadic [of 9 5 "3/10"] by simp
  finally show ?thesis .
qed

theorem passive_noise_below_threshold_witness:
  "engagement_score rounded_math (glance\<lparr>dwell_seconds := 3600, es_content_class := ClassEntertainment\<rparr>) < fl64 (3/10)"
  by (rule passive_noise_below_threshold) (simp_all add: glance_def recent_def)

end
