(* ===== verification/Frame_Queue.thy ===== *)
theory Frame_Queue
  imports Float64 Machines "HOL-Library.Sublist"
begin

text \<open>
  \<open>internal/inference/queue.go\<close>: the ring buffer between the capture and the inference
  goroutine. \<open>Push\<close> is one critical section; \<open>Pop\<close> alternates between a critical section and
  a \<open>select\<close>, so besides the operations there is a step relation of the running system, with the
  one-slot channel \<open>notEmpty\<close>, the stop channel and the program counter of the consumer.

  A panic (\<open>make\<close> with a negative size, remainder by zero, index out of range) is \<open>None\<close>.
\<close>

section \<open>The ring buffer\<close>

record 'a queue =
  buf :: "'a option list"
  q_head :: nat
  q_tail :: nat
  q_count :: nat
  q_cap :: nat
  signalled :: bool

definition new_queue :: "int \<Rightarrow> 'a queue option" where
  "new_queue capacity =
     (if capacity < 0 then None
      else Some \<lparr>buf = replicate (nat capacity) None, q_head = 0, q_tail = 0, q_count = 0,
                 q_cap = nat capacity, signalled = False\<rparr>)"

definition drop_oldest :: "'a queue \<Rightarrow> 'a queue option" where
  "drop_oldest q =
     (if q_cap q = 0 then None
      else Some (q\<lparr>q_head := (q_head q + 1) mod q_cap q, q_count := q_count q - 1\<rparr>))"

definition write_tail :: "'a \<Rightarrow> 'a queue \<Rightarrow> 'a queue option" where
  "write_tail f q =
     (if length (buf q) \<le> q_tail q \<or> q_cap q = 0 then None
      else Some (q\<lparr>buf := (buf q)[q_tail q := Some f], q_tail := (q_tail q + 1) mod q_cap q,
                   q_count := q_count q + 1\<rparr>))"

definition push :: "'a \<Rightarrow> 'a queue \<Rightarrow> 'a queue option" where
  "push f q =
     (case (if q_count q = q_cap q then drop_oldest q else Some q) of
        None \<Rightarrow> None
      | Some q1 \<Rightarrow> (case write_tail f q1 of
          None \<Rightarrow> None
        | Some q2 \<Rightarrow> Some (q2\<lparr>signalled := True\<rparr>)))"

text \<open>The critical section of \<open>Pop\<close>: \<open>None\<close> when the queue is empty and the caller has to wait.\<close>

definition try_pop :: "'a queue \<Rightarrow> ('a option \<times> 'a queue) option" where
  "try_pop q =
     (if q_count q > 0
      then Some (buf q ! q_head q,
                 q\<lparr>buf := (buf q)[q_head q := None], q_head := (q_head q + 1) mod q_cap q,
                   q_count := q_count q - 1\<rparr>)
      else None)"

definition queue_len :: "'a queue \<Rightarrow> nat" where
  "queue_len q = q_count q"

definition fill_ratio :: "'a queue \<Rightarrow> f64" where
  "fill_ratio q = (if q_cap q = 0 then NaN
     else Fin (fl64 (fl64 (of_nat (q_count q)) / fl64 (of_nat (q_cap q)))))"

section \<open>Contents and invariant\<close>

definition slot :: "'a queue \<Rightarrow> nat \<Rightarrow> nat" where
  "slot q i = (q_head q + i) mod q_cap q"

definition contents :: "'a queue \<Rightarrow> 'a list" where
  "contents q = map (\<lambda>i. the (buf q ! slot q i)) [0..<q_count q]"

definition queue_inv :: "'a queue \<Rightarrow> bool" where
  "queue_inv q \<longleftrightarrow> q_cap q > 0 \<and> length (buf q) = q_cap q \<and> q_count q \<le> q_cap q
     \<and> q_head q < q_cap q \<and> q_tail q = slot q (q_count q)
     \<and> (\<forall>i < q_count q. buf q ! slot q i \<noteq> None)"

lemma length_contents [simp]: "length (contents q) = q_count q"
  by (simp add: contents_def)

lemma slot_less [simp]: "queue_inv q \<Longrightarrow> slot q i < q_cap q"
  by (simp add: queue_inv_def slot_def)

lemma slot_0 [simp]: "queue_inv q \<Longrightarrow> slot q 0 = q_head q"
  by (simp add: queue_inv_def slot_def)

lemma slot_if: "queue_inv q \<Longrightarrow> i < q_cap q \<Longrightarrow>
    slot q i = (if q_head q + i < q_cap q then q_head q + i else q_head q + i - q_cap q)"
  by (auto simp: slot_def queue_inv_def le_mod_geq)

lemma slot_inj: "queue_inv q \<Longrightarrow> slot q i = slot q j \<Longrightarrow> i < q_cap q \<Longrightarrow> j < q_cap q \<Longrightarrow> i = j"
  by (auto simp: slot_if split: if_splits)

lemma new_queue_inv:
  "0 < n \<Longrightarrow> new_queue n = Some q \<Longrightarrow> queue_inv q \<and> contents q = [] \<and> q_cap q = nat n"
  by (auto simp: new_queue_def queue_inv_def contents_def slot_def)

lemma drop_oldest_ok:
  assumes "queue_inv q" "q_count q > 0"
  shows "\<exists>d. drop_oldest q = Some d \<and> queue_inv d \<and> contents d = tl (contents q)
           \<and> q_cap d = q_cap q \<and> q_count d = q_count q - 1 \<and> buf d = buf q
           \<and> (\<forall>i. slot d i = slot q (Suc i))"
proof -
  define d where "d = q\<lparr>q_head := (q_head q + 1) mod q_cap q, q_count := q_count q - 1\<rparr>"
  have s: "slot d i = slot q (Suc i)" for i by (simp add: d_def slot_def mod_simps)
  have f: "buf d = buf q" "q_cap d = q_cap q" "q_count d = q_count q - 1" "q_tail d = q_tail q"
    "q_head d < q_cap d"
    using assms by (simp_all add: d_def queue_inv_def)
  have "queue_inv d" using assms f s unfolding queue_inv_def by auto
  moreover have "contents d = tl (contents q)"
    by (rule nth_equalityI) (auto simp: contents_def s f nth_tl)
  moreover have "drop_oldest q = Some d" using assms by (simp add: drop_oldest_def queue_inv_def d_def)
  ultimately show ?thesis using f s by blast
qed

lemma write_tail_ok:
  assumes "queue_inv q" "q_count q < q_cap q"
  shows "\<exists>w. write_tail f q = Some w \<and> queue_inv w \<and> contents w = contents q @ [f] \<and> q_cap w = q_cap q"
proof -
  define w where "w = q\<lparr>buf := (buf q)[q_tail q := Some f], q_tail := (q_tail q + 1) mod q_cap q,
              q_count := q_count q + 1\<rparr>"
  have t: "q_tail q = slot q (q_count q)" and l: "length (buf q) = q_cap q"
    using assms by (simp_all add: queue_inv_def)
  have s: "slot w i = slot q i" for i by (simp add: w_def slot_def)
  have fw: "buf w = (buf q)[slot q (q_count q) := Some f]" "q_cap w = q_cap q" "q_count w = Suc (q_count q)"
    "q_head w = q_head q" "q_tail w = slot q (Suc (q_count q))"
    by (simp_all add: w_def t slot_def mod_simps)
  have keep: "buf w ! slot q i = buf q ! slot q i" if "i < q_count q" for i
  proof -
    have "slot q (q_count q) \<noteq> slot q i"
      using slot_inj [OF assms(1), of "q_count q" i] assms(2) that by auto
    then show ?thesis by (simp add: fw)
  qed
  have at: "buf w ! slot q (q_count q) = Some f"
    using assms by (simp add: fw l)
  have "queue_inv w"
    using assms keep at unfolding queue_inv_def s by (auto simp: less_Suc_eq fw)
  moreover have "contents w = contents q @ [f]"
    using keep at by (simp add: contents_def s fw)
  moreover have "write_tail f q = Some w"
    using assms(2) l slot_less [OF assms(1), of "q_count q"] by (simp add: write_tail_def w_def t)
  ultimately show ?thesis using fw by blast
qed

lemma push_ok:
  assumes "queue_inv q"
  shows "\<exists>q'. push f q = Some q' \<and> queue_inv q' \<and> q_cap q' = q_cap q \<and> signalled q'
           \<and> contents q' = (if length (contents q) = q_cap q then tl (contents q) else contents q) @ [f]"
proof -
  have b: "0 < q_cap q" "q_count q \<le> q_cap q" using assms by (simp_all add: queue_inv_def)
  obtain q1 where q1: "(if q_count q = q_cap q then drop_oldest q else Some q) = Some q1" "queue_inv q1"
    "q_cap q1 = q_cap q" "q_count q1 < q_cap q1"
    "contents q1 = (if length (contents q) = q_cap q then tl (contents q) else contents q)"
  proof (cases "q_count q = q_cap q")
    case True
    with drop_oldest_ok [OF assms] b obtain d where "drop_oldest q = Some d" "queue_inv d"
      "contents d = tl (contents q)" "q_cap d = q_cap q" "q_count d = q_count q - 1" by auto
    with True b that [of d] show ?thesis by simp
  next
    case False
    with assms b that [of q] show ?thesis by simp
  qed
  obtain q2 where q2: "write_tail f q1 = Some q2" "queue_inv q2" "contents q2 = contents q1 @ [f]"
    "q_cap q2 = q_cap q1"
    using write_tail_ok [OF q1(2,4)] by blast
  have "queue_inv (q2\<lparr>signalled := True\<rparr>)" "contents (q2\<lparr>signalled := True\<rparr>) = contents q2"
    using q2(2) by (simp_all add: queue_inv_def contents_def slot_def)
  then show ?thesis using q1 q2 by (simp add: push_def)
qed

lemma try_pop_ok:
  assumes "queue_inv q" "q_count q > 0"
  shows "\<exists>r. try_pop q = Some (Some (hd (contents q)), r) \<and> queue_inv r
           \<and> contents r = tl (contents q) \<and> q_cap r = q_cap q"
proof -
  obtain d where d: "drop_oldest q = Some d" "queue_inv d" "contents d = tl (contents q)" "q_cap d = q_cap q"
    "q_count d = q_count q - 1" "buf d = buf q" "\<forall>i. slot d i = slot q (Suc i)"
    using drop_oldest_ok [OF assms] by blast
  define r where "r = d\<lparr>buf := (buf d)[q_head q := None]\<rparr>"
  have keep: "buf r ! slot d i = buf d ! slot d i" if "i < q_count d" for i
  proof -
    have "slot q 0 \<noteq> slot q (Suc i)"
    proof
      assume e: "slot q 0 = slot q (Suc i)"
      have "q_count q \<le> q_cap q" using assms(1) by (simp add: queue_inv_def)
      then have "Suc i < q_cap q" "0 < q_cap q" using that d(5) by linarith+
      then show False using slot_inj [OF assms(1) e] by simp
    qed
    then show ?thesis using assms(1) d(7) by (simp add: r_def)
  qed
  have s: "slot r i = slot d i" for i by (simp add: r_def slot_def)
  have fr: "q_cap r = q_cap d" "q_count r = q_count d" "q_head r = q_head d" "q_tail r = q_tail d"
    "length (buf r) = length (buf d)"
    by (simp_all add: r_def)
  have "queue_inv r" using d(2) keep unfolding queue_inv_def s fr by simp
  moreover have "contents r = contents d" using keep by (simp add: contents_def s fr)
  moreover have "buf q ! slot q 0 \<noteq> None" using assms unfolding queue_inv_def by blast
  then have "buf q ! q_head q = Some (hd (contents q))"
    using assms(2) slot_0 [OF assms(1)] by (auto simp: contents_def hd_map)
  moreover have "try_pop q = Some (buf q ! q_head q, r)"
    using assms d(1) by (auto simp: try_pop_def drop_oldest_def r_def split: if_splits)
  ultimately show ?thesis using d(3,4) fr(1) by simp
qed

section \<open>The contract: a bounded first-in first-out queue that drops the oldest element\<close>

datatype 'a queue_op = Enq 'a | Deq

text \<open>The elements handed out by a sequence of operations, and the queue left behind.\<close>

fun run_ops :: "('a \<Rightarrow> 'q \<Rightarrow> 'q option) \<Rightarrow> ('q \<Rightarrow> ('a option \<times> 'q) option) \<Rightarrow> 'a queue_op list \<Rightarrow> 'q
    \<Rightarrow> ('a list \<times> 'q) option" where
  "run_ops enq deq [] q = Some ([], q)"
| "run_ops enq deq (Enq x # os) q =
     (case enq x q of None \<Rightarrow> None | Some q' \<Rightarrow> run_ops enq deq os q')"
| "run_ops enq deq (Deq # os) q =
     (case deq q of
        None \<Rightarrow> run_ops enq deq os q
      | Some (None, q') \<Rightarrow> None
      | Some (Some x, q') \<Rightarrow> map_option (\<lambda>(out, r). (x # out, r)) (run_ops enq deq os q'))"

fun enqueued :: "'a queue_op list \<Rightarrow> 'a list" where
  "enqueued [] = []"
| "enqueued (Enq x # os) = x # enqueued os"
| "enqueued (Deq # os) = enqueued os"

locale drop_oldest_queue =
  fixes enq :: "'a \<Rightarrow> 'q \<Rightarrow> 'q option"
    and deq :: "'q \<Rightarrow> ('a option \<times> 'q) option"
    and wf :: "'q \<Rightarrow> bool"
    and elems :: "'q \<Rightarrow> 'a list"
    and bound :: "'q \<Rightarrow> nat"
  assumes enq_law: "wf q \<Longrightarrow> \<exists>q'. enq x q = Some q' \<and> wf q' \<and> bound q' = bound q
        \<and> elems q' = (if length (elems q) = bound q then tl (elems q) else elems q) @ [x]"
    and deq_empty: "wf q \<Longrightarrow> elems q = [] \<Longrightarrow> deq q = None"
    and deq_law: "wf q \<Longrightarrow> elems q = x # xs \<Longrightarrow>
        \<exists>q'. deq q = Some (Some x, q') \<and> wf q' \<and> bound q' = bound q \<and> elems q' = xs"
    and within: "wf q \<Longrightarrow> length (elems q) \<le> bound q"
begin

text \<open>Whatever the interleaving, what comes out is in the order it went in; nothing is duplicated.\<close>

lemma fifo:
  "wf q \<Longrightarrow> \<exists>out r. run_ops enq deq os q = Some (out, r) \<and> wf r \<and> bound r = bound q
     \<and> subseq (out @ elems r) (elems q @ enqueued os)"
proof (induction os arbitrary: q)
  case Nil
  then show ?case by simp
next
  case (Cons oper os)
  show ?case
  proof (cases oper)
    case (Enq x)
    obtain q' where q': "enq x q = Some q'" "wf q'" "bound q' = bound q"
      "elems q' = (if length (elems q) = bound q then tl (elems q) else elems q) @ [x]"
      using enq_law [OF Cons.prems] by blast
    have "subseq (elems q') (elems q @ [x])" using q'(4)
      by (cases "elems q") auto
    then have "subseq (elems q' @ enqueued os) ((elems q @ [x]) @ enqueued os)"
      by (rule list_emb_append_mono) simp
    then have t: "subseq l (elems q' @ enqueued os) \<Longrightarrow> subseq l (elems q @ x # enqueued os)" for l
      using subseq_order.order_trans by fastforce
    from Cons.IH [OF q'(2)] obtain out r where "run_ops enq deq os q' = Some (out, r)" "wf r"
      "bound r = bound q'" "subseq (out @ elems r) (elems q' @ enqueued os)" by blast
    with q' Enq t show ?thesis by simp
  next
    case Deq
    show ?thesis
    proof (cases "elems q")
      case Nil
      with Cons.IH [OF Cons.prems] deq_empty [OF Cons.prems] Deq show ?thesis by simp
    next
      case (Cons x xs)
      with deq_law \<open>wf q\<close> obtain q' where "deq q = Some (Some x, q')" "wf q'" "bound q' = bound q" "elems q' = xs"
        by blast
      with Cons.IH [of q'] Deq \<open>elems q = x # xs\<close> show ?thesis by fastforce
    qed
  qed
qed

text \<open>Without dequeues, the last \<open>bound q\<close> elements remain.\<close>

lemma keeps_newest:
  "wf q \<Longrightarrow> bound q > 0 \<Longrightarrow> \<exists>r. run_ops enq deq (map Enq xs) q = Some ([], r) \<and> wf r \<and> bound r = bound q
     \<and> elems r = drop (length (elems q) + length xs - bound q) (elems q @ xs)"
proof (induction xs arbitrary: q)
  case Nil
  then show ?case using within by simp
next
  case (Cons x xs)
  obtain q' where q': "enq x q = Some q'" "wf q'" "bound q' = bound q"
    "elems q' = (if length (elems q) = bound q then tl (elems q) else elems q) @ [x]"
    using enq_law [OF Cons.prems(1)] by blast
  have "elems q' = drop (Suc (length (elems q)) - bound q) (elems q @ [x])"
    using q'(4) within [OF Cons.prems(1)] Cons.prems(2)
    by (cases "length (elems q) = bound q") (auto simp: drop_Suc tl_append split: list.splits)
  moreover have "Suc (length (elems q)) - bound q \<le> 1" using within [OF Cons.prems(1)] by linarith
  ultimately have "drop (length (elems q') + length xs - bound q) (elems q' @ xs)
      = drop (length (elems q) + length (x # xs) - bound q) (elems q @ x # xs)"
    using Cons.prems(2) within [OF Cons.prems(1)]
    by (cases "length (elems q) = bound q") (auto simp: q'(4) drop_Suc tl_append Suc_diff_le split: list.splits)
  with Cons.IH [OF q'(2)] q' Cons.prems show ?case by simp
qed

end

interpretation rb: drop_oldest_queue push try_pop queue_inv contents q_cap
proof
  fix q :: "'a queue" and x :: 'a
  assume "queue_inv q"
  from push_ok [OF this] show "\<exists>q'. push x q = Some q' \<and> queue_inv q' \<and> q_cap q' = q_cap q
      \<and> contents q' = (if length (contents q) = q_cap q then tl (contents q) else contents q) @ [x]"
    by blast
next
  fix q :: "'a queue" assume "queue_inv q" "contents q = []"
  then show "try_pop q = None" by (simp add: try_pop_def contents_def)
next
  fix q :: "'a queue" and x :: 'a and xs
  assume "queue_inv q" and c: "contents q = x # xs"
  moreover have "q_count q > 0" using length_contents [of q] c by simp
  ultimately show "\<exists>q'. try_pop q = Some (Some x, q') \<and> queue_inv q' \<and> q_cap q' = q_cap q \<and> contents q' = xs"
    using try_pop_ok by fastforce
next
  fix q :: "'a queue" assume "queue_inv q"
  then show "length (contents q) \<le> q_cap q" by (simp add: queue_inv_def)
qed

section \<open>The queue in the running daemon\<close>

text \<open>
  One producer (the bridge goroutine) and one consumer (the inference loop) around the queue.
  \<open>Ready\<close>: the consumer is before the critical section of \<open>Pop\<close>; \<open>Waiting\<close>: in its
  \<open>select\<close>; \<open>Got f\<close>: \<open>Pop\<close> has returned \<open>f\<close>, where \<open>None\<close> is \<open>nil\<close>, after which the
  loop ends.
\<close>

datatype 'a consumer = Ready | Waiting | Got "'a option"

record 'a system =
  sys_queue :: "'a queue"
  stopped :: bool
  consumer :: "'a consumer"

inductive qstep :: "'a system \<Rightarrow> 'a system \<Rightarrow> bool" where
  producer_push: "push f (sys_queue s) = Some q \<Longrightarrow> qstep s (s\<lparr>sys_queue := q\<rparr>)"
| close_stop: "qstep s (s\<lparr>stopped := True\<rparr>)"
| pop_frame: "consumer s = Ready \<Longrightarrow> try_pop (sys_queue s) = Some (f, q) \<Longrightarrow>
     qstep s (s\<lparr>sys_queue := q, consumer := Got f\<rparr>)"
| pop_empty: "consumer s = Ready \<Longrightarrow> try_pop (sys_queue s) = None \<Longrightarrow> qstep s (s\<lparr>consumer := Waiting\<rparr>)"
| wake: "consumer s = Waiting \<Longrightarrow> signalled (sys_queue s) \<Longrightarrow>
     qstep s (s\<lparr>sys_queue := (sys_queue s)\<lparr>signalled := False\<rparr>, consumer := Ready\<rparr>)"
| stop_seen: "consumer s = Waiting \<Longrightarrow> stopped s \<Longrightarrow> qstep s (s\<lparr>consumer := Got None\<rparr>)"
| pop_again: "consumer s = Got (Some f) \<Longrightarrow> qstep s (s\<lparr>consumer := Ready\<rparr>)"

inductive_cases qstep_E: "qstep s t"

definition start_system :: "'a queue \<Rightarrow> 'a system" where
  "start_system q = \<lparr>sys_queue = q, stopped = False, consumer = Ready\<rparr>"

definition system_inv :: "'a system \<Rightarrow> bool" where
  "system_inv s \<longleftrightarrow> queue_inv (sys_queue s)
     \<and> (consumer s = Waiting \<and> q_count (sys_queue s) > 0 \<longrightarrow> signalled (sys_queue s))"

lemma queue_inv_signalled [simp]: "queue_inv (q\<lparr>signalled := b\<rparr>) = queue_inv q"
  "contents (q\<lparr>signalled := b\<rparr>) = contents q"
  by (simp_all add: queue_inv_def contents_def slot_def)

lemma try_pop_inv: "queue_inv q \<Longrightarrow> try_pop q = Some (f, r) \<Longrightarrow> queue_inv r"
  using try_pop_ok [of q] by (cases "q_count q > 0") (auto simp: try_pop_def)

lemma qstep_inv: "qstep s t \<Longrightarrow> system_inv s \<Longrightarrow> system_inv t"
proof (induction rule: qstep.induct)
  case (producer_push f s q)
  then show ?case using push_ok [of "sys_queue s" f] by (auto simp: system_inv_def)
next
  case (pop_frame s f q)
  then show ?case using try_pop_inv by (auto simp: system_inv_def)
next
  case (pop_empty s)
  then show ?case by (auto simp: system_inv_def try_pop_def split: if_splits)
qed (auto simp: system_inv_def)

interpretation exchange: step_system qstep system_inv
  by unfold_locales (rule qstep_inv)

section \<open>Properties\<close>

text \<open>
  C17. Drop-oldest: a queue of capacity \<open>n > 0\<close> never panics under any number of pushes, keeps the
  newest \<open>n\<close> frames, and then hands them out oldest first.
\<close>

theorem queue_keeps_newest:
  assumes "new_queue n = Some q" and "0 < n"
  shows "\<exists>r. run_ops push try_pop (map Enq fs) q = Some ([], r) \<and> contents r = drop (length fs - nat n) fs
           \<and> queue_len r = min (length fs) (nat n)
           \<and> fill_ratio r = Fin (fl64 (fl64 (of_nat (min (length fs) (nat n))) / fl64 (of_nat (nat n))))"
proof -
  have q: "queue_inv q" "contents q = []" "q_cap q = nat n" using new_queue_inv assms by auto
  from rb.keeps_newest [OF q(1), of fs] q assms(2)
  obtain r where r: "run_ops push try_pop (map Enq fs) q = Some ([], r)" "queue_inv r" "q_cap r = nat n"
    "contents r = drop (length fs - nat n) fs" by auto
  then have "q_count r = min (length fs) (nat n)" using length_contents [of r] by simp
  with r assms(2) show ?thesis by (simp add: queue_len_def fill_ratio_def)
qed

theorem queue_keeps_newest_witness:
  "\<exists>q r. new_queue 2 = Some q \<and> run_ops push try_pop (map Enq [10, 20, 30::int]) q = Some ([], r)
     \<and> contents r = [20, 30]"
proof -
  obtain q :: "int queue" where q: "new_queue 2 = Some q" by (simp add: new_queue_def)
  from queue_keeps_newest [OF q, of "[10, 20, 30]"] q show ?thesis by auto
qed

text \<open>
  C16. Order: for every interleaving of pushes and pops, what has been popped followed by what is
  still queued is a subsequence of what was pushed. Frames are never reordered or duplicated, only
  dropped, and the queue never holds more than its capacity.
\<close>

theorem queue_fifo:
  assumes "new_queue n = Some q" and "0 < n"
  shows "\<exists>out r. run_ops push try_pop os q = Some (out, r) \<and> subseq (out @ contents r) (enqueued os)
           \<and> length (contents r) \<le> nat n"
proof -
  have q: "queue_inv q" "contents q = []" "q_cap q = nat n" using new_queue_inv assms by auto
  from rb.fifo [OF q(1), of os] q rb.within show ?thesis by fastforce
qed

theorem queue_fifo_witness:
  "\<exists>q out r. new_queue 1 = Some q \<and> run_ops push try_pop [Enq (1::int), Deq, Enq 2, Enq 3, Deq] q = Some (out, r)
     \<and> subseq (out @ contents r) [1, 2, 3]"
proof -
  obtain q :: "int queue" where q: "new_queue 1 = Some q" by (simp add: new_queue_def)
  from queue_fifo [OF q, of "[Enq 1, Deq, Enq 2, Enq 3, Deq]"] q show ?thesis by auto
qed

text \<open>
  C36. No lost wakeup: in every reachable state of producer and consumer, a consumer that waits
  while frames are queued has a pending signal; it can take that signal, and its next pass through
  the critical section returns the oldest frame.
\<close>

theorem no_lost_wakeup:
  assumes "new_queue n = Some q" and "0 < n" and "qstep\<^sup>*\<^sup>* (start_system q) s"
    and "consumer s = Waiting" and "contents (sys_queue s) \<noteq> []"
  shows "\<exists>t u. qstep s t \<and> qstep t u \<and> consumer u = Got (Some (hd (contents (sys_queue s))))
           \<and> contents (sys_queue u) = tl (contents (sys_queue s))"
proof -
  have "system_inv (start_system q)"
    using new_queue_inv assms(1,2) by (auto simp: system_inv_def start_system_def)
  with assms(3) have i: "system_inv s" by (rule exchange.reach_keeps)
  have c: "q_count (sys_queue s) > 0" using assms(5) by (auto simp: contents_def)
  let ?r = "(sys_queue s)\<lparr>signalled := False\<rparr>"
  let ?t = "s\<lparr>sys_queue := ?r, consumer := Ready\<rparr>"
  have "qstep s ?t" using i c assms(4) by (intro wake) (auto simp: system_inv_def)
  moreover have "queue_inv ?r" "q_count ?r > 0" using i c by (simp_all add: system_inv_def)
  from try_pop_ok [OF this] obtain p where
    "try_pop ?r = Some (Some (hd (contents ?r)), p)" "contents p = tl (contents ?r)" by blast
  then have "qstep ?t (?t\<lparr>sys_queue := p, consumer := Got (Some (hd (contents ?r)))\<rparr>)"
    "contents p = tl (contents (sys_queue s))"
    using pop_frame [of ?t "Some (hd (contents ?r))" p] by simp_all
  ultimately show ?thesis by fastforce
qed

theorem no_lost_wakeup_witness:
  "\<exists>q s t u. new_queue 1 = Some q \<and> qstep\<^sup>*\<^sup>* (start_system q) s \<and> qstep s t \<and> qstep t u
     \<and> consumer s = Waiting \<and> consumer u = Got (Some (7::int))"
proof -
  obtain q :: "int queue" where q: "new_queue 1 = Some q" by (simp add: new_queue_def)
  have inv: "queue_inv q" "contents q = []" "q_cap q = 1" using new_queue_inv [OF _ q] by auto
  from push_ok [OF inv(1), of 7] inv obtain r where r: "push 7 q = Some r" "contents r = [7]" by auto
  let ?w = "(start_system q)\<lparr>consumer := Waiting\<rparr>"
  let ?s = "?w\<lparr>sys_queue := r\<rparr>"
  have "try_pop q = None" using q by (auto simp: new_queue_def try_pop_def)
  then have "qstep (start_system q) ?w" by (intro pop_empty) (simp_all add: start_system_def)
  moreover have "qstep ?w ?s" using r by (intro producer_push [of 7]) (simp add: start_system_def)
  ultimately have reach: "qstep\<^sup>*\<^sup>* (start_system q) ?s" by (meson converse_rtranclp_into_rtranclp rtranclp.rtrancl_refl)
  from no_lost_wakeup [OF q _ reach] r obtain t u where "qstep ?s t" "qstep t u" "consumer u = Got (Some 7)"
    by (auto simp: start_system_def)
  with q reach show ?thesis
    by (intro exI [of _ q] exI [of _ ?s] exI [of _ t] exI [of _ u]) simp
qed

end
