(* ===== verification/Go_Url.thy ===== *)
theory Go_Url
  imports Go_Strings
begin

text \<open>
  The parts of packages \<open>net/url\<close> and \<open>path/filepath\<close> the repository calls: \<open>url.Parse\<close> with
  the scheme and the host of its result, \<open>URL.Hostname\<close>, and \<open>filepath.Join\<close> for Unix paths.
  The main lemma says that appending an absolute path to a URL does not change where it points.
\<close>

section \<open>Parsing a URL\<close>

record url =
  u_scheme :: string
  u_host :: string

definition is_ctl :: "char \<Rightarrow> bool" where
  "is_ctl c \<longleftrightarrow> (of_char c :: nat) < 32 \<or> (of_char c :: nat) = 127"

text \<open>\<open>strings.Cut\<close> at a byte, without the third result.\<close>

definition before :: "char \<Rightarrow> string \<Rightarrow> string" where
  "before d s = takeWhile (\<lambda>c. c \<noteq> d) s"

definition after :: "char \<Rightarrow> string \<Rightarrow> string" where
  "after d s = drop (length (before d s) + 1) s"

text \<open>\<open>strings.Index\<close>.\<close>

fun first_index :: "string \<Rightarrow> string \<Rightarrow> nat option" where
  "first_index [] sub = (if sub = [] then Some 0 else None)"
| "first_index (c # cs) sub =
     (if has_prefix sub (c # cs) then Some 0 else map_option Suc (first_index cs sub))"

text \<open>\<open>getScheme\<close>; \<open>None\<close> is the error \<open>missing protocol scheme\<close>.\<close>

fun get_scheme_from :: "string \<Rightarrow> string \<Rightarrow> string \<Rightarrow> (string \<times> string) option" where
  "get_scheme_from raw seen [] = Some ([], raw)"
| "get_scheme_from raw seen (c # cs) =
     (if is_alpha c then get_scheme_from raw (seen @ [c]) cs
      else if is_digit c \<or> c \<in> {CHR ''+'', CHR ''-'', CHR ''.''} then
        (if seen = [] then Some ([], raw) else get_scheme_from raw (seen @ [c]) cs)
      else if c = CHR '':'' then (if seen = [] then None else Some (seen, cs))
      else Some ([], raw))"

datatype escape_mode = EncodeHost | EncodeZone | EncodeOther

definition host_char :: "char \<Rightarrow> bool" where
  "host_char c \<longleftrightarrow> is_alpha c \<or> is_digit c \<or> c \<in> set ''!$&()*+,;=:[]<>-_.~'' \<or> c = CHR 0x27 \<or> c = CHR 0x22"

fun unescape :: "escape_mode \<Rightarrow> string \<Rightarrow> string option" where
  "unescape m [] = Some []"
| "unescape m (c # cs) =
     (if c = CHR ''%'' then
        (case cs of
           a # b # t \<Rightarrow>
             (let v = char_of (16 * unhex a + unhex b) in
              if \<not> is_hex a \<or> \<not> is_hex b then None
              else if m = EncodeHost \<and> unhex a < 8 \<and> [a, b] \<noteq> ''25'' then None
              else if m = EncodeZone \<and> [a, b] \<noteq> ''25'' \<and> v \<noteq> CHR '' '' \<and> \<not> host_char v then None
              else map_option ((#) v) (unescape m t))
         | _ \<Rightarrow> None)
      else if m \<noteq> EncodeOther \<and> (of_char c :: nat) < 128 \<and> \<not> host_char c then None
      else map_option ((#) c) (unescape m cs))"

definition valid_optional_port :: "string \<Rightarrow> bool" where
  "valid_optional_port p = (case p of [] \<Rightarrow> True | c # cs \<Rightarrow> c = CHR '':'' \<and> list_all is_digit cs)"

definition parse_host :: "string \<Rightarrow> string option" where
  "parse_host h =
     (if has_prefix ''['' h then
        (case last_index h '']'' of
           None \<Rightarrow> None
         | Some i \<Rightarrow>
             if \<not> valid_optional_port (drop (i + 1) h) then None
             else (case first_index (take i h) ''%25'' of
               None \<Rightarrow> unescape EncodeHost h
             | Some z \<Rightarrow>
               (case (unescape EncodeHost (take z h), unescape EncodeZone (drop z (take i h)),
                      unescape EncodeHost (drop i h)) of
                  (Some x, Some y, Some w) \<Rightarrow> Some (x @ y @ w)
                | _ \<Rightarrow> None)))
      else (case last_index h '':'' of
              Some i \<Rightarrow> if valid_optional_port (drop i h) then unescape EncodeHost h else None
            | None \<Rightarrow> unescape EncodeHost h))"

definition user_char :: "char \<Rightarrow> bool" where
  "user_char c \<longleftrightarrow> is_alpha c \<or> is_digit c \<or> c \<in> set ''-._:~!$&()*+,;=%@'' \<or> c = CHR 0x27"

definition parse_authority :: "string \<Rightarrow> string option" where
  "parse_authority a =
     (case last_index a ''@'' of
        None \<Rightarrow> parse_host a
      | Some i \<Rightarrow>
          (case parse_host (drop (i + 1) a) of
             None \<Rightarrow> None
           | Some h \<Rightarrow>
               if list_all user_char (take i a) \<and> unescape EncodeOther (take i a) \<noteq> None then Some h else None))"

definition cut_query :: "string \<Rightarrow> string" where
  "cut_query rest =
     (if rest \<noteq> [] \<and> last rest = CHR ''?'' \<and> length (filter (\<lambda>c. c = CHR ''?'') rest) = 1
      then butlast rest else before CHR ''?'' rest)"

definition parse_url :: "string \<Rightarrow> url option" where
  "parse_url raw =
     (let u = before CHR ''#'' raw; frag = after CHR ''#'' raw in
      if list_ex is_ctl u then None
      else if frag \<noteq> [] \<and> unescape EncodeOther frag = None then None
      else if u = ''*'' then Some \<lparr>u_scheme = [], u_host = []\<rparr>
      else (case get_scheme_from u [] u of
              None \<Rightarrow> None
            | Some (scheme0, rest0) \<Rightarrow>
                (let scheme = map ascii_lower scheme0; rest = cut_query rest0 in
                 if \<not> has_prefix ''/'' rest then
                   (if scheme \<noteq> [] then Some \<lparr>u_scheme = scheme, u_host = []\<rparr>
                    else if contains (before CHR ''/'' rest) '':'' then None
                    else if unescape EncodeOther rest = None then None
                    else Some \<lparr>u_scheme = [], u_host = []\<rparr>)
                 else if (scheme \<noteq> [] \<or> \<not> has_prefix ''///'' rest) \<and> has_prefix ''//'' rest then
                   (let r = drop 2 rest; path = drop (length (before CHR ''/'' r)) r in
                    case parse_authority (before CHR ''/'' r) of
                      None \<Rightarrow> None
                    | Some h \<Rightarrow> if unescape EncodeOther path = None then None
                               else Some \<lparr>u_scheme = scheme, u_host = h\<rparr>)
                 else if unescape EncodeOther rest = None then None
                 else Some \<lparr>u_scheme = scheme, u_host = []\<rparr>)))"

definition url_hostname :: "url \<Rightarrow> string" where
  "url_hostname u =
     (let h = u_host u;
          h1 = (case last_index h '':'' of
                  Some i \<Rightarrow> if valid_optional_port (drop i h) then take i h else h
                | None \<Rightarrow> h)
      in if has_prefix ''['' h1 \<and> h1 \<noteq> [] \<and> last h1 = CHR '']'' then butlast (tl h1) else h1)"

section \<open>Joining Unix paths\<close>

text \<open>\<open>filepath.Clean\<close> on the pieces between slashes: \<open>.\<close> and empty pieces vanish, \<open>..\<close> removes.\<close>

fun clean_pieces :: "bool \<Rightarrow> string list \<Rightarrow> string list \<Rightarrow> string list" where
  "clean_pieces rooted acc [] = rev acc"
| "clean_pieces rooted acc (p # ps) =
     (if p = [] \<or> p = ''.'' then clean_pieces rooted acc ps
      else if p = ''..'' then
        (case acc of
           q # qs \<Rightarrow> if q = ''..'' then clean_pieces rooted (p # acc) ps else clean_pieces rooted qs ps
         | [] \<Rightarrow> if rooted then clean_pieces rooted [] ps else clean_pieces rooted [p] ps)
      else clean_pieces rooted (p # acc) ps)"

fun join_pieces :: "string list \<Rightarrow> string" where
  "join_pieces [] = []"
| "join_pieces [p] = p"
| "join_pieces (p # ps) = p @ ''/'' @ join_pieces ps"

definition clean_path :: "string \<Rightarrow> string" where
  "clean_path p =
     (if p = [] then ''.''
      else let rooted = has_prefix ''/'' p;
               body = join_pieces (clean_pieces rooted [] (split_on CHR ''/'' p))
           in if rooted then ''/'' @ body else if body = [] then ''.'' else body)"

definition join_path :: "string \<Rightarrow> string \<Rightarrow> string" where
  "join_path a b =
     (if a = [] then (if b = [] then [] else clean_path b) else clean_path (a @ ''/'' @ b))"

section \<open>Appending a path does not move the target\<close>

lemma before_append: "before d (s @ t) = (if d \<in> set s then before d s else s @ before d t)"
  by (auto simp: before_def takeWhile_append)

lemma before_none [simp]: "d \<notin> set s \<Longrightarrow> before d s = s"
  by (simp add: before_def takeWhile_eq_all_conv) blast

lemma before_Cons: "before d (c # s) = (if c = d then [] else c # before d s)"
  by (simp add: before_def)

lemma filter_length_1_last:
  "rest \<noteq> [] \<Longrightarrow> last rest = d \<Longrightarrow> length (filter (\<lambda>c. c = d) rest) = 1 \<Longrightarrow> d \<notin> set (butlast rest)"
  by (induction rest rule: rev_induct) (auto simp: filter_empty_conv)

lemma cut_query_before: "cut_query rest = before CHR ''?'' rest"
proof (cases "rest \<noteq> [] \<and> last rest = CHR ''?'' \<and> length (filter (\<lambda>c. c = CHR ''?'') rest) = 1")
  case True
  then have n: "CHR ''?'' \<notin> set (butlast rest)" by (intro filter_length_1_last) auto
  obtain r where r: "rest = r @ ''?''"
    using True append_butlast_last_id [of rest] by metis
  then have "before CHR ''?'' rest = butlast rest" using n by (simp add: before_append before_Cons)
  then show ?thesis using True by (simp add: cut_query_def)
next
  case False
  then show ?thesis unfolding cut_query_def by (simp only: if_False)
qed

lemma get_scheme_append:
  "get_scheme_from raw seen s = Some (sc, rest) \<Longrightarrow> sc \<noteq> [] \<Longrightarrow>
     get_scheme_from raw' seen (s @ t) = Some (sc, rest @ t)"
  by (induction raw seen s rule: get_scheme_from.induct) (auto split: if_splits)

lemma has_prefix_append: "has_prefix p s \<Longrightarrow> has_prefix p (s @ t)"
  by (induction p s rule: has_prefix.induct) auto

text \<open>Where a URL points: its scheme and the authority between \<open>//\<close> and the next delimiter.\<close>

definition authority :: "string \<Rightarrow> string \<Rightarrow> string \<Rightarrow> bool" where
  "authority raw sc a \<longleftrightarrow> (\<exists>s0 rest. get_scheme_from (before CHR ''#'' raw) [] (before CHR ''#'' raw) = Some (s0, rest)
     \<and> s0 \<noteq> [] \<and> sc = map ascii_lower s0 \<and> has_prefix ''//'' (before CHR ''?'' rest)
     \<and> a = before CHR ''/'' (drop 2 (before CHR ''?'' rest)))"

lemma parse_url_authority:
  assumes "parse_url raw = Some u" "u_scheme u \<noteq> []" "u_host u \<noteq> []"
  shows "\<exists>a. authority raw (u_scheme u) a \<and> parse_authority a = Some (u_host u)"
  using assms unfolding parse_url_def authority_def cut_query_before
  by (auto simp: Let_def split: if_splits option.splits prod.splits)

lemma authority_parse_url:
  assumes "authority raw sc a" "parse_url raw = Some u"
  shows "u_scheme u = sc \<and> parse_authority a = Some (u_host u)"
  using assms unfolding parse_url_def authority_def cut_query_before
  by (auto simp: Let_def split: if_splits option.splits prod.splits elim: has_prefix.elims)

lemma authority_append:
  assumes "authority raw sc a" "has_prefix ''/'' t" "CHR ''#'' \<notin> set t" "CHR ''?'' \<notin> set t"
  shows "authority (raw @ t) sc a"
proof (cases "CHR ''#'' \<in> set raw")
  case True
  then show ?thesis using assms by (simp add: authority_def before_append)
next
  case False
  obtain s0 rest where g: "get_scheme_from raw [] raw = Some (s0, rest)" "s0 \<noteq> []" "sc = map ascii_lower s0"
    "has_prefix ''//'' (before CHR ''?'' rest)" "a = before CHR ''/'' (drop 2 (before CHR ''?'' rest))"
    using assms(1) False by (auto simp: authority_def)
  have b: "before CHR ''#'' (raw @ t) = raw @ t" using False assms(3) by simp
  have s: "get_scheme_from (raw @ t) [] (raw @ t) = Some (s0, rest @ t)"
    using get_scheme_append [OF g(1,2)] .
  show ?thesis
  proof (cases "CHR ''?'' \<in> set rest")
    case True
    then show ?thesis using s g b unfolding authority_def by (auto simp: before_append)
  next
    case False
    then have q: "before CHR ''?'' rest = rest" "before CHR ''?'' (rest @ t) = rest @ t" using assms(4) by simp_all
    obtain r where r: "rest = ''//'' @ r"
      using g(4) q(1) by (auto simp: has_prefix_iff prefix_def)
    have "before CHR ''/'' (r @ t) = before CHR ''/'' r"
      using assms(2) by (cases t) (auto simp: before_append before_Cons)
    then show ?thesis using s g b q r unfolding authority_def by auto
  qed
qed

lemma append_path_same_target:
  assumes "parse_url raw = Some u" "u_scheme u \<noteq> []" "u_host u \<noteq> []"
    and "has_prefix ''/'' t" "CHR ''#'' \<notin> set t" "CHR ''?'' \<notin> set t"
    and "parse_url (raw @ t) = Some v"
  shows "v = u"
proof -
  obtain a where a: "authority raw (u_scheme u) a" "parse_authority a = Some (u_host u)"
    using parse_url_authority [OF assms(1-3)] by blast
  from authority_parse_url [OF authority_append [OF a(1) assms(4-6)] assms(7)] a(2)
  show ?thesis by simp
qed

end
