(* ===== verification/Config.thy ===== *)
theory Config
  imports Float64 Go_Url Frame_Queue
begin

text \<open>
  \<open>internal/config/config.go\<close>: the configuration record, its defaults, \<open>Load\<close> and \<open>validate\<close>.
  The YAML decoder is third-party code and an argument: given the bytes of the file and the
  configuration so far it returns the configuration with the fields of the document overwritten, or
  an error. So are the user's home directory (\<open>os.UserHomeDir\<close>) and the result of reading the file.
\<close>

section \<open>Data\<close>

record capture_config =
  fps :: f64
  idle_fps :: f64
  idle_threshold_sec :: int
  queue_depth :: int
  hash_threshold :: int
  backend :: string

record resource_budget_config =
  max_cpu_pct :: int
  max_gpu_pct :: int
  max_inference_per_min :: int
  cpu_idle_threshold :: int
  gpu_idle_threshold :: int

record inference_config =
  ollama_url :: string
  model :: string
  model_digest :: string
  embed_model :: string
  chat_model :: string
  timeout_sec :: int
  max_retries :: int

record semantic_filter_config =
  min_engagement_score :: f64
  min_dwell_seconds :: f64
  graph_coherence_threshold :: f64
  isolated_node_score :: f64

record storage_config =
  data_dir :: string
  retention_days :: int
  max_retention_days :: int
  secure_delete :: bool

record logging_config =
  log_level :: string
  log_file :: string

record config =
  cfg_capture :: capture_config
  cfg_resource_budget :: resource_budget_config
  cfg_inference :: inference_config
  cfg_semantic_filter :: semantic_filter_config
  cfg_storage :: storage_config
  cfg_logging :: logging_config

definition config_defaults :: config where
  "config_defaults =
     \<lparr>cfg_capture = \<lparr>fps = Fin 2, idle_fps = Fin (1/2), idle_threshold_sec = 30, queue_depth = 100,
                     hash_threshold = 10, backend = ''gdi''\<rparr>,
      cfg_resource_budget = \<lparr>max_cpu_pct = 20, max_gpu_pct = 60, max_inference_per_min = 6,
                             cpu_idle_threshold = 40, gpu_idle_threshold = 60\<rparr>,
      cfg_inference = \<lparr>ollama_url = ''http://127.0.0.1:11434'', model = ''llava:7b'', model_digest = [],
                       embed_model = ''nomic-embed-text'', chat_model = [], timeout_sec = 120,
                       max_retries = 2\<rparr>,
      cfg_semantic_filter = \<lparr>min_engagement_score = Fin (fl64 (3/10)), min_dwell_seconds = Fin 3,
                             graph_coherence_threshold = Fin (fl64 (4/10)),
                             isolated_node_score = Fin (fl64 (8/10))\<rparr>,
      cfg_storage = \<lparr>data_dir = ''~/.local/share/digitalghost'', retention_days = 90,
                     max_retention_days = 730, secure_delete = True\<rparr>,
      cfg_logging = \<lparr>log_level = ''info'', log_file = ''~/.local/share/digitalghost/dg.log''\<rparr>\<rparr>"

section \<open>Validation\<close>

datatype config_error =
    MaxCPUTooHigh int | MaxCPUTooLow | MaxGPUTooHigh int
  | RetentionAboveMax int int | MaxRetentionTooHigh int | RetentionTooLow
  | BadFPS f64 | BadBackend string | BadQueueDepth int | BadMinEngagement | BadTimeout int
  | EmptyOllamaURL | RemoteOllamaURL string | EmptyModel | EmptyEmbedModel
  | ReadError string | ParseError string

text \<open>The test on the URL: plain HTTP to a loopback name.\<close>

definition is_local_url :: "string \<Rightarrow> bool" where
  "is_local_url s =
     (case parse_url s of
        None \<Rightarrow> False
      | Some u \<Rightarrow> u_scheme u = ''http'' \<and> (url_hostname u = ''127.0.0.1'' \<or> url_hostname u = ''localhost''))"

definition validate :: "config \<Rightarrow> config_error option" where
  "validate c =
     (let rb = cfg_resource_budget c; st = cfg_storage c; ca = cfg_capture c;
          sf = cfg_semantic_filter c; inf = cfg_inference c in
      if max_cpu_pct rb > 80 then Some (MaxCPUTooHigh (max_cpu_pct rb))
      else if max_cpu_pct rb < 1 then Some MaxCPUTooLow
      else if max_gpu_pct rb > 80 then Some (MaxGPUTooHigh (max_gpu_pct rb))
      else if retention_days st > max_retention_days st
        then Some (RetentionAboveMax (retention_days st) (max_retention_days st))
      else if max_retention_days st > 730 then Some (MaxRetentionTooHigh (max_retention_days st))
      else if retention_days st < 1 then Some RetentionTooLow
      else if f64_le (fps ca) (Fin 0) \<or> f64_less (Fin 30) (fps ca) then Some (BadFPS (fps ca))
      else if backend ca \<noteq> [] \<and> backend ca \<noteq> ''gdi'' \<and> backend ca \<noteq> ''dxgi'' then Some (BadBackend (backend ca))
      else if queue_depth ca < 10 \<or> queue_depth ca > 10000 then Some (BadQueueDepth (queue_depth ca))
      else if f64_less (min_engagement_score sf) (Fin 0) \<or> f64_less (Fin 1) (min_engagement_score sf)
        then Some BadMinEngagement
      else if timeout_sec inf < 5 \<or> timeout_sec inf > 300 then Some (BadTimeout (timeout_sec inf))
      else if ollama_url inf = [] then Some EmptyOllamaURL
      else if \<not> is_local_url (ollama_url inf) then Some (RemoteOllamaURL (ollama_url inf))
      else if model inf = [] then Some EmptyModel
      else if embed_model inf = [] then Some EmptyEmbedModel
      else None)"

section \<open>Loading\<close>

text \<open>\<open>home\<close> is \<open>None\<close> when \<open>os.UserHomeDir\<close> fails.\<close>

definition expand_home :: "string option \<Rightarrow> string \<Rightarrow> string" where
  "expand_home home path =
     (case path of
        [] \<Rightarrow> path
      | c # cs \<Rightarrow>
          if c \<noteq> CHR ''~'' then path
          else (case cs of
                  d # t \<Rightarrow>
                    if d \<noteq> CHR ''/'' \<and> d \<noteq> CHR 0x5C then path
                    else (case home of None \<Rightarrow> path | Some h \<Rightarrow> join_path h t)
                | [] \<Rightarrow> (case home of None \<Rightarrow> path | Some h \<Rightarrow> h)))"

datatype read_result = NotExist | ReadFailed string | Contents bytes

definition expand_config :: "string option \<Rightarrow> config \<Rightarrow> config" where
  "expand_config home c =
     c\<lparr>cfg_storage := (cfg_storage c)\<lparr>data_dir := expand_home home (data_dir (cfg_storage c))\<rparr>,
       cfg_logging := (cfg_logging c)\<lparr>log_file := expand_home home (log_file (cfg_logging c))\<rparr>\<rparr>"

text \<open>
  \<open>Load(path)\<close>: \<open>read\<close> is the result of reading a path, \<open>unmarshal\<close> the YAML decoder, which
  writes into the configuration it is given.
\<close>

definition load_config ::
  "string option \<Rightarrow> (string \<Rightarrow> read_result) \<Rightarrow> (bytes \<Rightarrow> config \<Rightarrow> string + config) \<Rightarrow> string
     \<Rightarrow> config_error + config" where
  "load_config home read unmarshal path =
     (let cfg = config_defaults in
      case read (expand_home home path) of
        ReadFailed e \<Rightarrow> Inl (ReadError e)
      | NotExist \<Rightarrow>
          (case validate cfg of Some e \<Rightarrow> Inl e | None \<Rightarrow> Inr (expand_config home cfg))
      | Contents d \<Rightarrow>
          (case unmarshal d cfg of
             Inl e \<Rightarrow> Inl (ParseError e)
           | Inr cfg1 \<Rightarrow>
               (case validate cfg1 of Some e \<Rightarrow> Inl e | None \<Rightarrow> Inr (expand_config home cfg1))))"

definition data_dir_path :: "config \<Rightarrow> string \<Rightarrow> string" where
  "data_dir_path c sub = join_path (data_dir (cfg_storage c)) sub"

section \<open>Lemmas\<close>

lemma validate_None:
  assumes "validate c = None"
  shows "1 \<le> max_cpu_pct (cfg_resource_budget c)" "max_cpu_pct (cfg_resource_budget c) \<le> 80"
    "max_gpu_pct (cfg_resource_budget c) \<le> 80"
    "1 \<le> retention_days (cfg_storage c)" "retention_days (cfg_storage c) \<le> 730"
    "10 \<le> queue_depth (cfg_capture c)" "queue_depth (cfg_capture c) \<le> 10000"
    "5 \<le> timeout_sec (cfg_inference c)" "timeout_sec (cfg_inference c) \<le> 300"
    "model (cfg_inference c) \<noteq> []" "embed_model (cfg_inference c) \<noteq> []"
    "is_local_url (ollama_url (cfg_inference c))"
    "backend (cfg_capture c) \<in> {[], ''gdi'', ''dxgi''}"
    "fps (cfg_capture c) = NaN \<or> f64_less (Fin 0) (fps (cfg_capture c)) \<and> f64_le (fps (cfg_capture c)) (Fin 30)"
    "min_engagement_score (cfg_semantic_filter c) = NaN
      \<or> f64_le (Fin 0) (min_engagement_score (cfg_semantic_filter c))
        \<and> f64_le (min_engagement_score (cfg_semantic_filter c)) (Fin 1)"
  using assms by (auto simp: validate_def Let_def f64_not_less f64_not_le split: if_splits)

lemma load_config_ok:
  assumes "load_config home read unmarshal path = Inr c"
  shows "\<exists>c0. validate c0 = None \<and> c = expand_config home c0"
  using assms by (auto simp: load_config_def Let_def split: read_result.splits sum.splits option.splits)

lemma expand_config_sel [simp]:
  "cfg_capture (expand_config h c) = cfg_capture c"
  "cfg_resource_budget (expand_config h c) = cfg_resource_budget c"
  "cfg_inference (expand_config h c) = cfg_inference c"
  "cfg_semantic_filter (expand_config h c) = cfg_semantic_filter c"
  "retention_days (cfg_storage (expand_config h c)) = retention_days (cfg_storage c)"
  by (simp_all add: expand_config_def)

lemma fl64_three_tenths: "0 \<le> fl64 (3/10)" "fl64 (3/10) \<le> 1"
  using fl64_mono [of 0 "3/10"] fl64_mono [of "3/10" 1] by simp_all

lemma default_url_local: "is_local_url ''http://127.0.0.1:11434''"
  by code_simp

lemma defaults_valid: "validate config_defaults = None"
  using fl64_three_tenths default_url_local by (simp add: validate_def config_defaults_def)

lemma local_url_parts:
  assumes "is_local_url s"
  obtains u where "parse_url s = Some u" "u_scheme u = ''http''" "u_host u \<noteq> []"
    "url_hostname u \<in> {''127.0.0.1'', ''localhost''}"
proof -
  from assms obtain u where u: "parse_url s = Some u" "u_scheme u = ''http''"
    "url_hostname u \<in> {''127.0.0.1'', ''localhost''}"
    by (auto simp: is_local_url_def split: option.splits)
  moreover have "u_host u \<noteq> []" using u(3) by (auto simp: url_hostname_def)
  ultimately show thesis using that by blast
qed

section \<open>Properties\<close>

text \<open>
  The air gap: when a configuration has been loaded, every request URL the client builds from
  it (the configured base with an API path appended) that parses at all has the scheme \<open>http\<close> and
  a loopback host. User information, ports, queries and fragments in the configured value cannot
  redirect it elsewhere.
\<close>

theorem accepted_url_stays_local:
  assumes "load_config home read unmarshal path = Inr c"
    and "has_prefix ''/'' api" "CHR ''#'' \<notin> set api" "CHR ''?'' \<notin> set api"
    and "parse_url (ollama_url (cfg_inference c) @ api) = Some v"
  shows "u_scheme v = ''http'' \<and> url_hostname v \<in> {''127.0.0.1'', ''localhost''}"
proof -
  obtain c0 where "validate c0 = None" "c = expand_config home c0" using load_config_ok [OF assms(1)] by blast
  then have "is_local_url (ollama_url (cfg_inference c))" using validate_None(12) by simp
  then obtain u where u: "parse_url (ollama_url (cfg_inference c)) = Some u" "u_scheme u = ''http''"
    "u_host u \<noteq> []" "url_hostname u \<in> {''127.0.0.1'', ''localhost''}"
    by (rule local_url_parts)
  then have "v = u" using append_path_same_target [OF u(1) _ u(3) assms(2-5)] by simp
  with u show ?thesis by simp
qed

theorem accepted_url_stays_local_witness:
  "\<exists>v. parse_url (''http://127.0.0.1:11434'' @ ''/api/generate'') = Some v
     \<and> u_scheme v = ''http'' \<and> url_hostname v \<in> {''127.0.0.1'', ''localhost''}"
proof -
  let ?c = "expand_config None config_defaults"
  have l: "load_config None (\<lambda>_. NotExist) (\<lambda>_ c. Inr c) ''x'' = Inr ?c"
    by (simp add: load_config_def defaults_valid)
  have o: "ollama_url (cfg_inference ?c) = ''http://127.0.0.1:11434''" by (simp add: config_defaults_def)
  have p: "parse_url (''http://127.0.0.1:11434'' @ ''/api/generate'')
             = Some \<lparr>u_scheme = ''http'', u_host = ''127.0.0.1:11434''\<rparr>"
    by code_simp
  have api: "has_prefix ''/'' ''/api/generate''" "CHR ''#'' \<notin> set ''/api/generate''"
    "CHR ''?'' \<notin> set ''/api/generate''" by code_simp+
  from accepted_url_stays_local [OF l api, unfolded o, OF p] p show ?thesis by blast
qed

text \<open>
  C24. What a loaded configuration guarantees to the rest of the daemon, whatever the file says:
  the resource ceilings, the two-year retention maximum, a queue the capture loop can push into, a
  request timeout and model names. A frame rate that is a number lies in the documented range.
\<close>

theorem loaded_config_is_safe:
  assumes "load_config home read unmarshal path = Inr c"
  shows "1 \<le> max_cpu_pct (cfg_resource_budget c) \<and> max_cpu_pct (cfg_resource_budget c) \<le> 80
     \<and> max_gpu_pct (cfg_resource_budget c) \<le> 80
     \<and> 1 \<le> retention_days (cfg_storage c) \<and> retention_days (cfg_storage c) \<le> 730
     \<and> 5 \<le> timeout_sec (cfg_inference c) \<and> timeout_sec (cfg_inference c) \<le> 300
     \<and> model (cfg_inference c) \<noteq> [] \<and> embed_model (cfg_inference c) \<noteq> []
     \<and> (fps (cfg_capture c) = NaN
        \<or> f64_less (Fin 0) (fps (cfg_capture c)) \<and> f64_le (fps (cfg_capture c)) (Fin 30))
     \<and> (\<exists>q. new_queue (queue_depth (cfg_capture c)) = Some q \<and> queue_inv q
          \<and> (\<forall>f::'a. push f q \<noteq> None))"
proof -
  obtain c0 where c0: "validate c0 = None" "c = expand_config home c0" using load_config_ok [OF assms] by blast
  note v = validate_None [OF c0(1)]
  obtain q :: "'a queue" where q: "new_queue (queue_depth (cfg_capture c)) = Some q"
    using v(6) c0(2) by (simp add: new_queue_def)
  have "queue_inv q" using new_queue_inv [OF _ q] v(6) c0(2) by simp
  moreover from this have "push f q \<noteq> None" for f using push_ok [of q f] by auto
  ultimately show ?thesis using v c0(2) q by simp
qed

theorem loaded_config_is_safe_witness:
  "1 \<le> retention_days (cfg_storage (expand_config (Some ''/home/me'') config_defaults))
   \<and> data_dir (cfg_storage (expand_config (Some ''/home/me'') config_defaults)) = ''/home/me/.local/share/digitalghost''"
proof -
  have "load_config (Some ''/home/me'') (\<lambda>_. NotExist) (\<lambda>_ c. Inr c) ''x''
          = Inr (expand_config (Some ''/home/me'') config_defaults)"
    by (simp add: load_config_def defaults_valid)
  from loaded_config_is_safe [OF this]
  have "1 \<le> retention_days (cfg_storage (expand_config (Some ''/home/me'') config_defaults))" by blast
  moreover have "expand_home (Some ''/home/me'') ''~/.local/share/digitalghost'' = ''/home/me/.local/share/digitalghost''"
    by code_simp
  ultimately show ?thesis by (simp add: expand_config_def config_defaults_def)
qed

text \<open>
  What \<open>validate\<close> lets through: a NaN frame rate and a NaN engagement threshold satisfy every
  comparison it makes, and the rate limit, the retry count and the coherence settings are not
  checked at all.
\<close>

theorem validate_accepts_unusable:
  "validate (config_defaults
     \<lparr>cfg_capture := (cfg_capture config_defaults)\<lparr>fps := NaN\<rparr>,
      cfg_semantic_filter := (cfg_semantic_filter config_defaults)\<lparr>min_engagement_score := NaN\<rparr>,
      cfg_resource_budget := (cfg_resource_budget config_defaults)\<lparr>max_inference_per_min := 0\<rparr>,
      cfg_inference := (cfg_inference config_defaults)\<lparr>max_retries := - 1\<rparr>\<rparr>) = None"
  using default_url_local by (simp add: validate_def config_defaults_def)

end
