(* ===== verification/Governor.thy ===== *)
theory Governor
  imports Config Machines
begin

text \<open>
  \<open>internal/inference/throttle.go\<close> with its platform files: the resource governor. Its state is
  the record \<open>governor\<close>; what runs concurrently (the metrics loop, the refill loop, \<open>Acquire\<close> in
  the inference goroutine, \<open>DrainBucket\<close>) is an executable labelled transition function over the
  governor and the program counter of \<open>Acquire\<close>.

  Counters are \<open>int64\<close>: differences and products are wrapped with \<open>wrap64\<close>, the division
  truncates. The token channel is the number of tokens it holds.
\<close>

section \<open>State\<close>

text \<open>Where a background loop is: before its first reading, in its \<open>select\<close>, returned.\<close>

datatype loop_pc = LoopStart | LoopSelect | LoopReturned

record governor =
  g_cfg :: resource_budget_config
  cpu_percent :: int
  gpu_percent :: int
  prev_cpu_total :: int
  prev_cpu_idle :: int
  tokens :: nat
  token_cap :: nat
  g_closed :: bool
  metrics_pc :: loop_pc
  refill_pc :: loop_pc

text \<open>
  \<open>NewGovernor\<close>: a negative rate makes \<open>make(chan)\<close> panic, a rate of zero makes the first send
  block for ever, since nothing receives from the channel yet.
\<close>

datatype start_result = StartPanics | StartBlocks | Started governor

definition new_governor :: "resource_budget_config \<Rightarrow> start_result" where
  "new_governor c =
     (if max_inference_per_min c < 0 then StartPanics
      else if max_inference_per_min c = 0 then StartBlocks
      else Started \<lparr>g_cfg = c, cpu_percent = 0, gpu_percent = 0, prev_cpu_total = 0, prev_cpu_idle = 0,
                    tokens = 1, token_cap = nat (max_inference_per_min c), g_closed = False, metrics_pc = LoopStart, refill_pc = LoopStart\<rparr>)"

section \<open>Metrics\<close>

definition cpu_delta_percent :: "governor \<Rightarrow> int \<Rightarrow> int \<Rightarrow> int" where
  "cpu_delta_percent g tot idle =
     (if prev_cpu_total g > 0 then
        (let dtotal = wrap64 (tot - prev_cpu_total g); didle = wrap64 (idle - prev_cpu_idle g)
         in if dtotal > 0 then go_div (wrap64 (100 * wrap64 (dtotal - didle))) dtotal else 0)
      else 0)"

definition update_metrics :: "int \<times> int \<Rightarrow> int \<Rightarrow> governor \<Rightarrow> governor" where
  "update_metrics raw gpu g =
     (case raw of (tot, idle) \<Rightarrow>
        g\<lparr>cpu_percent := cpu_delta_percent g tot idle, gpu_percent := gpu,
          prev_cpu_total := tot, prev_cpu_idle := idle\<rparr>)"

text \<open>The sum over the fields of the first line of \<open>/proc/stat\<close>; \<open>None\<close> for a field that is no number.\<close>

fun sum_fields :: "nat \<Rightarrow> int \<times> int \<Rightarrow> string list \<Rightarrow> (int \<times> int) option" where
  "sum_fields i acc [] = Some acc"
| "sum_fields i (tot, idle) (f # fs) =
     (case parse_int f of
        None \<Rightarrow> None
      | Some v \<Rightarrow> sum_fields (i + 1) (wrap64 (tot + v), if i = 3 then v else idle) fs)"

definition read_cpu_raw_unix :: "string option \<Rightarrow> int \<times> int" where
  "read_cpu_raw_unix proc_stat =
     (case proc_stat of
        None \<Rightarrow> (0, 0)
      | Some dat \<Rightarrow>
          (let fs = split_fields (hd (split_first CHR 0x0A dat)) in
           if length fs < 5 \<or> hd fs \<noteq> ''cpu'' then (0, 0)
           else (case sum_fields 0 (0, 0) (tl fs) of None \<Rightarrow> (0, 0) | Some r \<Rightarrow> r)))"

text \<open>\<open>readGPUPercent\<close>: the contents of the three sysfs files and the output of \<open>nvidia-smi\<close>.\<close>

fun first_number :: "string option list \<Rightarrow> int option" where
  "first_number [] = None"
| "first_number (f # fs) =
     (case f of
        None \<Rightarrow> first_number fs
      | Some dat \<Rightarrow> (case parse_int (trim_space dat) of Some v \<Rightarrow> Some v | None \<Rightarrow> first_number fs))"

definition read_nvidia :: "string option \<Rightarrow> int" where
  "read_nvidia out =
     (case out of
        None \<Rightarrow> 0
      | Some txt \<Rightarrow>
          (case parse_int (trim_space (hd (split_first CHR 0x0A (trim_space txt)))) of
             Some v \<Rightarrow> v | None \<Rightarrow> 0))"

definition read_gpu_percent_unix :: "string option \<Rightarrow> string option \<Rightarrow> string option \<Rightarrow> string option \<Rightarrow> int" where
  "read_gpu_percent_unix card0 card1 amd nvidia =
     (case first_number [card0, card1, amd] of Some v \<Rightarrow> v | None \<Rightarrow> read_nvidia nvidia)"

definition read_gpu_percent_windows :: "string option \<Rightarrow> int" where
  "read_gpu_percent_windows nvidia = read_nvidia nvidia"

record win_filetime =
  low_date_time :: "32 word"
  high_date_time :: "32 word"

definition file_time_to_int64 :: "win_filetime \<Rightarrow> 64 word" where
  "file_time_to_int64 ft = or (push_bit 32 (ucast (high_date_time ft))) (ucast (low_date_time ft))"

text \<open>\<open>readCPURaw\<close> on Windows: \<open>None\<close> when \<open>GetSystemTimes\<close> fails; idle, kernel, user time otherwise.\<close>

definition read_cpu_raw_windows :: "(win_filetime \<times> win_filetime \<times> win_filetime) option \<Rightarrow> int \<times> int" where
  "read_cpu_raw_windows r =
     (case r of
        None \<Rightarrow> (0, 0)
      | Some (idle, kern, user) \<Rightarrow>
          (sint (file_time_to_int64 kern + file_time_to_int64 user), sint (file_time_to_int64 idle)))"

section \<open>Tokens\<close>

text \<open>The refill interval in nanoseconds, \<open>60 s / max_inference_per_min\<close> computed in \<open>float64\<close>.\<close>

definition refill_interval :: "int \<Rightarrow> int" where
  "refill_interval n = \<lfloor>fl64 (60 * 1000000000 / fl64 (of_int n))\<rfloor>"

definition refill :: "governor \<Rightarrow> governor" where
  "refill g = (if tokens g < token_cap g then g\<lparr>tokens := tokens g + 1\<rparr> else g)"

fun drain :: "nat \<Rightarrow> nat" where
  "drain 0 = 0"
| "drain (Suc n) = drain n"

definition drain_bucket :: "governor \<Rightarrow> governor" where
  "drain_bucket g = g\<lparr>tokens := drain (tokens g)\<rparr>"

definition close_governor :: "governor \<Rightarrow> governor option" where
  "close_governor g = (if g_closed g then None else Some (g\<lparr>g_closed := True\<rparr>))"

section \<open>Acquire\<close>

text \<open>
  The program counter of \<open>Acquire\<close>: before the two loads, between them, before the comparisons, in
  one of the five-second waits, at the non-blocking and at the blocking receive, returned.
\<close>

datatype acquire =
    AcqIdle | AcqStart | AcqHaveCPU int | AcqLoaded int int | AcqSleep | AcqTryToken | AcqWaitToken
  | AcqDone | AcqErr

record gov_state =
  gov :: governor
  acq :: acquire

datatype gov_event =
    EvCall | EvLoadCPU | EvLoadGPU | EvCheck | EvTimer | EvCtxDone | EvNoToken | EvTake
  | EvTick | EvRefillStop | EvMetrics "int \<times> int" int | EvMetricsStop | EvDrain | EvClose

definition acquire_step :: "governor \<Rightarrow> gov_event \<Rightarrow> acquire \<Rightarrow> (nat \<times> acquire) option" where
  "acquire_step g ev a =
     (case a of
        AcqStart \<Rightarrow> if ev = EvLoadCPU then Some (tokens g, AcqHaveCPU (cpu_percent g)) else None
      | AcqHaveCPU c \<Rightarrow> if ev = EvLoadGPU then Some (tokens g, AcqLoaded c (gpu_percent g)) else None
      | AcqLoaded c u \<Rightarrow>
          if ev \<noteq> EvCheck then None
          else if c > cpu_idle_threshold (g_cfg g) then Some (tokens g, AcqSleep)
          else if u > gpu_idle_threshold (g_cfg g) then Some (tokens g, AcqSleep)
          else Some (tokens g, AcqTryToken)
      | AcqSleep \<Rightarrow>
          if ev = EvTimer then Some (tokens g, AcqStart)
          else if ev = EvCtxDone then Some (tokens g, AcqErr) else None
      | AcqTryToken \<Rightarrow>
          if ev = EvTake \<and> tokens g > 0 then Some (tokens g - 1, AcqDone)
          else if ev = EvNoToken \<and> tokens g = 0 then Some (0, AcqWaitToken)
          else if ev = EvCtxDone then Some (tokens g, AcqErr) else None
      | AcqWaitToken \<Rightarrow>
          if ev = EvTake \<and> tokens g > 0 then Some (tokens g - 1, AcqDone)
          else if ev = EvCtxDone then Some (tokens g, AcqErr) else None
      | _ \<Rightarrow> if ev = EvCall then Some (tokens g, AcqStart) else None)"

text \<open>
  The two background loops. The metrics loop takes one reading before its first \<open>select\<close>; once the
  governor is closed a \<open>select\<close> may still find its ticker ready before it finds the channel closed.
\<close>

definition metrics_step :: "(int \<times> int) \<times> int \<Rightarrow> governor \<Rightarrow> governor option" where
  "metrics_step m g =
     (case metrics_pc g of
        LoopReturned \<Rightarrow> None
      | _ \<Rightarrow> Some ((update_metrics (fst m) (snd m) g)\<lparr>metrics_pc := LoopSelect\<rparr>))"

definition metrics_stop :: "governor \<Rightarrow> governor option" where
  "metrics_stop g =
     (if metrics_pc g = LoopSelect \<and> g_closed g then Some (g\<lparr>metrics_pc := LoopReturned\<rparr>) else None)"

definition refill_step :: "governor \<Rightarrow> governor option" where
  "refill_step g =
     (if max_inference_per_min (g_cfg g) \<le> 0 \<or> refill_pc g = LoopReturned then None
      else Some ((refill g)\<lparr>refill_pc := LoopSelect\<rparr>))"

definition refill_stop :: "governor \<Rightarrow> governor option" where
  "refill_stop g =
     (if refill_pc g \<noteq> LoopReturned \<and> (max_inference_per_min (g_cfg g) \<le> 0 \<or> g_closed g)
      then Some (g\<lparr>refill_pc := LoopReturned\<rparr>) else None)"

definition gov_step :: "gov_event \<Rightarrow> gov_state \<Rightarrow> gov_state option" where
  "gov_step ev s =
     (case ev of
        EvTick \<Rightarrow> map_option (\<lambda>g. s\<lparr>gov := g\<rparr>) (refill_step (gov s))
      | EvRefillStop \<Rightarrow> map_option (\<lambda>g. s\<lparr>gov := g\<rparr>) (refill_stop (gov s))
      | EvMetrics raw gpu \<Rightarrow> map_option (\<lambda>g. s\<lparr>gov := g\<rparr>) (metrics_step (raw, gpu) (gov s))
      | EvMetricsStop \<Rightarrow> map_option (\<lambda>g. s\<lparr>gov := g\<rparr>) (metrics_stop (gov s))
      | EvDrain \<Rightarrow> Some (s\<lparr>gov := drain_bucket (gov s)\<rparr>)
      | EvClose \<Rightarrow> map_option (\<lambda>g. s\<lparr>gov := g\<rparr>) (close_governor (gov s))
      | _ \<Rightarrow> map_option (\<lambda>(n, a). s\<lparr>gov := (gov s)\<lparr>tokens := n\<rparr>, acq := a\<rparr>) (acquire_step (gov s) ev (acq s)))"

fun gov_run :: "gov_event list \<Rightarrow> gov_state \<Rightarrow> gov_state option" where
  "gov_run [] s = Some s"
| "gov_run (ev # evs) s = (case gov_step ev s of None \<Rightarrow> None | Some t \<Rightarrow> gov_run evs t)"

text \<open>The calls of \<open>Acquire\<close> that return without error during a run.\<close>

fun admissions :: "gov_event list \<Rightarrow> gov_state \<Rightarrow> nat" where
  "admissions [] s = 0"
| "admissions (ev # evs) s =
     (case gov_step ev s of
        None \<Rightarrow> 0
      | Some t \<Rightarrow> (if acq s \<noteq> AcqDone \<and> acq t = AcqDone then 1 else 0) + admissions evs t)"

definition start_gov :: "governor \<Rightarrow> gov_state" where
  "start_gov g = \<lparr>gov = g, acq = AcqIdle\<rparr>"

section \<open>Lemmas\<close>

lemmas loop_steps = metrics_step_def metrics_stop_def refill_step_def refill_stop_def

lemma drain_0 [simp]: "drain n = 0"
  by (induction n) simp_all

lemma acquire_step_tokens:
  "acquire_step g ev a = Some (n, b) \<Longrightarrow> n + (if ev = EvTake then 1 else 0) = tokens g"
  by (auto simp: acquire_step_def split: acquire.splits if_splits)

text \<open>What one step does to the bucket.\<close>

lemma gov_step_tokens:
  assumes "gov_step ev s = Some t" "tokens (gov s) \<le> token_cap (gov s)"
  shows "tokens (gov t) \<le> token_cap (gov t) \<and> token_cap (gov t) = token_cap (gov s) \<and> g_cfg (gov t) = g_cfg (gov s)
     \<and> tokens (gov t) + (if ev = EvTake then 1 else 0) \<le> tokens (gov s) + (if ev = EvTick then 1 else 0)"
proof (cases "ev \<in> {EvTick, EvRefillStop, EvMetricsStop, EvDrain, EvClose} \<or> (\<exists>r u. ev = EvMetrics r u)")
  case True
  with assms show ?thesis
    by (auto simp: gov_step_def loop_steps refill_def drain_bucket_def close_governor_def update_metrics_def
        split: if_splits prod.splits loop_pc.splits)
next
  case False
  with assms(1) obtain n a where "acquire_step (gov s) ev (acq s) = Some (n, a)"
    and t: "t = s\<lparr>gov := (gov s)\<lparr>tokens := n\<rparr>, acq := a\<rparr>"
    by (cases ev) (auto simp: gov_step_def)
  from acquire_step_tokens [OF this(1)] show ?thesis using t assms(2) False by (auto split: if_splits)
qed

text \<open>The governor as a state machine that never holds more tokens than its bucket.\<close>

interpretation governing: invariant_machine gov_step gov_run "\<lambda>s. tokens (gov s) \<le> token_cap (gov s)"
  by unfold_locales (auto split: Option.bind_split option.split dest: gov_step_tokens)

lemma gov_run_tokens:
  assumes "gov_run es s = Some t" "tokens (gov s) \<le> token_cap (gov s)"
  shows "tokens (gov t) \<le> token_cap (gov t) \<and> token_cap (gov t) = token_cap (gov s) \<and> g_cfg (gov t) = g_cfg (gov s)
     \<and> tokens (gov t) + count_list es EvTake \<le> tokens (gov s) + count_list es EvTick"
  using assms(1)
proof (induction es t rule: governing.runs_trace)
  case (event es u ev v)
  then show ?case using gov_step_tokens [OF event(2)] by (auto split: if_splits)
qed (use assms(2) in simp)

text \<open>Every call that is admitted has taken a token out of the bucket.\<close>

lemma acquire_step_done:
  "acquire_step g ev a = Some (n, AcqDone) \<Longrightarrow> n + 1 = tokens g"
  by (auto simp: acquire_step_def split: acquire.splits if_splits)

lemma gov_step_admits:
  assumes "gov_step ev s = Some t"
  shows "tokens (gov t) + (if acq s \<noteq> AcqDone \<and> acq t = AcqDone then 1 else 0) \<le> tokens (gov s) + (if ev = EvTick then 1 else 0)"
proof (cases "ev \<in> {EvTick, EvRefillStop, EvMetricsStop, EvDrain, EvClose} \<or> (\<exists>r u. ev = EvMetrics r u)")
  case True
  with assms show ?thesis
    by (auto simp: gov_step_def loop_steps refill_def drain_bucket_def close_governor_def update_metrics_def
        split: if_splits prod.splits loop_pc.splits)
next
  case False
  with assms(1) obtain n a where a: "acquire_step (gov s) ev (acq s) = Some (n, a)"
    and t: "t = s\<lparr>gov := (gov s)\<lparr>tokens := n\<rparr>, acq := a\<rparr>"
    by (cases ev) (auto simp: gov_step_def)
  from a have "n \<le> tokens (gov s)" using acquire_step_tokens by fastforce
  then show ?thesis using t a acquire_step_done [of "gov s" ev "acq s" n] False by auto
qed

lemma admissions_bound:
  "gov_run es s = Some t \<Longrightarrow> tokens (gov t) + admissions es s \<le> tokens (gov s) + count_list es EvTick"
proof (induction es arbitrary: s)
  case (Cons ev es)
  then obtain u where u: "gov_step ev s = Some u" "gov_run es u = Some t" by (auto split: option.splits)
  from Cons.IH [OF u(2)] gov_step_admits [OF u(1)] show ?case using u(1) by (auto split: if_splits)
qed simp

lemma new_governor_tokens:
  "new_governor c = Started g \<Longrightarrow> tokens g = 1 \<and> token_cap g = nat (max_inference_per_min c)
     \<and> 1 \<le> max_inference_per_min c \<and> g_cfg g = c \<and> tokens g \<le> token_cap g"
  by (auto simp: new_governor_def split: if_splits)

text \<open>Where the values compared by \<open>Acquire\<close> come from: earlier states of the same run.\<close>

definition saw :: "(governor \<Rightarrow> bool) \<Rightarrow> gov_event list \<Rightarrow> gov_state \<Rightarrow> bool" where
  "saw P es s \<longleftrightarrow> (\<exists>k \<le> length es. \<exists>u. gov_run (take k es) s = Some u \<and> P (gov u))"

lemma saw_snoc: "saw P es s \<Longrightarrow> saw P (es @ [ev]) s"
  unfolding saw_def by (metis append_Nil2 diff_is_0_eq le_SucI length_append_singleton take0 take_append)

lemma saw_now: "gov_run es s = Some u \<Longrightarrow> P (gov u) \<Longrightarrow> saw P (es @ [ev]) s"
  unfolding saw_def by (intro exI [of _ "length es"]) auto

definition admitted :: "gov_event list \<Rightarrow> gov_state \<Rightarrow> resource_budget_config \<Rightarrow> bool" where
  "admitted es s c \<longleftrightarrow> saw (\<lambda>g. cpu_percent g \<le> cpu_idle_threshold c) es s
                    \<and> saw (\<lambda>g. gpu_percent g \<le> gpu_idle_threshold c) es s"

lemma admitted_snoc: "admitted es s c \<Longrightarrow> admitted (es @ [ev]) s c"
  by (simp add: admitted_def saw_snoc)

definition acq_history :: "gov_event list \<Rightarrow> gov_state \<Rightarrow> resource_budget_config \<Rightarrow> acquire \<Rightarrow> bool" where
  "acq_history es s c a =
     (case a of
        AcqHaveCPU x \<Rightarrow> saw (\<lambda>g. cpu_percent g = x) es s
      | AcqLoaded x y \<Rightarrow> saw (\<lambda>g. cpu_percent g = x) es s \<and> saw (\<lambda>g. gpu_percent g = y) es s
      | AcqTryToken \<Rightarrow> admitted es s c
      | AcqWaitToken \<Rightarrow> admitted es s c
      | AcqDone \<Rightarrow> admitted es s c
      | _ \<Rightarrow> True)"

lemma acq_history_snoc: "acq_history es s c a \<Longrightarrow> acq_history (es @ [ev]) s c a"
  by (auto simp: acq_history_def saw_snoc admitted_snoc split: acquire.splits)

lemma saw_imp: "saw P es s \<Longrightarrow> (\<And>g. P g \<Longrightarrow> Q g) \<Longrightarrow> saw Q es s"
  unfolding saw_def by blast

lemma acq_history_step:
  assumes "acquire_step g ev a = Some (n, b)" "acq_history es s (g_cfg g) a"
    "gov_run es s = Some u" "gov u = g"
  shows "acq_history (es @ [ev]) s (g_cfg g) b"
  using assms
proof (cases a)
  case AcqStart
  then show ?thesis using assms saw_now [OF assms(3), of "\<lambda>h. cpu_percent h = cpu_percent g" ev]
    by (auto simp: acquire_step_def acq_history_def split: if_splits)
next
  case (AcqHaveCPU c)
  then show ?thesis using assms saw_now [OF assms(3), of "\<lambda>h. gpu_percent h = gpu_percent g" ev]
    by (auto simp: acquire_step_def acq_history_def saw_snoc split: if_splits)
next
  case (AcqLoaded x y)
  then have h: "saw (\<lambda>h. cpu_percent h = x) es s" "saw (\<lambda>h. gpu_percent h = y) es s"
    using assms(2) by (simp_all add: acq_history_def)
  have "admitted es s (g_cfg g)" if "x \<le> cpu_idle_threshold (g_cfg g)" "y \<le> gpu_idle_threshold (g_cfg g)"
    unfolding admitted_def using saw_imp [OF h(1)] saw_imp [OF h(2)] that by simp
  then show ?thesis using assms(1) AcqLoaded
    by (auto simp: acquire_step_def acq_history_def intro: admitted_snoc split: if_splits)
qed (use assms in \<open>auto simp: acquire_step_def acq_history_def admitted_snoc split: if_splits\<close>)

lemma gov_run_history:
  assumes "gov_run es s = Some t" "tokens (gov s) \<le> token_cap (gov s)" "acq s = AcqIdle"
  shows "acq_history es s (g_cfg (gov s)) (acq t)"
  using assms(1)
proof (induction es t rule: governing.runs_trace)
  case start
  then show ?case using assms(3) by (simp add: acq_history_def)
next
  case (event es u ev v)
  have c: "g_cfg (gov u) = g_cfg (gov s)" using gov_run_tokens [OF event(1) assms(2)] by simp
  show ?case
  proof (cases "acq v = acq u")
    case True
    with acq_history_snoc [OF event(3)] show ?thesis by simp
  next
    case False
    then obtain n b where "acquire_step (gov u) ev (acq u) = Some (n, b)" "acq v = b"
      using event(2) by (cases ev) (auto simp: gov_step_def split: if_splits)
    with acq_history_step [OF this(1) event(3) [folded c] event(1) refl] c show ?thesis by simp
  qed
qed

section \<open>Integer facts\<close>

lemma cpu_delta_percent_exact:
  assumes "0 < prev_cpu_total g" "0 \<le> prev_cpu_idle g"
    and "prev_cpu_total g < tot" "prev_cpu_idle g \<le> idle" "idle - prev_cpu_idle g \<le> tot - prev_cpu_total g"
    and "100 * (tot - prev_cpu_total g) < 2 ^ 63"
  shows "cpu_delta_percent g tot idle =
     100 * ((tot - prev_cpu_total g) - (idle - prev_cpu_idle g)) div (tot - prev_cpu_total g)"
proof -
  let ?t = "tot - prev_cpu_total g" and ?i = "idle - prev_cpu_idle g"
  have r: "int64_range ?t" "int64_range ?i" "int64_range (?t - ?i)" "int64_range (100 * (?t - ?i))"
    using assms by (auto simp: int64_range_def)
  then show ?thesis using assms
    by (simp add: cpu_delta_percent_def Let_def go_div_nonneg)
qed

lemma cpu_delta_percent_bounds:
  assumes "0 \<le> i" "i \<le> t" "0 < (t :: int)"
  shows "0 \<le> 100 * (t - i) div t" "100 * (t - i) div t \<le> 100"
proof -
  show "0 \<le> 100 * (t - i) div t" using assms by (simp add: pos_imp_zdiv_nonneg_iff)
  have "100 * (t - i) div t \<le> 100 * t div t" using assms by (intro zdiv_mono1) auto
  then show "100 * (t - i) div t \<le> 100" using assms by simp
qed

lemma uint32_bounds: "0 \<le> uint (w :: 32 word)" "uint w < 2 ^ 32"
proof -
  have "uint w < 2 ^ LENGTH(32)" by (rule unsigned_less)
  then show "uint w < 2 ^ 32" by simp
qed simp

lemma uint_ucast_32_64: "uint (ucast (w :: 32 word) :: 64 word) = uint w"
  using uint32_bounds [of w] by (simp add: unsigned_ucast_eq take_bit_int_eq_self)

lemma file_time_value:
  "uint (file_time_to_int64 ft) = uint (high_date_time ft) * 2 ^ 32 + uint (low_date_time ft)"
proof -
  let ?h = "uint (high_date_time ft)" and ?l = "uint (low_date_time ft)"
  have p: "uint (push_bit 32 (ucast (high_date_time ft)) :: 64 word) = push_bit 32 ?h"
    unfolding unsigned_push_bit_eq uint_ucast_32_64 using uint32_bounds [of "high_date_time ft"]
    by (simp add: push_bit_eq_mult take_bit_int_eq_self)
  have l: "take_bit 32 ?l = ?l" using uint32_bounds [of "low_date_time ft"] by (simp add: take_bit_int_eq_self)
  have "or (push_bit 32 ?h) ?l = push_bit 32 ?h + take_bit 32 ?l"
    using concat_bit_eq [of 32 ?l ?h] concat_bit_def [of 32 ?l ?h] l by (simp add: or.commute)
  then show ?thesis using p l
    unfolding file_time_to_int64_def unsigned_or_eq uint_ucast_32_64 p by (simp add: push_bit_eq_mult)
qed

lemma refill_interval_pos:
  assumes "1 \<le> n" "n \<le> 2 ^ 32" shows "1 \<le> refill_interval n"
proof -
  have "fl64 (of_int n) = of_int n" using assms by (intro fl64_of_int) simp
  moreover have "1 \<le> 60 * 1000000000 / (of_int n :: real)" using assms by simp
  ultimately have "1 \<le> fl64 (60 * 1000000000 / fl64 (of_int n))" using fl64_mono [of 1] by simp
  then show ?thesis by (simp add: refill_interval_def le_floor_iff)
qed

section \<open>Properties\<close>

text \<open>
  C14. The rate limit: over every run of the governor, the calls of \<open>Acquire\<close> that return without error are at most the
  tokens in the bucket at the beginning plus the refill ticks, so from the start of the daemon at
  most one more than the ticks, and in any later stretch at most \<open>max_inference_per_min\<close> more.
\<close>

theorem rate_limit:
  assumes "new_governor c = Started g"
    and "gov_run es (start_gov g) = Some s" and "gov_run fs s = Some t"
  shows "admissions es (start_gov g) \<le> 1 + count_list es EvTick
     \<and> int (admissions fs s) \<le> max_inference_per_min c + int (count_list fs EvTick)
     \<and> tokens (gov t) \<le> nat (max_inference_per_min c)"
proof -
  note g = new_governor_tokens [OF assms(1)]
  then have s0: "tokens (gov (start_gov g)) \<le> token_cap (gov (start_gov g))" by (simp add: start_gov_def)
  note e = gov_run_tokens [OF assms(2) s0]
  then have "tokens (gov s) \<le> token_cap (gov s)" by blast
  note f = gov_run_tokens [OF assms(3) this]
  have "admissions fs s \<le> nat (max_inference_per_min c) + count_list fs EvTick"
    using admissions_bound [OF assms(3)] e g by (simp add: start_gov_def)
  then have "int (admissions fs s) \<le> max_inference_per_min c + int (count_list fs EvTick)"
    using g by linarith
  with admissions_bound [OF assms(2)] e f g show ?thesis by (simp add: start_gov_def)
qed

abbreviation default_budget :: resource_budget_config where
  "default_budget \<equiv> cfg_resource_budget config_defaults"

text \<open>One call of \<open>Acquire\<close> on an idle machine with a token.\<close>

definition quick_call :: "gov_event list" where
  "quick_call = [EvCall, EvLoadCPU, EvLoadGPU, EvCheck, EvTake]"

theorem rate_limit_witness:
  "\<exists>g s t. new_governor default_budget = Started g \<and> gov_run quick_call (start_gov g) = Some s
     \<and> gov_run [EvTick, EvTick] s = Some t \<and> tokens (gov t) \<le> 6
     \<and> admissions quick_call (start_gov g) = 1 \<and> admissions quick_call (start_gov g) \<le> 1 + count_list quick_call EvTick"
proof -
  obtain g s t where r: "new_governor default_budget = Started g" "gov_run quick_call (start_gov g) = Some s"
    "gov_run [EvTick, EvTick] s = Some t"
    by (simp add: new_governor_def config_defaults_def quick_call_def start_gov_def gov_step_def
        acquire_step_def loop_steps refill_def)
  have "admissions quick_call (start_gov g) = 1"
    using r(1) by (auto simp: new_governor_def config_defaults_def quick_call_def start_gov_def gov_step_def acquire_step_def)
  moreover from rate_limit [OF r] have "tokens (gov t) \<le> 6" "admissions quick_call (start_gov g) \<le> 1 + count_list quick_call EvTick"
    by (simp_all add: config_defaults_def)
  ultimately show ?thesis using r by blast
qed

text \<open>
  The rate can be twice the configured one: with the default six calls per minute, an idle
  bucket fills up, after which twelve calls are admitted within six refill ticks, which take one
  minute.
\<close>

theorem burst_of_twice_the_rate:
  "\<exists>g s t. new_governor default_budget = Started g
     \<and> gov_run (replicate 5 EvTick) (start_gov g) = Some s
     \<and> gov_run (concat (replicate 6 (quick_call @ EvTick # quick_call))) s = Some t
     \<and> acq t = AcqDone
     \<and> admissions (concat (replicate 6 (quick_call @ EvTick # quick_call))) s = 12
     \<and> count_list (concat (replicate 6 (quick_call @ EvTick # quick_call))) EvTick = 6
     \<and> 6 * refill_interval (max_inference_per_min default_budget) = 60 * 1000000000"
proof -
  have "fl64 (60 * 1000000000 / fl64 6) = 10000000000"
    using fl64_of_int [of 10000000000] by (simp add: fl64_numeral)
  then have "refill_interval 6 = 10000000000" by (simp add: refill_interval_def)
  then show ?thesis
    by (simp add: new_governor_def config_defaults_def quick_call_def start_gov_def gov_step_def
        acquire_step_def loop_steps refill_def eval_nat_numeral)
qed

text \<open>
  Admission: whenever \<open>Acquire\<close> returns without error, the CPU was at or below its threshold
  at some moment of the run before, and so was the GPU.
\<close>

theorem acquire_admits_only_idle:
  assumes "new_governor c = Started g" and "gov_run es (start_gov g) = Some s" and "acq s = AcqDone"
  shows "saw (\<lambda>h. cpu_percent h \<le> cpu_idle_threshold c) es (start_gov g)
       \<and> saw (\<lambda>h. gpu_percent h \<le> gpu_idle_threshold c) es (start_gov g)"
proof -
  note g = new_governor_tokens [OF assms(1)]
  then have "acq_history es (start_gov g) (g_cfg g) (acq s)"
    using gov_run_history [OF assms(2)] by (simp add: start_gov_def)
  with assms(3) g show ?thesis by (simp add: acq_history_def admitted_def)
qed

theorem acquire_admits_only_idle_witness:
  "\<exists>g. new_governor default_budget = Started g
     \<and> saw (\<lambda>h. cpu_percent h \<le> 40) quick_call (start_gov g)"
proof -
  obtain g s where r: "new_governor default_budget = Started g" "gov_run quick_call (start_gov g) = Some s"
    "acq s = AcqDone"
    by (simp add: new_governor_def config_defaults_def quick_call_def start_gov_def gov_step_def
        acquire_step_def)
  from acquire_admits_only_idle [OF r] r(1) show ?thesis by (auto simp: config_defaults_def)
qed

text \<open>
  The load is not checked again while \<open>Acquire\<close> waits for a token: with the default
  thresholds a call is admitted at a moment when both readings are at 100 percent.
\<close>

theorem acquire_ignores_load_while_waiting:
  "\<exists>g s. new_governor default_budget = Started g
     \<and> gov_run (quick_call @ [EvCall, EvLoadCPU, EvLoadGPU, EvCheck, EvNoToken, EvMetrics (100, 10) 100,
                EvMetrics (300, 10) 100, EvTick, EvTake]) (start_gov g) = Some s
     \<and> acq s = AcqDone \<and> cpu_percent (gov s) = 100 \<and> gpu_percent (gov s) = 100"
proof -
  have w: "wrap64 200 = 200" "wrap64 0 = 0" "wrap64 20000 = 20000" by (simp_all add: int64_range_def)
  show ?thesis
    by (simp add: new_governor_def config_defaults_def quick_call_def start_gov_def gov_step_def
        acquire_step_def loop_steps refill_def update_metrics_def cpu_delta_percent_def w go_div_def)
qed

text \<open>
  After \<open>Close\<close> the loops come to their end, and from then on the readings stand still and no token
  is added: what \<open>Acquire\<close> still grants is at most what the bucket held.
\<close>

definition loops_returned :: "gov_state \<Rightarrow> bool" where
  "loops_returned s \<longleftrightarrow> metrics_pc (gov s) = LoopReturned \<and> refill_pc (gov s) = LoopReturned"

lemma loops_returned_step:
  assumes "gov_step ev s = Some t" "loops_returned s"
  shows "loops_returned t \<and> cpu_percent (gov t) = cpu_percent (gov s) \<and> gpu_percent (gov t) = gpu_percent (gov s)
     \<and> ev \<noteq> EvTick"
  using assms
  by (cases ev) (auto simp: gov_step_def loops_returned_def loop_steps drain_bucket_def close_governor_def split: if_splits)

theorem closed_governor_stands_still:
  assumes "loops_returned s" "gov_run es s = Some t"
  shows "cpu_percent (gov t) = cpu_percent (gov s) \<and> gpu_percent (gov t) = gpu_percent (gov s)
     \<and> admissions es s \<le> tokens (gov s)"
proof -
  from assms(2) have "loops_returned t \<and> cpu_percent (gov t) = cpu_percent (gov s)
      \<and> gpu_percent (gov t) = gpu_percent (gov s) \<and> EvTick \<notin> set es"
  proof (induction es t rule: governing.runs_trace)
    case (event es u ev v)
    then show ?case using loops_returned_step [OF event(2)] by auto
  qed (use assms(1) in simp)
  with admissions_bound [OF assms(2)] show ?thesis by (simp add: count_list_0_iff [THEN iffD2])
qed

theorem closed_governor_stands_still_witness:
  "\<exists>g s. new_governor default_budget = Started g
     \<and> gov_run [EvMetrics (100, 10) 0, EvClose, EvTick, EvRefillStop, EvMetricsStop] (start_gov g) = Some s
     \<and> (\<forall>t. gov_run quick_call s = Some t \<longrightarrow> admissions quick_call s \<le> 2)"
proof -
  obtain g s where r: "new_governor default_budget = Started g"
    "gov_run [EvMetrics (100, 10) 0, EvClose, EvTick, EvRefillStop, EvMetricsStop] (start_gov g) = Some s"
    "loops_returned s" "tokens (gov s) = 2"
    by (simp add: new_governor_def config_defaults_def start_gov_def gov_step_def loop_steps refill_def
        update_metrics_def close_governor_def loops_returned_def)
  from closed_governor_stands_still [OF r(3)] r show ?thesis by fastforce
qed

text \<open>
  The CPU percentage is the busy share of the interval between two readings, rounded down, and
  lies between 0 and 100 when the counters do not go backwards and idle time grows no faster than
  total time; no intermediate result wraps around below \<open>2 ^ 63 / 100\<close> ticks.
\<close>

theorem cpu_percentage_correct:
  assumes "0 < prev_cpu_total g" "0 \<le> prev_cpu_idle g" "prev_cpu_total g < tot"
    "prev_cpu_idle g \<le> idle" "idle - prev_cpu_idle g \<le> tot - prev_cpu_total g"
    "100 * (tot - prev_cpu_total g) < 2 ^ 63"
  shows "cpu_percent (update_metrics (tot, idle) gpu g) =
           100 * ((tot - prev_cpu_total g) - (idle - prev_cpu_idle g)) div (tot - prev_cpu_total g)
     \<and> 0 \<le> cpu_percent (update_metrics (tot, idle) gpu g)
     \<and> cpu_percent (update_metrics (tot, idle) gpu g) \<le> 100"
  using cpu_delta_percent_exact [OF assms]
    cpu_delta_percent_bounds [of "idle - prev_cpu_idle g" "tot - prev_cpu_total g"] assms
  by (simp add: update_metrics_def)

theorem cpu_percentage_correct_witness:
  "\<exists>g. new_governor default_budget = Started g
     \<and> cpu_percent (update_metrics (300, 60) 0 (update_metrics (100, 10) 0 g)) = 75"
proof -
  obtain g where g: "new_governor default_budget = Started g"
    by (simp add: new_governor_def config_defaults_def)
  have "cpu_percent (update_metrics (300, 60) 0 (update_metrics (100, 10) 0 g)) = 75"
    using cpu_percentage_correct [of "update_metrics (100, 10) 0 g" 300 60 0] by (simp add: update_metrics_def)
  with g show ?thesis by blast
qed

end
