(* ===== verification/Frame.thy ===== *)
theory Frame
  imports Float64
begin

text \<open>
  \<open>internal/capture/frame.go\<close>: the frame that flows from capture to inference, perceptual-hash
  deduplication, the ticker period and the downscaling before the queue. An \<open>image.RGBA\<close> is its
  bounds and its pixels; reading outside the bounds gives the zero colour. The perceptual hash and
  its distance belong to a third-party package and are arguments.
\<close>

section \<open>Rectangles and images\<close>

record rect =
  min_x :: int
  min_y :: int
  max_x :: int
  max_y :: int

definition zero_rect :: rect where
  "zero_rect = \<lparr>min_x = 0, min_y = 0, max_x = 0, max_y = 0\<rparr>"

definition dx :: "rect \<Rightarrow> int" where "dx r = max_x r - min_x r"
definition dy :: "rect \<Rightarrow> int" where "dy r = max_y r - min_y r"

text \<open>\<open>image.Rect\<close> orders the coordinates it is given.\<close>

definition image_rect :: "int \<Rightarrow> int \<Rightarrow> int \<Rightarrow> int \<Rightarrow> rect" where
  "image_rect x0 y0 x1 y1 = \<lparr>min_x = min x0 x1, min_y = min y0 y1, max_x = max x0 x1, max_y = max y0 y1\<rparr>"

definition rect_intersect :: "rect \<Rightarrow> rect \<Rightarrow> rect" where
  "rect_intersect r s =
     (let t = \<lparr>min_x = max (min_x r) (min_x s), min_y = max (min_y r) (min_y s),
               max_x = min (max_x r) (max_x s), max_y = min (max_y r) (max_y s)\<rparr>
      in if min_x t \<ge> max_x t \<or> min_y t \<ge> max_y t then zero_rect else t)"

definition rect_sub :: "rect \<Rightarrow> int \<Rightarrow> int \<Rightarrow> rect" where
  "rect_sub r x y = \<lparr>min_x = min_x r - x, min_y = min_y r - y, max_x = max_x r - x, max_y = max_y r - y\<rparr>"

definition in_rect :: "rect \<Rightarrow> int \<Rightarrow> int \<Rightarrow> bool" where
  "in_rect r x y \<longleftrightarrow> min_x r \<le> x \<and> x < max_x r \<and> min_y r \<le> y \<and> y < max_y r"

record rgba =
  red :: byte
  green :: byte
  blue :: byte
  alpha :: byte

definition zero_rgba :: rgba where
  "zero_rgba = \<lparr>red = 0, green = 0, blue = 0, alpha = 0\<rparr>"

record image =
  bounds :: rect
  pix :: "int \<Rightarrow> int \<Rightarrow> rgba"

definition img_at :: "image \<Rightarrow> int \<Rightarrow> int \<Rightarrow> rgba" where
  "img_at im x y = (if in_rect (bounds im) x y then pix im x y else zero_rgba)"

section \<open>Frames\<close>

record capture_context =
  cw_process_name :: string
  cw_window_title :: string
  cw_browser_url :: string
  cw_focused_input_role :: string
  cw_pid :: int
  active_window_rect :: rect

record 'h frame =
  frame_image :: "image option"
  captured_at :: int
  window_ctx :: capture_context
  perceptual_hash :: "'h option"
  display_index :: nat
  frame_dwell_seconds :: real
  seconds_since_input :: real

definition hash_frame :: "(image \<Rightarrow> string + 'h) \<Rightarrow> 'h frame \<Rightarrow> string + 'h frame" where
  "hash_frame phash f =
     (case frame_image f of
        None \<Rightarrow> Inl ''frame image is nil''
      | Some im \<Rightarrow> (case phash im of Inl e \<Rightarrow> Inl e | Inr h \<Rightarrow> Inr (f\<lparr>perceptual_hash := Some h\<rparr>)))"

definition is_duplicate :: "('h \<Rightarrow> 'h \<Rightarrow> string + int) \<Rightarrow> 'h frame \<Rightarrow> 'h frame \<Rightarrow> int \<Rightarrow> string + bool" where
  "is_duplicate hdist a b threshold =
     (case (perceptual_hash a, perceptual_hash b) of
        (Some h, Some k) \<Rightarrow> (case hdist h k of Inl e \<Rightarrow> Inl e | Inr d \<Rightarrow> Inr (d < threshold))
      | _ \<Rightarrow> Inr False)"

definition go_trunc :: "real \<Rightarrow> int" where
  "go_trunc x = (if 0 \<le> x then \<lfloor>x\<rfloor> else - \<lfloor>- x\<rfloor>)"

text \<open>
  \<open>frameDuration\<close> in nanoseconds. The conversion of a NaN or of a value outside \<open>int64\<close> is
  implementation-defined in Go: \<open>None\<close>.
\<close>

definition frame_duration :: "f64 \<Rightarrow> int option" where
  "frame_duration r =
     (let fps = (if f64_le r (Fin 0) then Fin 1 else r) in
      case fps of
        Fin x \<Rightarrow> (let d = go_trunc (fl64 (1000000000 / x)) in if int64_range d then Some d else None)
      | PInf \<Rightarrow> Some 0
      | _ \<Rightarrow> None)"

section \<open>Downscaling\<close>

definition queue_target_w :: int where "queue_target_w = 672"
definition queue_target_h :: int where "queue_target_h = 378"

text \<open>One channel of \<open>At(x, y).RGBA()\<close>, 16 bits wide, and its high byte.\<close>

definition channel16 :: "byte \<Rightarrow> 32 word" where
  "channel16 c = or (ucast c) (push_bit 8 (ucast c))"

definition channel8 :: "32 word \<Rightarrow> byte" where
  "channel8 v = ucast (drop_bit 8 v)"

definition sample_index :: "int \<Rightarrow> int \<Rightarrow> int \<Rightarrow> int" where
  "sample_index n w i = go_trunc (fl64 (fl64 (of_int i) * fl64 (fl64 (of_int n) / fl64 (of_int w))))"

definition nearest_neighbor :: "image \<Rightarrow> int \<Rightarrow> int \<Rightarrow> image" where
  "nearest_neighbor src w h =
     (let sb = bounds src in
      \<lparr>bounds = image_rect 0 0 w h,
       pix = (\<lambda>x y. let c = img_at src (min_x sb + sample_index (dx sb) w x) (min_y sb + sample_index (dy sb) h y)
                    in \<lparr>red = channel8 (channel16 (red c)), green = channel8 (channel16 (green c)),
                        blue = channel8 (channel16 (blue c)), alpha = channel8 (channel16 (alpha c))\<rparr>)\<rparr>)"

definition scale_coord :: "real \<Rightarrow> int \<Rightarrow> int" where
  "scale_coord scale v = go_trunc (fl64 (fl64 (of_int v) * scale))"

definition queue_scale :: "int \<Rightarrow> int \<Rightarrow> real" where
  "queue_scale w h =
     (let sx = fl64 (fl64 (of_int queue_target_w) / fl64 (of_int w));
          sy = fl64 (fl64 (of_int queue_target_h) / fl64 (of_int h))
      in if sy < sx then sy else sx)"

definition downscale_for_queue :: "'h frame \<Rightarrow> 'h frame" where
  "downscale_for_queue f =
     (case frame_image f of
        None \<Rightarrow> f
      | Some im \<Rightarrow>
          (let w = dx (bounds im); h = dy (bounds im) in
           if w \<le> queue_target_w \<and> h \<le> queue_target_h then f
           else
             (let scale = queue_scale w h;
                  dw = max 1 (scale_coord scale w); dh = max 1 (scale_coord scale h);
                  r = active_window_rect (window_ctx f);
                  f1 = f\<lparr>frame_image := Some (nearest_neighbor im dw dh)\<rparr>
              in if dx r > 0 \<and> dy r > 0
                 then f1\<lparr>window_ctx := (window_ctx f)\<lparr>active_window_rect :=
                        image_rect (scale_coord scale (min_x r)) (scale_coord scale (min_y r))
                                   (scale_coord scale (max_x r)) (scale_coord scale (max_y r))\<rparr>\<rparr>
                 else f1)))"

section \<open>Lemmas\<close>

lemma channel_roundtrip [simp]: "channel8 (channel16 c) = c"
  by (rule bit_word_eqI) (auto simp: channel8_def channel16_def bit_simps dest: bit_imp_le_length)

lemma go_trunc_mono: "x \<le> y \<Longrightarrow> go_trunc x \<le> go_trunc y"
proof -
  assume le: "x \<le> y"
  consider "0 \<le> x" | "x < 0" "0 \<le> y" | "y < 0" by linarith
  then show ?thesis
  proof cases
    case 2
    then have "0 \<le> \<lfloor>- x\<rfloor>" "0 \<le> \<lfloor>y\<rfloor>" by (simp_all add: le_floor_iff)
    then have "- \<lfloor>- x\<rfloor> \<le> \<lfloor>y\<rfloor>" by linarith
    with 2 show ?thesis by (simp add: go_trunc_def)
  qed (use le in \<open>auto simp: go_trunc_def floor_mono\<close>)
qed

lemma go_trunc_of_int [simp]: "go_trunc (of_int k) = k"
  by (simp add: go_trunc_def)

lemma scale_coord_mono: "0 \<le> s \<Longrightarrow> v \<le> w \<Longrightarrow> scale_coord s v \<le> scale_coord s w"
  unfolding scale_coord_def by (intro go_trunc_mono fl64_mono mult_right_mono) auto

lemma scale_coord_0 [simp]: "scale_coord s 0 = 0"
  by (simp add: scale_coord_def go_trunc_def)

lemma fl64_small_int: "0 < n \<Longrightarrow> n \<le> 2 ^ 31 \<Longrightarrow> fl64 (of_int n) = of_int n"
  by (rule fl64_of_int) simp

lemma pow_small: "(2::real) powr (- 1000) \<le> 1 / 2 ^ 40"
proof -
  have "(2::real) powr (- 1000) \<le> 2 powr (- 40)" by (intro powr_mono) auto
  then show ?thesis by (simp add: powr_minus divide_simps)
qed

text \<open>Two roundings enlarge a product by less than one part in \<open>2 ^ 51\<close>.\<close>

lemma two_roundings:
  assumes "0 < a" "a \<le> 2 ^ 31" "0 < n" "n \<le> 2 ^ 31" "0 < w" "w \<le> (2 ^ 31 :: int)"
  shows "fl64 (of_int a * fl64 (of_int n / of_int w)) \<le> of_int a * of_int n / of_int w * (1 + 1 / 2 ^ 51)"
proof -
  let ?q = "of_int n / of_int w :: real" and ?e = "1 / 2 ^ 53 :: real"
  have "1 / 2 ^ 31 \<le> ?q" using assms by (simp add: divide_simps)
  moreover have "(1::real) / 2 ^ 40 \<le> 1 / 2 ^ 31" by simp
  ultimately have q: "2 powr (- 1000) \<le> ?q" using pow_small by linarith
  have lo: "1 / 2 ^ 32 \<le> fl64 ?q"
  proof -
    have "?q / 2 ^ 53 \<le> ?q / 2" using \<open>1 / 2 ^ 31 \<le> ?q\<close> by simp
    with fl64_error [OF q] \<open>1 / 2 ^ 31 \<le> ?q\<close> show ?thesis by (simp add: abs_le_iff)
  qed
  have a1: "1 \<le> (of_int a :: real)" using assms(1) by simp
  have "1 / 2 ^ 32 \<le> of_int a * fl64 ?q" using mult_mono [OF a1 lo] assms(1) by simp
  moreover have "(1::real) / 2 ^ 40 \<le> 1 / 2 ^ 32" by simp
  ultimately have p: "2 powr (- 1000) \<le> of_int a * fl64 ?q" using pow_small by linarith
  have "fl64 (of_int a * fl64 ?q) \<le> of_int a * fl64 ?q * (1 + ?e)" by (rule fl64_le_rel [OF p])
  also have "\<dots> \<le> of_int a * (?q * (1 + ?e)) * (1 + ?e)"
    using fl64_le_rel [OF q] a1 by (intro mult_right_mono mult_left_mono) auto
  also have "\<dots> = of_int a * ?q * ((1 + ?e) * (1 + ?e))" by (simp only: ac_simps)
  also have "\<dots> \<le> of_int a * ?q * (1 + 1 / 2 ^ 51)"
    using assms by (intro mult_left_mono) (auto simp: power2_eq_square)
  finally show ?thesis by simp
qed

lemma sample_index_bounds:
  assumes "0 \<le> i" "i < w" "w \<le> 2 ^ 20" "0 < n" "n \<le> 2 ^ 31"
  shows "0 \<le> sample_index n w i \<and> sample_index n w i < n"
proof (cases "i = 0")
  case True
  then show ?thesis using assms by (simp add: sample_index_def go_trunc_def)
next
  case False
  have e: "fl64 (of_int n) = of_int n" "fl64 (of_int w) = of_int w" "fl64 (of_int i) = of_int i"
    using assms False by (auto intro!: fl64_small_int)
  let ?v = "fl64 (of_int i * fl64 (of_int n / of_int w))"
  have nn: "0 \<le> ?v" using assms by (intro fl64_nonneg mult_nonneg_nonneg) auto
  have "?v \<le> of_int i * of_int n / of_int w * (1 + 1 / 2 ^ 51)"
    using assms False by (intro two_roundings) auto
  also have "\<dots> < of_int n"
  proof -
    have "real_of_int i * (1 + 1 / 2 ^ 51) \<le> real_of_int (w - 1) * (1 + 1 / 2 ^ 51)"
      using assms by (intro mult_right_mono) auto
    also have "\<dots> < real_of_int w"
    proof -
      have "real_of_int w \<le> 2 ^ 20" using assms(3) by simp
      then show ?thesis by (simp add: field_simps)
    qed
    finally have "of_int n * (of_int i * (1 + 1 / 2 ^ 51)) < of_int n * (of_int w :: real)"
      using assms by (intro mult_strict_left_mono) auto
    then show ?thesis using assms by (simp add: divide_simps mult_ac)
  qed
  finally have "\<lfloor>?v\<rfloor> < n" by (simp add: floor_less_iff)
  then show ?thesis using nn by (simp add: sample_index_def e go_trunc_def)
qed

lemma scaled_size_bound:
  assumes "0 < n" "n \<le> 2 ^ 31" "0 < t" "t \<le> 2 ^ 20" "0 \<le> s" "s \<le> fl64 (fl64 (of_int t) / fl64 (of_int n))"
  shows "scale_coord s n \<le> t"
proof -
  have e: "fl64 (of_int n) = of_int n" "fl64 (of_int t) = of_int t"
    using assms by (auto intro!: fl64_small_int)
  have "fl64 (of_int n * s) \<le> fl64 (of_int n * fl64 (of_int t / of_int n))"
    using assms e by (intro fl64_mono mult_left_mono) auto
  also have "\<dots> \<le> of_int n * of_int t / of_int n * (1 + 1 / 2 ^ 51)"
    using assms by (intro two_roundings) auto
  also have "\<dots> = of_int t * (1 + 1 / 2 ^ 51)" using assms(1) by simp
  also have "\<dots> < of_int t + 1"
  proof -
    have "real_of_int t \<le> 2 ^ 20" using assms(4) by simp
    then show ?thesis by (simp add: field_simps)
  qed
  finally have "\<lfloor>fl64 (of_int n * s)\<rfloor> \<le> t" by (simp add: floor_le_iff)
  moreover have "0 \<le> fl64 (of_int n * s)" using assms by (intro fl64_nonneg) auto
  ultimately show ?thesis by (simp add: scale_coord_def e go_trunc_def)
qed

lemma queue_scale_props:
  assumes "0 < w" "w \<le> 2 ^ 31" "0 < h" "h \<le> 2 ^ 31"
  shows "0 \<le> queue_scale w h" "scale_coord (queue_scale w h) w \<le> 672" "scale_coord (queue_scale w h) h \<le> 378"
proof -
  let ?sx = "fl64 (fl64 (of_int 672) / fl64 (of_int w))" and ?sy = "fl64 (fl64 (of_int 378) / fl64 (of_int h))"
  have nn: "0 \<le> ?sx" "0 \<le> ?sy" using assms by (auto intro!: fl64_nonneg divide_nonneg_nonneg)
  then show 0: "0 \<le> queue_scale w h"
    by (simp add: queue_scale_def Let_def queue_target_w_def queue_target_h_def)
  have "queue_scale w h \<le> ?sx" "queue_scale w h \<le> ?sy"
    by (simp_all add: queue_scale_def Let_def queue_target_w_def queue_target_h_def)
  then show "scale_coord (queue_scale w h) w \<le> 672" "scale_coord (queue_scale w h) h \<le> 378"
    using scaled_size_bound [of w 672] scaled_size_bound [of h 378] assms 0 by simp_all
qed

lemma downscaled_size:
  assumes "frame_image f = Some im" and "0 < dx (bounds im)" "dx (bounds im) \<le> 2 ^ 31"
    and "0 < dy (bounds im)" "dy (bounds im) \<le> 2 ^ 31"
  shows "\<exists>im'. frame_image (downscale_for_queue f) = Some im'
     \<and> 1 \<le> dx (bounds im') \<and> dx (bounds im') \<le> 672 \<and> 1 \<le> dy (bounds im') \<and> dy (bounds im') \<le> 378"
proof (cases "dx (bounds im) \<le> 672 \<and> dy (bounds im) \<le> 378")
  case True
  then have "downscale_for_queue f = f"
    using assms(1) by (simp add: downscale_for_queue_def queue_target_w_def queue_target_h_def)
  then show ?thesis using assms True by simp
next
  case False
  let ?w = "dx (bounds im)" and ?h = "dy (bounds im)"
  let ?dw = "max 1 (scale_coord (queue_scale ?w ?h) ?w)" and ?dh = "max 1 (scale_coord (queue_scale ?w ?h) ?h)"
  have "frame_image (downscale_for_queue f) = Some (nearest_neighbor im ?dw ?dh)"
    using assms(1) False
    by (auto simp: downscale_for_queue_def queue_target_w_def queue_target_h_def Let_def)
  moreover have "dx (bounds (nearest_neighbor im ?dw ?dh)) = ?dw" "dy (bounds (nearest_neighbor im ?dw ?dh)) = ?dh"
    by (simp_all add: nearest_neighbor_def Let_def dx_def dy_def image_rect_def)
  moreover have "?dw \<le> 672" "?dh \<le> 378" using queue_scale_props assms by auto
  ultimately show ?thesis by simp
qed

section \<open>Properties\<close>

text \<open>
  C22. Downscaling before the queue: for every image up to \<open>2 ^ 31\<close> pixels a side, the image that
  is queued is at least one pixel and at most 672 by 378, an image that already fits is left
  alone, the perceptual hash computed on the full image is kept, and every pixel of the result is
  a pixel of the original taken from inside its bounds. No rounding of the \<open>float64\<close> scale
  factors can push a size or a sample out of range.
\<close>

theorem downscale_fits_queue:
  assumes "frame_image f = Some im" and "0 < dx (bounds im)" "dx (bounds im) \<le> 2 ^ 31"
    and "0 < dy (bounds im)" "dy (bounds im) \<le> 2 ^ 31"
  shows "\<exists>im'. frame_image (downscale_for_queue f) = Some im'
     \<and> 1 \<le> dx (bounds im') \<and> dx (bounds im') \<le> 672 \<and> 1 \<le> dy (bounds im') \<and> dy (bounds im') \<le> 378
     \<and> (dx (bounds im) \<le> 672 \<and> dy (bounds im) \<le> 378 \<longrightarrow> downscale_for_queue f = f)
     \<and> perceptual_hash (downscale_for_queue f) = perceptual_hash f
     \<and> (\<forall>x y. in_rect (bounds im') x y \<longrightarrow>
          (\<exists>u v. in_rect (bounds im) u v \<and> img_at im' x y = pix im u v))"
proof (cases "dx (bounds im) \<le> 672 \<and> dy (bounds im) \<le> 378")
  case True
  then have "downscale_for_queue f = f"
    using assms(1) by (simp add: downscale_for_queue_def queue_target_w_def queue_target_h_def)
  then show ?thesis using assms True by (auto simp: img_at_def)
next
  case False
  let ?w = "dx (bounds im)" and ?h = "dy (bounds im)"
  let ?dw = "max 1 (scale_coord (queue_scale ?w ?h) ?w)" and ?dh = "max 1 (scale_coord (queue_scale ?w ?h) ?h)"
  let ?im = "nearest_neighbor im ?dw ?dh"
  have img: "frame_image (downscale_for_queue f) = Some ?im"
    "perceptual_hash (downscale_for_queue f) = perceptual_hash f"
    using assms(1) False
    by (auto simp: downscale_for_queue_def queue_target_w_def queue_target_h_def Let_def)
  have size: "dx (bounds ?im) = ?dw" "dy (bounds ?im) = ?dh" "bounds ?im = image_rect 0 0 ?dw ?dh"
    by (simp_all add: nearest_neighbor_def Let_def dx_def dy_def image_rect_def)
  have le: "?dw \<le> 672" "?dh \<le> 378" using queue_scale_props assms by auto
  have "\<exists>u v. in_rect (bounds im) u v \<and> img_at ?im x y = pix im u v" if "in_rect (bounds ?im) x y" for x y
  proof -
    let ?u = "min_x (bounds im) + sample_index ?w ?dw x" and ?v = "min_y (bounds im) + sample_index ?h ?dh y"
    have "0 \<le> x" "x < ?dw" "0 \<le> y" "y < ?dh"
      using that unfolding size in_rect_def image_rect_def by auto
    then have s: "0 \<le> sample_index ?w ?dw x" "sample_index ?w ?dw x < ?w"
      "0 \<le> sample_index ?h ?dh y" "sample_index ?h ?dh y < ?h"
      using sample_index_bounds [of x ?dw ?w] sample_index_bounds [of y ?dh ?h] le assms by auto
    then have inside: "in_rect (bounds im) ?u ?v" by (simp add: in_rect_def dx_def dy_def)
    have "img_at ?im x y = pix ?im x y" using that by (simp add: img_at_def)
    also have "\<dots> = pix im ?u ?v"
      using inside by (simp add: nearest_neighbor_def Let_def img_at_def)
    finally show ?thesis using inside by blast
  qed
  with img size le False show ?thesis by auto
qed

definition full_hd_frame :: "int frame" where
  "full_hd_frame = \<lparr>frame_image = Some \<lparr>bounds = image_rect 0 0 1920 1080, pix = (\<lambda>x y. zero_rgba)\<rparr>,
     captured_at = 0, window_ctx = \<lparr>cw_process_name = ''code'', cw_window_title = [], cw_browser_url = [],
        cw_focused_input_role = [], cw_pid = 1, active_window_rect = zero_rect\<rparr>,
     perceptual_hash = Some 7, display_index = 0, frame_dwell_seconds = 5, seconds_since_input = 1\<rparr>"

theorem downscale_fits_queue_witness:
  "\<exists>im'. frame_image (downscale_for_queue full_hd_frame) = Some im' \<and> dx (bounds im') \<le> 672
     \<and> perceptual_hash (downscale_for_queue full_hd_frame) = Some 7"
  using downscale_fits_queue [of full_hd_frame "\<lparr>bounds = image_rect 0 0 1920 1080, pix = (\<lambda>x y. zero_rgba)\<rparr>"]
  by (auto simp: full_hd_frame_def image_rect_def dx_def dy_def)

end
