(* ===== verification/Capture.thy ===== *)
theory Capture
  imports Privacy_Gate Frame Config "HOL-Library.Multiset"
begin

text \<open>
  The Windows capture loop: \<open>internal/capture/capture_windows.go\<close> with the DXGI session of
  \<open>dxgi_windows.go\<close>. One \<open>monitor_loop\<close> per display holds the cached GDI handles, the previous
  frame and the dwell tracking; \<open>capture_frame\<close> is one tick's capture, \<open>capture_tick\<close> the body of
  the ticker loop. What the operating system answers during a tick is the record \<open>tick_env\<close>.

  A handle is a number, 0 for none. Every GDI object created or deleted is recorded, so that
  leaks can be stated. A null pointer dereference is \<open>None\<close>.
\<close>

section \<open>GDI capture\<close>

record gdi =
  screen_dc :: nat
  mem_dc :: nat
  bitmap :: nat
  cached_w :: int
  cached_h :: int

datatype gdi_call = Created nat | Deleted nat

record gdi_env =
  create_dc :: nat
  create_compatible_dc :: nat
  create_bitmap :: nat
  bit_blt_ok :: bool
  di_bits :: "bytes option"

definition no_handles :: gdi where
  "no_handles = \<lparr>screen_dc = 0, mem_dc = 0, bitmap = 0, cached_w = 0, cached_h = 0\<rparr>"

definition release_handles :: "gdi \<Rightarrow> gdi_call list \<times> gdi" where
  "release_handles g =
     ((if bitmap g \<noteq> 0 then [Deleted (bitmap g)] else [])
      @ (if mem_dc g \<noteq> 0 then [Deleted (mem_dc g)] else [])
      @ (if screen_dc g \<noteq> 0 then [Deleted (screen_dc g)] else []), no_handles)"

definition bgra_image :: "int \<Rightarrow> int \<Rightarrow> bytes \<Rightarrow> image" where
  "bgra_image w h px =
     \<lparr>bounds = image_rect 0 0 w h,
      pix = (\<lambda>x y. let i = nat (y * w + x) * 4
                   in \<lparr>red = px ! (i + 2), green = px ! (i + 1), blue = px ! i, alpha = 255\<rparr>)\<rparr>"

text \<open>The handles for the size of the monitor: the cached ones, or new ones, released on failure.\<close>

definition ensure_handles :: "gdi_env \<Rightarrow> int \<Rightarrow> int \<Rightarrow> gdi \<Rightarrow> gdi_call list \<times> gdi \<times> string option" where
  "ensure_handles e w h g =
     (if w = cached_w g \<and> h = cached_h g then ([], g, None)
      else (case release_handles g of (rel, g0) \<Rightarrow>
        if create_dc e = 0 then (rel, g0, Some ''CreateDC failed'')
        else if create_compatible_dc e = 0 then
          (rel @ [Created (create_dc e), Deleted (create_dc e)], g0, Some ''CreateCompatibleDC failed'')
        else if create_bitmap e = 0 then
          (rel @ [Created (create_dc e), Created (create_compatible_dc e),
                  Deleted (create_compatible_dc e), Deleted (create_dc e)], g0,
           Some ''CreateCompatibleBitmap failed'')
        else (rel @ [Created (create_dc e), Created (create_compatible_dc e), Created (create_bitmap e)],
              \<lparr>screen_dc = create_dc e, mem_dc = create_compatible_dc e, bitmap = create_bitmap e,
               cached_w = w, cached_h = h\<rparr>, None)))"

definition capture_gdi :: "gdi_env \<Rightarrow> rect \<Rightarrow> gdi \<Rightarrow> gdi_call list \<times> gdi \<times> (string + image)" where
  "capture_gdi e mon g =
     (let w = dx mon; h = dy mon in
      if w = 0 \<or> h = 0 then ([], g, Inl ''monitor has zero dimensions'')
      else (case ensure_handles e w h g of
        (calls, g1, Some err) \<Rightarrow> (calls, g1, Inl err)
      | (calls, g1, None) \<Rightarrow>
          if \<not> bit_blt_ok e then
            (case release_handles g1 of (rel, g2) \<Rightarrow> (calls @ rel, g2, Inl ''BitBlt failed''))
          else (case di_bits e of
             None \<Rightarrow> (case release_handles g1 of (rel, g2) \<Rightarrow> (calls @ rel, g2, Inl ''GetDIBits failed''))
           | Some px \<Rightarrow> (calls, g1, Inr (bgra_image w h px)))))"

section \<open>DXGI capture\<close>

text \<open>
  A session is open, or closed after its interfaces were released; using a closed session reads
  through a null pointer. \<open>acquire\<close> is what \<open>AcquireNextFrame\<close> and the copy give, \<open>reopen\<close> tells
  whether \<open>OpenDXGISession\<close> succeeds.
\<close>

datatype dxgi_answer = WaitTimeout | AccessLost | DxgiError string | DxgiImage image

datatype dxgi_session = DxgiOpen | DxgiClosed

fun session_capture :: "dxgi_session \<Rightarrow> dxgi_answer \<Rightarrow> dxgi_answer option" where
  "session_capture DxgiOpen a = Some a"
| "session_capture DxgiClosed a = None"

definition dxgi_capture_frame ::
  "dxgi_session \<Rightarrow> dxgi_answer \<Rightarrow> bool \<Rightarrow> (dxgi_session \<times> (string + image option)) option" where
  "dxgi_capture_frame s acquire reopen =
     (case session_capture s acquire of
        None \<Rightarrow> None
      | Some AccessLost \<Rightarrow>
          if reopen then Some (DxgiOpen, Inr None)
          else Some (DxgiClosed, Inl ''DXGI reinit failed'')
      | Some WaitTimeout \<Rightarrow> Some (s, Inr None)
      | Some (DxgiError e) \<Rightarrow> Some (s, Inl e)
      | Some (DxgiImage im) \<Rightarrow> Some (s, Inr (Some im)))"

section \<open>One capture\<close>

text \<open>\<open>secondsSinceLastInput\<close>: the two 32-bit tick counts, or \<open>None\<close> when the call fails.\<close>

definition seconds_since_last_input :: "(32 word \<times> 32 word) option \<Rightarrow> real" where
  "seconds_since_last_input r =
     (case r of
        None \<Rightarrow> 0
      | Some (tick, last_input) \<Rightarrow> fl64 (fl64 (of_nat (unat (tick - last_input))) / 1000))"

text \<open>\<open>Duration.Seconds\<close>.\<close>

definition duration_seconds :: "int \<Rightarrow> real" where
  "duration_seconds d =
     (let sec = go_div d 1000000000; nsec = d - sec * 1000000000
      in fl64 (fl64 (of_int sec) + fl64 (fl64 (of_int nsec) / 1000000000)))"

definition black :: rgba where
  "black = \<lparr>red = 0, green = 0, blue = 0, alpha = 255\<rparr>"

definition mask_rect :: "real \<times> real \<times> real \<times> real \<Rightarrow> image \<Rightarrow> image" where
  "mask_rect r im =
     (case r of (l, t, w, h) \<Rightarrow>
        (let b = bounds im;
             x1 = go_trunc l + go_trunc w; y1 = go_trunc t + go_trunc h;
             x0 = max (go_trunc l) (min_x b); y0 = max (go_trunc t) (min_y b);
             x1 = min x1 (max_x b); y1 = min y1 (max_y b)
         in im\<lparr>pix := (\<lambda>x y. if x0 \<le> x \<and> x < x1 \<and> y0 \<le> y \<and> y < y1 then black else pix im x y)\<rparr>))"

record 'h monitor_loop =
  mon_rect :: rect
  display_idx :: nat
  ml_gdi :: gdi
  ml_gdi_log :: "gdi_call list"
  prev_frame :: "'h frame option"
  last_window_key :: string
  window_since :: int
  is_idle :: bool

record 'h tick_env =
  te_now :: int
  te_gate :: gate_result
  te_idle_input :: "(32 word \<times> 32 word) option"
  te_input :: "(32 word \<times> 32 word) option"
  te_gdi :: gdi_env
  te_dxgi :: dxgi_answer
  te_dxgi_reopen :: bool
  te_password_rect :: "(real \<times> real \<times> real \<times> real) option"
  te_window_rect :: rect
  te_phash :: "image \<Rightarrow> string + 'h"

definition window_key :: "window_context \<Rightarrow> string" where
  "window_key c = process_name c @ ''|'' @ window_title c"

text \<open>The pixels: DXGI on the first display when it is there and delivers, else GDI.\<close>

definition grab_pixels ::
  "'h tick_env \<Rightarrow> 'h monitor_loop \<Rightarrow> dxgi_session option
     \<Rightarrow> ('h monitor_loop \<times> dxgi_session option \<times> (string + image)) option" where
  "grab_pixels e ml dxgi =
     (case (if display_idx ml = 0 then dxgi else None) of
        None \<Rightarrow>
          (case capture_gdi (te_gdi e) (mon_rect ml) (ml_gdi ml) of (calls, g, r) \<Rightarrow>
             Some (ml\<lparr>ml_gdi := g, ml_gdi_log := ml_gdi_log ml @ calls\<rparr>, dxgi, r))
      | Some s \<Rightarrow>
          (case dxgi_capture_frame s (te_dxgi e) (te_dxgi_reopen e) of
             None \<Rightarrow> None
           | Some (s1, Inr (Some im)) \<Rightarrow> Some (ml, Some s1, Inr im)
           | Some (s1, _) \<Rightarrow>
               (case capture_gdi (te_gdi e) (mon_rect ml) (ml_gdi ml) of (calls, g, r) \<Rightarrow>
                  Some (ml\<lparr>ml_gdi := g, ml_gdi_log := ml_gdi_log ml @ calls\<rparr>, Some s1, r))))"

definition track_dwell :: "int \<Rightarrow> string \<Rightarrow> 'h monitor_loop \<Rightarrow> 'h monitor_loop" where
  "track_dwell now key ml =
     (if key \<noteq> last_window_key ml then ml\<lparr>last_window_key := key, window_since := now\<rparr> else ml)"

definition local_window_rect :: "rect \<Rightarrow> rect \<Rightarrow> image \<Rightarrow> rect" where
  "local_window_rect win mon im =
     (if dx win > 0 \<and> dy win > 0 then
        (let clamped = rect_intersect (rect_sub win (min_x mon) (min_y mon)) (bounds im)
         in if dx clamped > 32 \<and> dy clamped > 32 then clamped else zero_rect)
      else zero_rect)"

definition build_frame :: "'h tick_env \<Rightarrow> 'h monitor_loop \<Rightarrow> image \<Rightarrow> 'h frame" where
  "build_frame e ml im =
     (let ctx = gr_window_ctx (te_gate e) in
      \<lparr>frame_image = Some im, captured_at = te_now e,
       window_ctx = \<lparr>cw_process_name = process_name ctx, cw_window_title = window_title ctx,
                     cw_browser_url = browser_url ctx, cw_focused_input_role = focused_input_role ctx,
                     cw_pid = pid ctx,
                     active_window_rect = local_window_rect (te_window_rect e) (mon_rect ml) im\<rparr>,
       perceptual_hash = None, display_index = display_idx ml,
       frame_dwell_seconds = duration_seconds (te_now e - window_since ml),
       seconds_since_input = seconds_since_last_input (te_input e)\<rparr>)"

definition finish_frame :: "'h tick_env \<Rightarrow> 'h frame \<Rightarrow> 'h frame" where
  "finish_frame e f =
     downscale_for_queue (case hash_frame (te_phash e) f of Inl err \<Rightarrow> f | Inr f1 \<Rightarrow> f1)"

definition capture_frame ::
  "'h tick_env \<Rightarrow> 'h monitor_loop \<Rightarrow> dxgi_session option
     \<Rightarrow> ('h monitor_loop \<times> dxgi_session option \<times> (string + 'h frame option)) option" where
  "capture_frame e ml dxgi =
     (if gr_blocked (te_gate e) then Some (ml, dxgi, Inr None)
      else
        (let ml1 = track_dwell (te_now e) (window_key (gr_window_ctx (te_gate e))) ml in
         case grab_pixels e ml1 dxgi of
           None \<Rightarrow> None
         | Some (ml2, dxgi2, Inl err) \<Rightarrow> Some (ml2, dxgi2, Inl (''GDI capture display: '' @ err))
         | Some (ml2, dxgi2, Inr im) \<Rightarrow>
             (let im1 = (case te_password_rect e of None \<Rightarrow> im | Some r \<Rightarrow> mask_rect r im)
              in Some (ml2, dxgi2, Inr (Some (finish_frame e (build_frame e ml2 im1)))))))"

section \<open>The ticker loop\<close>

text \<open>
  One tick of \<open>run\<close>: the idle switch with the new ticker period (\<open>Some None\<close> when the conversion
  of the frame rate is not defined), the capture, the duplicate test, the non-blocking send.
  \<open>chan_free\<close> tells whether the channel has room.
\<close>

definition idle_limit :: "capture_config \<Rightarrow> real" where
  "idle_limit c = (if idle_threshold_sec c \<le> 0 then 30 else fl64 (of_int (idle_threshold_sec c)))"

definition switch_idle :: "capture_config \<Rightarrow> 'h tick_env \<Rightarrow> 'h monitor_loop \<Rightarrow> 'h monitor_loop \<times> int option option" where
  "switch_idle c e ml =
     (let idle = (seconds_since_last_input (te_idle_input e) > idle_limit c) in
      if idle \<noteq> is_idle ml
      then (ml\<lparr>is_idle := idle\<rparr>, Some (frame_duration (if idle then idle_fps c else fps c)))
      else (ml, None))"

definition capture_tick ::
  "capture_config \<Rightarrow> ('h \<Rightarrow> 'h \<Rightarrow> string + int) \<Rightarrow> 'h tick_env \<Rightarrow> bool \<Rightarrow> 'h monitor_loop \<Rightarrow> dxgi_session option
     \<Rightarrow> ('h monitor_loop \<times> dxgi_session option \<times> 'h frame option) option" where
  "capture_tick c hdist e chan_free ml dxgi =
     (case capture_frame e (fst (switch_idle c e ml)) dxgi of
        None \<Rightarrow> None
      | Some (ml2, dxgi2, Inl err) \<Rightarrow> Some (ml2, dxgi2, None)
      | Some (ml2, dxgi2, Inr None) \<Rightarrow> Some (ml2, dxgi2, None)
      | Some (ml2, dxgi2, Inr (Some f)) \<Rightarrow>
          (let dup = (case prev_frame ml2 of
                        None \<Rightarrow> False
                      | Some p \<Rightarrow> (case is_duplicate hdist f p (hash_threshold c) of Inr b \<Rightarrow> b | Inl err \<Rightarrow> False))
           in if dup then Some (ml2, dxgi2, None)
              else if chan_free then Some (ml2\<lparr>prev_frame := Some f\<rparr>, dxgi2, Some f)
              else Some (ml2, dxgi2, None)))"

text \<open>The screenshot a tick takes, whether it is then sent, found to be a duplicate, or dropped.\<close>

definition tick_shot ::
  "capture_config \<Rightarrow> 'h tick_env \<Rightarrow> 'h monitor_loop \<Rightarrow> dxgi_session option \<Rightarrow> 'h frame option" where
  "tick_shot c e ml dxgi =
     (case capture_frame e (fst (switch_idle c e ml)) dxgi of
        Some (_, _, Inr r) \<Rightarrow> r
      | _ \<Rightarrow> None)"

definition new_monitor_loop :: "rect \<Rightarrow> nat \<Rightarrow> 'h monitor_loop" where
  "new_monitor_loop r i = \<lparr>mon_rect = r, display_idx = i, ml_gdi = no_handles, ml_gdi_log = [],
     prev_frame = None, last_window_key = [], window_since = 0, is_idle = False\<rparr>"

section \<open>Other platforms\<close>

text \<open>
  The X11 backend: its constructor refuses, and its per-tick capture, were it ever run, asks the
  same gate first. On other platforms the capturer exists and its \<open>Run\<close> fails at once.
\<close>

definition new_x11_capturer :: "string + unit" where
  "new_x11_capturer = Inl
     (''X11 capture is not yet implemented: '' @
      ''queryWindowContextImpl() returns stub metadata, which means the '' @
      ''privacy gate cannot block sensitive windows. '' @
      ''Build and run Digital Ghost on Windows until the X11 implementation is complete.'')"

definition capture_display_stub :: image where
  "capture_display_stub = \<lparr>bounds = image_rect 0 0 1920 1080, pix = (\<lambda>x y. zero_rgba)\<rparr>"

definition x11_capture_frame :: "(image \<Rightarrow> string + 'h) \<Rightarrow> int \<Rightarrow> gate_result \<Rightarrow> 'h frame option" where
  "x11_capture_frame phash now res =
     (if gr_blocked res then None
      else (let ctx = gr_window_ctx res;
                f = \<lparr>frame_image = Some capture_display_stub, captured_at = now,
                     window_ctx = \<lparr>cw_process_name = process_name ctx, cw_window_title = window_title ctx,
                        cw_browser_url = browser_url ctx, cw_focused_input_role = focused_input_role ctx,
                        cw_pid = pid ctx, active_window_rect = zero_rect\<rparr>,
                     perceptual_hash = None, display_index = 0, frame_dwell_seconds = 0,
                     seconds_since_input = 0\<rparr>
            in Some (case hash_frame phash f of Inl err \<Rightarrow> f | Inr f1 \<Rightarrow> f1)))"

definition unsupported_run :: "string + unit" where
  "unsupported_run = Inl ''screen capture is not supported on this platform''"

lemma x11_never_captures:
  "x11_capture_frame phash now (check_gate um g query_window_context_x11 bg) = None"
  by (simp add: x11_capture_frame_def check_gate_def gate_check_def query_window_context_x11_def)

section \<open>Lemmas\<close>

lemma duration_seconds_0 [simp]: "duration_seconds 0 = 0"
  by (simp add: duration_seconds_def go_div_def)

lemma capture_frame_ok:
  assumes "capture_frame e ml dxgi = Some (ml2, d2, Inr (Some f))"
  shows "\<not> gr_blocked (te_gate e) \<and> (\<exists>im ml1. f = finish_frame e (build_frame e ml1 im))"
  using assms by (auto simp: capture_frame_def Let_def split: if_splits option.splits sum.splits prod.splits)

lemma downscale_ctx:
  "cw_process_name (window_ctx (downscale_for_queue f)) = cw_process_name (window_ctx f)"
  "cw_window_title (window_ctx (downscale_for_queue f)) = cw_window_title (window_ctx f)"
  "cw_browser_url (window_ctx (downscale_for_queue f)) = cw_browser_url (window_ctx f)"
  "cw_focused_input_role (window_ctx (downscale_for_queue f)) = cw_focused_input_role (window_ctx f)"
  "frame_dwell_seconds (downscale_for_queue f) = frame_dwell_seconds f"
  by (auto simp: downscale_for_queue_def Let_def split: option.splits)

lemma hash_frame_ctx: "hash_frame ph f = Inr g \<Longrightarrow> window_ctx g = window_ctx f \<and> frame_dwell_seconds g = frame_dwell_seconds f"
  by (auto simp: hash_frame_def split: option.splits sum.splits)

lemma finish_frame_ctx:
  "cw_process_name (window_ctx (finish_frame e f)) = cw_process_name (window_ctx f)"
  "cw_window_title (window_ctx (finish_frame e f)) = cw_window_title (window_ctx f)"
  "cw_browser_url (window_ctx (finish_frame e f)) = cw_browser_url (window_ctx f)"
  "cw_focused_input_role (window_ctx (finish_frame e f)) = cw_focused_input_role (window_ctx f)"
  "frame_dwell_seconds (finish_frame e f) = frame_dwell_seconds f"
  by (simp_all add: finish_frame_def downscale_ctx hash_frame_ctx split: sum.split)

lemma build_frame_ctx:
  "cw_process_name (window_ctx (build_frame e ml im)) = process_name (gr_window_ctx (te_gate e))"
  "cw_window_title (window_ctx (build_frame e ml im)) = window_title (gr_window_ctx (te_gate e))"
  "cw_browser_url (window_ctx (build_frame e ml im)) = browser_url (gr_window_ctx (te_gate e))"
  "cw_focused_input_role (window_ctx (build_frame e ml im)) = focused_input_role (gr_window_ctx (te_gate e))"
  "frame_dwell_seconds (build_frame e ml im) = duration_seconds (te_now e - window_since ml)"
  by (simp_all add: build_frame_def Let_def)

lemmas frame_ctx = finish_frame_ctx build_frame_ctx

lemma capture_tick_frame:
  assumes "capture_tick c hdist e room ml dxgi = Some (ml2, d2, Some f)"
  shows "\<exists>ml1 ml3. capture_frame e ml1 dxgi = Some (ml3, d2, Inr (Some f)) \<and> ml2 = ml3\<lparr>prev_frame := Some f\<rparr>"
  using assms by (auto simp: capture_tick_def Let_def split: option.splits sum.splits prod.splits if_splits)

lemma tick_shot_sent: "capture_tick c hdist e room ml dxgi = Some (ml2, d2, Some f) \<Longrightarrow> tick_shot c e ml dxgi = Some f"
  by (auto simp: capture_tick_def tick_shot_def Let_def split: option.splits sum.splits prod.splits if_splits)

lemma tick_shot_unblocked: "tick_shot c e ml dxgi = Some f \<Longrightarrow> \<not> gr_blocked (te_gate e)"
  using capture_frame_ok by (fastforce simp: tick_shot_def split: option.splits sum.splits prod.splits)

text \<open>Live GDI objects: what was created and not deleted.\<close>

fun created :: "gdi_call list \<Rightarrow> nat multiset" where
  "created [] = {#}"
| "created (Created h # cs) = add_mset h (created cs)"
| "created (Deleted h # cs) = created cs"

fun deleted :: "gdi_call list \<Rightarrow> nat multiset" where
  "deleted [] = {#}"
| "deleted (Created h # cs) = deleted cs"
| "deleted (Deleted h # cs) = add_mset h (deleted cs)"

definition held :: "gdi \<Rightarrow> nat multiset" where
  "held g = filter_mset (\<lambda>h. h \<noteq> 0) {#screen_dc g, mem_dc g, bitmap g#}"

lemma created_append [simp]: "created (xs @ ys) = created xs + created ys"
  by (induction xs rule: created.induct) auto

lemma deleted_append [simp]: "deleted (xs @ ys) = deleted xs + deleted ys"
  by (induction xs rule: deleted.induct) auto

lemma held_no_handles [simp]: "held no_handles = {#}"
  by (simp add: held_def no_handles_def)

lemma release_handles_balance:
  "release_handles g = (cs, g1) \<Longrightarrow> created cs = {#} \<and> deleted cs = held g \<and> held g1 = {#}"
  by (auto simp: release_handles_def held_def no_handles_def)

lemma held_new:
  "a \<noteq> 0 \<Longrightarrow> b \<noteq> 0 \<Longrightarrow> c \<noteq> 0 \<Longrightarrow>
     held \<lparr>screen_dc = a, mem_dc = b, bitmap = c, cached_w = w, cached_h = h\<rparr> = {#a, b, c#}"
  by (simp add: held_def)

lemma ensure_handles_balance:
  assumes "ensure_handles e w h g = (cs, g1, r)"
  shows "held g + created cs = deleted cs + held g1"
proof (cases "w = cached_w g \<and> h = cached_h g")
  case True
  then show ?thesis using assms by (simp add: ensure_handles_def)
next
  case False
  obtain rel g0 where rel: "release_handles g = (rel, g0)" by (cases "release_handles g")
  from release_handles_balance [OF this] have b: "created rel = {#}" "deleted rel = held g" "held g0 = {#}"
    by simp_all
  consider "create_dc e = 0" | "create_dc e \<noteq> 0" "create_compatible_dc e = 0"
    | "create_dc e \<noteq> 0" "create_compatible_dc e \<noteq> 0" "create_bitmap e = 0"
    | "create_dc e \<noteq> 0" "create_compatible_dc e \<noteq> 0" "create_bitmap e \<noteq> 0" by blast
  then show ?thesis
    by cases (use assms False rel b in \<open>auto simp: ensure_handles_def held_new\<close>)
qed

lemma capture_gdi_balance:
  assumes "capture_gdi e mon g = (cs, g1, r)"
  shows "held g + created cs = deleted cs + held g1"
proof -
  obtain cs0 g0 err where en: "ensure_handles e (dx mon) (dy mon) g = (cs0, g0, err)"
    by (cases "ensure_handles e (dx mon) (dy mon) g") auto
  note b = ensure_handles_balance [OF en]
  obtain rel gr where rel: "release_handles g0 = (rel, gr)" by (cases "release_handles g0")
  note br = release_handles_balance [OF rel]
  have "(cs, g1) = ([], g) \<or> (cs, g1) = (cs0, g0) \<or> (cs, g1) = (cs0 @ rel, gr)"
    using assms en rel by (auto simp: capture_gdi_def Let_def split: if_splits option.splits)
  then show ?thesis using b br by (auto simp: ac_simps)
qed

definition gdi_balanced :: "'h monitor_loop \<Rightarrow> bool" where
  "gdi_balanced ml \<longleftrightarrow> created (ml_gdi_log ml) = deleted (ml_gdi_log ml) + held (ml_gdi ml)"

lemma grab_pixels_balanced:
  assumes "grab_pixels e ml dxgi = Some (ml2, d2, r)" "gdi_balanced ml" shows "gdi_balanced ml2"
proof -
  obtain cs g x where c: "capture_gdi (te_gdi e) (mon_rect ml) (ml_gdi ml) = (cs, g, x)"
    by (cases "capture_gdi (te_gdi e) (mon_rect ml) (ml_gdi ml)")
  have "gdi_balanced (ml\<lparr>ml_gdi := g, ml_gdi_log := ml_gdi_log ml @ cs\<rparr>)"
    using assms(2) capture_gdi_balance [OF c] by (simp add: gdi_balanced_def ac_simps)
  moreover have "ml2 = ml \<or> ml2 = ml\<lparr>ml_gdi := g, ml_gdi_log := ml_gdi_log ml @ cs\<rparr>"
    using assms(1) c by (auto simp: grab_pixels_def split: if_splits option.splits prod.splits sum.splits)
  ultimately show ?thesis using assms(2) by auto
qed

lemma capture_tick_balanced:
  assumes "capture_tick c hdist e room ml dxgi = Some (ml2, d2, r)" "gdi_balanced ml"
  shows "gdi_balanced ml2"
proof -
  let ?m = "fst (switch_idle c e ml)"
  obtain m3 d3 r3 where f: "capture_frame e ?m dxgi = Some (m3, d3, r3)"
    and m2: "ml2 = m3 \<or> (\<exists>p. ml2 = m3\<lparr>prev_frame := p\<rparr>)"
    using assms(1) by (auto simp: capture_tick_def Let_def split: option.splits sum.splits prod.splits if_splits)
  have "gdi_balanced ?m" using assms(2) by (simp add: switch_idle_def gdi_balanced_def Let_def)
  then have "gdi_balanced (track_dwell n k ?m)" for n k by (simp add: track_dwell_def gdi_balanced_def)
  then have "gdi_balanced m3" using f \<open>gdi_balanced ?m\<close>
    by (auto simp: capture_frame_def Let_def dest: grab_pixels_balanced split: if_splits option.splits sum.splits prod.splits)
  then show ?thesis using m2 by (auto simp: gdi_balanced_def)
qed

fun capture_run ::
  "capture_config \<Rightarrow> ('h \<Rightarrow> 'h \<Rightarrow> string + int) \<Rightarrow> ('h tick_env \<times> bool) list \<Rightarrow> 'h monitor_loop
     \<Rightarrow> dxgi_session option \<Rightarrow> ('h monitor_loop \<times> dxgi_session option \<times> 'h frame list) option" where
  "capture_run c hdist [] ml dxgi =
     (case release_handles (ml_gdi ml) of (cs, g) \<Rightarrow>
        Some (ml\<lparr>ml_gdi := g, ml_gdi_log := ml_gdi_log ml @ cs\<rparr>, dxgi, []))"
| "capture_run c hdist ((e, room) # es) ml dxgi =
     (case capture_tick c hdist e room ml dxgi of
        None \<Rightarrow> None
      | Some (ml2, dxgi2, r) \<Rightarrow>
          map_option (\<lambda>(m, d, fs). (m, d, (case r of None \<Rightarrow> fs | Some f \<Rightarrow> f # fs)))
            (capture_run c hdist es ml2 dxgi2))"

lemma capture_run_balanced:
  "capture_run c hdist es ml dxgi = Some (ml2, d2, fs) \<Longrightarrow> gdi_balanced ml \<Longrightarrow>
     created (ml_gdi_log ml2) = deleted (ml_gdi_log ml2) \<and> held (ml_gdi ml2) = {#}"
proof (induction c hdist es ml dxgi arbitrary: fs rule: capture_run.induct)
  case (1 c hdist ml dxgi)
  then show ?case by (auto simp: gdi_balanced_def dest!: release_handles_balance split: prod.splits)
next
  case (2 c hdist e room es ml dxgi)
  then obtain m d r where t: "capture_tick c hdist e room ml dxgi = Some (m, d, r)"
    by (auto split: option.splits)
  with 2 obtain fs' where "capture_run c hdist es m d = Some (ml2, d2, fs')"
    by auto
  then show ?case using "2.IH" [OF t refl refl] capture_tick_balanced [OF t "2.prems"(2)] by blast
qed

lemma tick_passed_gate:
  assumes p: "protects um (gate_blocklist g)" and e: "te_gate e = check_windows um g w"
    and "capture_tick c hdist e room ml dxgi = Some (ml2, d2, Some f)"
  obtains md where "\<not> paused g" "query_window_context_windows um w = Inr md"
    "cw_process_name (window_ctx f) = md_process_name md" "cw_window_title (window_ctx f) = md_window_title md"
    "cw_browser_url (window_ctx f) = md_browser_url md" "md_focused_input_role md \<notin> sensitive_roles"
    "\<not> blocked (check_compiled um (default_compiled um) (context_of md))"
    "\<forall>q \<in> set (query_visible_background_processes_windows um w).
       \<not> blocked (check_compiled um (default_compiled um) (background_context q))"
proof -
  obtain ml1 ml3 where "capture_frame e ml1 dxgi = Some (ml3, d2, Inr (Some f))"
    using capture_tick_frame [OF assms(3)] by blast
  from capture_frame_ok [OF this] obtain im ml4 where
    pass: "\<not> gr_blocked (te_gate e)" and f: "f = finish_frame e (build_frame e ml4 im)" by blast
  let ?q = "query_window_context_windows um w" and ?bg = "query_visible_background_processes_windows um w"
  have n: "\<not> gr_blocked (gate_check (check um (gate_blocklist g)) (paused g) ?q ?bg)"
    using pass e by (simp add: check_windows_def check_gate_def)
  then obtain md where md: "?q = Inr md" "md_focused_input_role md \<notin> sensitive_roles" "\<not> paused g"
    "gr_window_ctx (te_gate e) = context_of md"
    unfolding gate_check_pass_iff e check_windows_def check_gate_def
    by (metis gate_result.select_convs(3))
  have "\<not> blocked (check_compiled um (default_compiled um) (context_of md))"
    using bl.gate_blocks_foreground [OF p] n md(1) by metis
  moreover have "\<forall>q \<in> set ?bg. \<not> blocked (check_compiled um (default_compiled um) (background_context q))"
    using bl.gate_blocks_background [OF p] n by metis
  ultimately show thesis using md by (intro that [of md]) (simp_all add: f frame_ctx context_of_def)
qed

section \<open>Properties\<close>

text \<open>
  End to end on Windows: a frame that a tick hands to the queue carries the process, title, URL
  and focused role of a window that passed the gate at that tick. After any start and any history
  of blocklist reloads, capture was not paused, and neither that window nor any visible background
  window is one the built-in list blocks.
\<close>

theorem captured_frame_passed_gate:
  assumes "new_blocklist um ext yaml path file watch_ok = Some bl"
    and "watch_file um ext yaml path evs bl = Some (gate_blocklist g)"
    and "te_gate e = check_windows um g w"
    and "capture_tick c hdist e room ml dxgi = Some (ml2, d2, Some f)"
  shows "\<not> paused g
     \<and> (\<exists>md. query_window_context_windows um w = Inr md
          \<and> cw_process_name (window_ctx f) = md_process_name md
          \<and> cw_window_title (window_ctx f) = md_window_title md
          \<and> cw_browser_url (window_ctx f) = md_browser_url md
          \<and> md_focused_input_role md \<notin> sensitive_roles
          \<and> \<not> blocked (check_compiled um (default_compiled um) (context_of md))
          \<and> (\<forall>q \<in> set (query_visible_background_processes_windows um w).
                \<not> blocked (check_compiled um (default_compiled um) (background_context q))))"
  by (rule tick_passed_gate [OF running_blocklist_protects [OF assms(1,2)] assms(3,4)]) blast

definition one_pixel_gdi :: gdi_env where
  "one_pixel_gdi = \<lparr>create_dc = 11, create_compatible_dc = 12, create_bitmap = 13, bit_blt_ok = True,
                    di_bits = Some [0, 0, 255, 0]\<rparr>"

definition quiet_tick :: "int \<Rightarrow> gate_result \<Rightarrow> int tick_env" where
  "quiet_tick now res = \<lparr>te_now = now, te_gate = res, te_idle_input = None, te_input = None,
     te_gdi = one_pixel_gdi, te_dxgi = WaitTimeout, te_dxgi_reopen = True, te_password_rect = None,
     te_window_rect = zero_rect, te_phash = (\<lambda>_. Inr 5)\<rparr>"

abbreviation tiny_monitor :: "int monitor_loop" where
  "tiny_monitor \<equiv> new_monitor_loop (image_rect 0 0 1 1) 0"

lemma quiet_tick_captures:
  assumes "\<not> gr_blocked res"
  shows "\<exists>ml f. capture_tick (cfg_capture config_defaults) (\<lambda>h k. Inr 64) (quiet_tick now res) True tiny_monitor None
            = Some (ml, None, Some f) \<and> last_window_key ml = window_key (gr_window_ctx res) \<and> window_since ml = now"
  using assms
  by (auto simp: capture_tick_def capture_frame_def quiet_tick_def new_monitor_loop_def switch_idle_def
      idle_limit_def config_defaults_def seconds_since_last_input_def fl64_numeral Let_def track_dwell_def window_key_def
      grab_pixels_def capture_gdi_def ensure_handles_def one_pixel_gdi_def no_handles_def
      release_handles_def image_rect_def dx_def dy_def)

theorem captured_frame_passed_gate_witness:
  "\<exists>ml f. capture_tick (cfg_capture config_defaults) (\<lambda>h k. Inr 64)
        (quiet_tick 5 (check_windows id (new_gate (default_blocklist id)) notes_desktop)) True tiny_monitor None
       = Some (ml, None, Some f) \<and> cw_process_name (window_ctx f) = ''notepad''"
proof -
  let ?g = "new_gate (default_blocklist id)"
  let ?res = "check_windows id ?g notes_desktop"
  have n: "new_blocklist id (\<lambda>_. None) (\<lambda>_. None) [] None False = Some (default_blocklist id)"
    by (simp add: new_blocklist_def hardcoded_defaults_eq)
  have w: "watch_file id (\<lambda>_. None) (\<lambda>_. None) [] [] (default_blocklist id) = Some (gate_blocklist ?g)"
    by (simp add: new_gate_def)
  have bg: "query_visible_background_processes_windows id notes_desktop = []"
    by (simp add: query_visible_background_processes_windows_def notes_desktop_def)
  have "\<not> gr_blocked ?res" using notepad_passes
    by (simp add: check_windows_def bg check_gate_def gate_check_def new_gate_def notepad_md Let_def)
  from quiet_tick_captures [OF this] obtain ml f where
    t: "capture_tick (cfg_capture config_defaults) (\<lambda>h k. Inr 64) (quiet_tick 5 ?res) True tiny_monitor None
          = Some (ml, None, Some f)" by blast
  have "te_gate (quiet_tick 5 ?res) = ?res" by (simp add: quiet_tick_def)
  from captured_frame_passed_gate [OF n w this t] t show ?thesis by (auto simp: notepad_md)
qed

text \<open>
  No GDI leak: over any number of ticks, with every call failing in any way, the objects created
  and not yet deleted are exactly the ones the loop still holds, and when the loop ends everything
  it created has been deleted.
\<close>

theorem gdi_handles_released:
  assumes "capture_run c hdist es (new_monitor_loop r i) dxgi = Some (ml, d, fs)"
  shows "created (ml_gdi_log ml) = deleted (ml_gdi_log ml)"
  using capture_run_balanced [OF assms]
  by (simp add: gdi_balanced_def new_monitor_loop_def)

theorem gdi_handles_released_witness:
  "\<exists>ml d fs. capture_run (cfg_capture config_defaults) (\<lambda>h k. Inr 64)
      [(quiet_tick 1 \<lparr>gr_blocked = False, gr_reason = ''pass'', gr_window_ctx = zero_context\<rparr>, True)]
      tiny_monitor None = Some (ml, d, fs) \<and> created (ml_gdi_log ml) = deleted (ml_gdi_log ml)"
proof -
  obtain ml d fs where r: "capture_run (cfg_capture config_defaults) (\<lambda>h k. Inr 64)
      [(quiet_tick 1 \<lparr>gr_blocked = False, gr_reason = ''pass'', gr_window_ctx = zero_context\<rparr>, True)]
      tiny_monitor None = Some (ml, d, fs)"
    using quiet_tick_captures [of "\<lparr>gr_blocked = False, gr_reason = ''pass'', gr_window_ctx = zero_context\<rparr>" 1]
    by (auto simp: release_handles_def split: prod.splits)
  from gdi_handles_released [OF this] r show ?thesis by blast
qed

text \<open>
  The password mask: every pixel of the image whose coordinates lie in the given rectangle
  (truncated to whole pixels) becomes opaque black and every other pixel is unchanged.
\<close>

theorem mask_rect_blackens:
  "in_rect (bounds im) x y \<Longrightarrow>
     img_at (mask_rect (l, t, w, h) im) x y =
       (if in_rect \<lparr>min_x = go_trunc l, min_y = go_trunc t, max_x = go_trunc l + go_trunc w,
                    max_y = go_trunc t + go_trunc h\<rparr> x y
        then black else img_at im x y)"
  by (auto simp: mask_rect_def Let_def img_at_def in_rect_def)

theorem mask_rect_blackens_witness:
  "img_at (mask_rect (1, 1, 2, 2) \<lparr>bounds = image_rect 0 0 4 4, pix = (\<lambda>x y. zero_rgba)\<rparr>) 2 2 = black"
  using mask_rect_blackens [of "\<lparr>bounds = image_rect 0 0 4 4, pix = (\<lambda>x y. zero_rgba)\<rparr>" 2 2 1 1 2 2]
  by (simp add: in_rect_def image_rect_def go_trunc_def)

text \<open>
  On a second display the mask misses: the rectangle is in virtual-screen coordinates and is not
  moved by the display's origin, so for a field on a display to the right of a 1920 pixel wide
  primary one the captured image is left as it was, while the active-window rectangle of the same
  frame is translated.
\<close>

theorem mask_misses_second_display:
  "mask_rect (2000, 100, 200, 30) \<lparr>bounds = image_rect 0 0 1920 1080, pix = p\<rparr>
     = \<lparr>bounds = image_rect 0 0 1920 1080, pix = p\<rparr>
   \<and> local_window_rect \<lparr>min_x = 2000, min_y = 100, max_x = 2200, max_y = 200\<rparr>
        (image_rect 1920 0 3840 1080) \<lparr>bounds = image_rect 0 0 1920 1080, pix = p\<rparr>
     = \<lparr>min_x = 80, min_y = 100, max_x = 280, max_y = 200\<rparr>"
proof -
  have "go_trunc 2000 = 2000" "go_trunc 100 = 100" "go_trunc 200 = 200" "go_trunc 30 = 30"
    by (simp_all add: go_trunc_def)
  then show ?thesis
    by (auto simp: mask_rect_def Let_def image_rect_def local_window_rect_def rect_intersect_def
        rect_sub_def dx_def dy_def intro!: ext)
qed

text \<open>
  Dwell time counts time spent elsewhere: while the gate blocks another window, the tracking is
  not touched, so a frame captured on return to the first window reports the whole interval as
  dwell.
\<close>

theorem dwell_counts_blocked_time:
  assumes "gr_blocked (te_gate blocked_tick)"
    and "last_window_key ml = window_key (gr_window_ctx (te_gate e))"
    and "capture_frame blocked_tick ml dxgi = Some (ml1, d1, r1)"
    and "capture_frame e ml1 d1 = Some (ml2, d2, Inr (Some f))"
  shows "ml1 = ml \<and> frame_dwell_seconds f = duration_seconds (te_now e - window_since ml)"
proof -
  have ml1: "ml1 = ml" using assms(1,3) by (simp add: capture_frame_def)
  have "gr_blocked (te_gate e) = False" using capture_frame_ok [OF assms(4)] by simp
  then obtain m im where "grab_pixels e (track_dwell (te_now e) (window_key (gr_window_ctx (te_gate e))) ml) d1
      = Some (m, d2, Inr im)"
    and f: "\<exists>im'. f = finish_frame e (build_frame e m im')"
    using assms(4) ml1 by (auto simp: capture_frame_def Let_def split: option.splits sum.splits prod.splits)
  moreover have "track_dwell (te_now e) (window_key (gr_window_ctx (te_gate e))) ml = ml"
    using assms(2) by (simp add: track_dwell_def)
  ultimately have "grab_pixels e ml d1 = Some (m, d2, Inr im)" by simp
  then have "window_since m = window_since ml"
    by (auto simp: grab_pixels_def split: if_splits option.splits prod.splits sum.splits)
  with f ml1 show ?thesis by (auto simp: frame_ctx)
qed

abbreviation pass_result :: gate_result where
  "pass_result \<equiv> \<lparr>gr_blocked = False, gr_reason = ''pass'', gr_window_ctx = zero_context\<rparr>"

theorem dwell_counts_blocked_time_witness:
  "\<exists>ml1 d1 ml2 f. capture_frame (quiet_tick 5 (block_result ''r'')) (tiny_monitor\<lparr>last_window_key := ''|''\<rparr>) None
        = Some (ml1, d1, Inr None)
     \<and> capture_frame (quiet_tick 3600000000000 pass_result) ml1 d1 = Some (ml2, None, Inr (Some f))
     \<and> frame_dwell_seconds f = duration_seconds 3600000000000"
proof -
  let ?ml = "tiny_monitor\<lparr>last_window_key := ''|''\<rparr>"
  let ?b = "quiet_tick 5 (block_result ''r'')" and ?e = "quiet_tick 3600000000000 pass_result"
  have b: "gr_blocked (te_gate ?b)" by (simp add: quiet_tick_def)
  have k: "last_window_key ?ml = window_key (gr_window_ctx (te_gate ?e))"
    by (simp add: quiet_tick_def window_key_def zero_context_def)
  have c1: "capture_frame ?b ?ml None = Some (?ml, None, Inr None)"
    by (simp add: capture_frame_def quiet_tick_def)
  obtain ml2 f where c2: "capture_frame ?e ?ml None = Some (ml2, None, Inr (Some f))"
    by (simp add: capture_frame_def quiet_tick_def new_monitor_loop_def Let_def track_dwell_def window_key_def
        zero_context_def grab_pixels_def capture_gdi_def ensure_handles_def one_pixel_gdi_def no_handles_def
        release_handles_def image_rect_def dx_def dy_def)
  from dwell_counts_blocked_time [OF b k c1 c2]
  have "frame_dwell_seconds f = duration_seconds 3600000000000"
    by (simp add: quiet_tick_def new_monitor_loop_def)
  with c1 c2 show ?thesis by blast
qed

text \<open>
  Losing the desktop: when DXGI access is lost and the session cannot be reopened, the closed
  session stays in place and the next tick that passes the gate dereferences a null interface. A
  timeout, documented as a tick to skip, is answered with a GDI capture instead.
\<close>

theorem dxgi_reopen_failure_crashes:
  "dxgi_capture_frame DxgiOpen AccessLost False = Some (DxgiClosed, Inl ''DXGI reinit failed'')
   \<and> dxgi_capture_frame DxgiClosed a reopen = None
   \<and> (\<exists>ml g. grab_pixels (quiet_tick 1 res) tiny_monitor (Some DxgiOpen)
        = Some (ml, Some DxgiOpen, Inr (bgra_image 1 1 [0, 0, 255, 0])))"
  by (simp add: dxgi_capture_frame_def grab_pixels_def quiet_tick_def new_monitor_loop_def capture_gdi_def
      ensure_handles_def one_pixel_gdi_def no_handles_def release_handles_def image_rect_def dx_def dy_def)

text \<open>
  Idle time is right across the 49-day rollover of the 32-bit tick count: for every tick count
  and every elapsed time below \<open>2 ^ 32\<close> milliseconds the result is that time in seconds, rounded once.
\<close>

theorem idle_time_across_rollover:
  assumes "elapsed < 2 ^ 32"
  shows "seconds_since_last_input (Some (word_of_nat (last_tick + elapsed), word_of_nat last_tick))
           = fl64 (of_nat elapsed / 1000)"
proof -
  have "unat (word_of_nat (last_tick + elapsed) - word_of_nat last_tick :: 32 word) = elapsed"
    using assms by (simp add: unsigned_of_nat take_bit_nat_eq_self)
  moreover have "fl64 (of_nat elapsed) = of_nat elapsed"
    using fl64_of_int [of "int elapsed"] assms by simp
  ultimately show ?thesis by (simp only: seconds_since_last_input_def option.case prod.case)
qed

theorem idle_time_across_rollover_witness:
  "seconds_since_last_input (Some (500, 4294966796)) = 1"
proof -
  have w: "(word_of_nat (4294966796 + 1000) :: 32 word) = 500" "(word_of_nat 4294966796 :: 32 word) = 4294966796"
    by simp_all
  have "seconds_since_last_input (Some (word_of_nat (4294966796 + 1000), word_of_nat 4294966796))
          = fl64 (of_nat 1000 / 1000)"
    by (rule idle_time_across_rollover) simp
  then show ?thesis unfolding w by simp
qed

end
