(* ===== verification/Encryptor.thy ===== *)
theory Encryptor
  imports Go_Strings
begin

text \<open>
  \<open>internal/storage/encrypt.go\<close> and \<open>keychain.go\<close>: sealing and opening records, and the life of the
  key. AES-GCM, HMAC-SHA256 and PBKDF2 are cryptographic primitives of the Go distribution; they are
  the fields of \<open>crypto\<close>, with the documented facts the code relies on in \<open>crypto_ok\<close>. The nonce and
  the entropy, or the failure to read them, are inputs.

  The encryptor does not copy the key it is given: key manager, encryptor and consent manager share
  one slice. That memory is a map from references to bytes, so that zeroing it is seen by all of them.
\<close>

section \<open>Primitives\<close>

record crypto =
  gcm_seal :: "bytes \<Rightarrow> bytes \<Rightarrow> bytes \<Rightarrow> bytes"
  gcm_open :: "bytes \<Rightarrow> bytes \<Rightarrow> bytes \<Rightarrow> bytes option"
  hmac_sha256 :: "bytes \<Rightarrow> bytes \<Rightarrow> bytes"
  pbkdf2 :: "bytes \<Rightarrow> bytes \<Rightarrow> bytes"

definition crypto_ok :: "crypto \<Rightarrow> bool" where
  "crypto_ok c \<longleftrightarrow> (\<forall>k n p. gcm_open c k n (gcm_seal c k n p) = Some p)
     \<and> (\<forall>k m. length (hmac_sha256 c k m) = 32) \<and> (\<forall>p s. length (pbkdf2 c p s) = 32)"

section \<open>Records\<close>

definition key_len :: nat where "key_len = 32"
definition gcm_nonce_size :: nat where "gcm_nonce_size = 12"
definition hmac_size :: nat where "hmac_size = 32"

record encrypted_record =
  rec_node_id :: bytes
  rec_timestamp :: int
  rec_data :: bytes

datatype seal_error = KeyLength nat | NonceError string

datatype open_error = TooShort nat | Tampered

text \<open>The key schedule inside \<open>cipher.Block\<close>, and the key bytes as they are in memory now.\<close>

record encryptor =
  block_key :: bytes
  mac_key :: bytes

definition new_encryptor :: "bytes \<Rightarrow> seal_error + encryptor" where
  "new_encryptor k =
     (if length k \<noteq> key_len then Inl (KeyLength (length k)) else Inr \<lparr>block_key = k, mac_key = k\<rparr>)"

definition close_encryptor :: "encryptor \<Rightarrow> encryptor" where
  "close_encryptor e = e\<lparr>mac_key := replicate (length (mac_key e)) 0\<rparr>"

text \<open>\<open>binary.BigEndian.PutUint64(uint64(ts.UnixNano()))\<close>.\<close>

fun big_endian :: "nat \<Rightarrow> int \<Rightarrow> bytes" where
  "big_endian 0 n = []"
| "big_endian (Suc k) n = big_endian k (n div 256) @ [word_of_int n]"

definition be64 :: "int \<Rightarrow> bytes" where
  "be64 ts = big_endian 8 (wrap64 ts)"

definition compute_hmac :: "crypto \<Rightarrow> encryptor \<Rightarrow> bytes \<Rightarrow> int \<Rightarrow> bytes \<Rightarrow> bytes \<Rightarrow> bytes" where
  "compute_hmac c e node_id ts nonce ct = hmac_sha256 c (mac_key e) (node_id @ be64 ts @ nonce @ ct)"

definition seal :: "crypto \<Rightarrow> encryptor \<Rightarrow> string + bytes \<Rightarrow> bytes \<Rightarrow> int \<Rightarrow> bytes \<Rightarrow> seal_error + encrypted_record" where
  "seal c e rand node_id ts plaintext =
     (case rand of
        Inl err \<Rightarrow> Inl (NonceError err)
      | Inr nonce \<Rightarrow>
          (let ct = gcm_seal c (block_key e) nonce plaintext;
               mac = compute_hmac c e node_id ts nonce ct
           in Inr \<lparr>rec_node_id = node_id, rec_timestamp = ts, rec_data = mac @ nonce @ ct\<rparr>))"

definition open_record :: "crypto \<Rightarrow> encryptor \<Rightarrow> encrypted_record \<Rightarrow> open_error + bytes" where
  "open_record c e r =
     (let d = rec_data r in
      if length d < hmac_size + gcm_nonce_size then Inl (TooShort (length d))
      else
        (let stored = take hmac_size d;
             nonce = take gcm_nonce_size (drop hmac_size d);
             ct = drop (hmac_size + gcm_nonce_size) d
         in if stored \<noteq> compute_hmac c e (rec_node_id r) (rec_timestamp r) nonce ct then Inl Tampered
            else (case gcm_open c (block_key e) nonce ct of None \<Rightarrow> Inl Tampered | Some p \<Rightarrow> Inr p)))"

section \<open>The key\<close>

text \<open>
  \<open>memory\<close> is the part of the heap that holds keys. The keychain is the answer of \<open>keyring.Get\<close>:
  a stored string, \<open>ErrNotFound\<close>, or another error.
\<close>

type_synonym memory = "nat \<Rightarrow> bytes"

datatype keyring_answer = KeyFound string | KeyNotFound | KeyringError string

datatype key_error = CorruptEntry | WrongKeyLength nat | KeychainUnavailable string | EntropyError string

record key_manager =
  km_ref :: nat

definition generate_key :: "crypto \<Rightarrow> string + bytes \<Rightarrow> key_error + bytes" where
  "generate_key c entropy =
     (case entropy of
        Inl err \<Rightarrow> Inl (EntropyError err)
      | Inr bs \<Rightarrow> Inr (pbkdf2 c (take 32 bs) (drop 32 bs)))"

text \<open>
  \<open>NewKeyManager\<close>: the key goes to a fresh reference \<open>r\<close>; the third result is the string written
  to the keychain, if one is. \<open>set_ok\<close> is the answer of \<open>keyring.Set\<close>.
\<close>

definition new_key_manager ::
  "crypto \<Rightarrow> keyring_answer \<Rightarrow> string + bytes \<Rightarrow> string option \<Rightarrow> nat \<Rightarrow> memory
     \<Rightarrow> (key_error + key_manager) \<times> memory \<times> string option" where
  "new_key_manager c answer entropy set_err r mem =
     (case answer of
        KeyFound raw \<Rightarrow>
          (case hex_decode raw of
             None \<Rightarrow> (Inl CorruptEntry, mem, None)
           | Some k \<Rightarrow>
               if length k \<noteq> key_len then (Inl (WrongKeyLength (length k)), mem, None)
               else (Inr \<lparr>km_ref = r\<rparr>, mem(r := k), None))
      | KeyringError e \<Rightarrow> (Inl (KeychainUnavailable e), mem, None)
      | KeyNotFound \<Rightarrow>
          (case generate_key c entropy of
             Inl e \<Rightarrow> (Inl e, mem, None)
           | Inr k \<Rightarrow>
               (case set_err of
                  Some e \<Rightarrow> (Inl (KeychainUnavailable e), mem(r := replicate (length k) 0), None)
                | None \<Rightarrow> (Inr \<lparr>km_ref = r\<rparr>, mem(r := k), Some (hex_encode k)))))"

definition zero_bytes :: "nat \<Rightarrow> memory \<Rightarrow> memory" where
  "zero_bytes r mem = mem(r := replicate (length (mem r)) 0)"

definition km_key :: "key_manager \<Rightarrow> memory \<Rightarrow> bytes" where
  "km_key km mem = mem (km_ref km)"

definition close_key_manager :: "key_manager \<Rightarrow> memory \<Rightarrow> memory" where
  "close_key_manager km mem = zero_bytes (km_ref km) mem"

text \<open>\<open>DeleteKey\<close>: the key in memory is zeroed on every path.\<close>

definition delete_key :: "keyring_answer \<Rightarrow> key_manager \<Rightarrow> memory \<Rightarrow> key_error option \<times> memory" where
  "delete_key answer km mem =
     (case answer of
        KeyringError e \<Rightarrow> (Some (KeychainUnavailable e), zero_bytes (km_ref km) mem)
      | _ \<Rightarrow> (None, zero_bytes (km_ref km) mem))"

text \<open>The encryptor that a reference gives: its schedule was expanded once, its MAC key is read now.\<close>

definition encryptor_view :: "bytes \<Rightarrow> nat \<Rightarrow> memory \<Rightarrow> encryptor" where
  "encryptor_view blk r mem = \<lparr>block_key = blk, mac_key = mem r\<rparr>"

section \<open>Lemmas\<close>

lemma length_big_endian [simp]: "length (big_endian k n) = k"
  by (induction k arbitrary: n) simp_all

lemma length_be64 [simp]: "length (be64 ts) = 8"
  by (simp add: be64_def)

lemma big_endian_inj:
  "big_endian k m = big_endian k n \<Longrightarrow> take_bit (8 * k) m = take_bit (8 * k) n"
proof (induction k arbitrary: m n)
  case (Suc k)
  have e: "big_endian k (m div 256) = big_endian k (n div 256)" and w: "(word_of_int m :: byte) = word_of_int n"
    using Suc.prems by simp_all
  have h: "take_bit (8 * k) (m div 256) = take_bit (8 * k) (n div 256)" by (rule Suc.IH [OF e])
  have l: "take_bit 8 m = take_bit 8 n"
    using arg_cong [OF w, of uint] by (simp add: unsigned_of_int)
  have s: "take_bit (8 * Suc k) x = take_bit 8 x + 256 * take_bit (8 * k) (x div 256)" for x :: int
  proof -
    have "take_bit (8 * Suc k) x = x mod (256 * 2 ^ (8 * k))" by (simp add: take_bit_eq_mod power_add)
    also have "\<dots> = 256 * (x div 256 mod 2 ^ (8 * k)) + x mod 256" by (rule zmod_zmult2_eq) simp
    finally show ?thesis by (simp add: take_bit_eq_mod)
  qed
  show ?case by (simp only: s h l)
qed simp

lemma be64_inj:
  assumes "be64 s = be64 t" shows "wrap64 s = wrap64 t"
proof -
  have "take_bit 64 (wrap64 s) = take_bit 64 (wrap64 t)"
    using big_endian_inj [of 8 "wrap64 s" "wrap64 t"] assms by (simp add: be64_def)
  then have "signed_take_bit 63 (wrap64 s) = signed_take_bit 63 (wrap64 t)"
    by (subst signed_take_bit_eq_iff_take_bit_eq) simp
  then show ?thesis by (simp add: wrap64_def)
qed

lemma open_seal:
  assumes "crypto_ok c" "seal c e (Inr nonce) node_id ts p = Inr r" "length nonce = gcm_nonce_size"
  shows "open_record c e r = Inr p"
  using assms
  by (auto simp: seal_def open_record_def compute_hmac_def Let_def crypto_ok_def hmac_size_def gcm_nonce_size_def)

lemma seal_ok: "\<exists>r. seal c e (Inr nonce) node_id ts p = Inr r \<and> rec_node_id r = node_id \<and> rec_timestamp r = ts"
  by (simp add: seal_def Let_def)

section \<open>Properties\<close>

text \<open>An instance of the primitives for the examples, for which the assumptions hold.\<close>

definition toy_crypto :: crypto where
  "toy_crypto = \<lparr>gcm_seal = (\<lambda>k n p. p), gcm_open = (\<lambda>k n ct. Some ct),
                 hmac_sha256 = (\<lambda>k m. replicate 32 (sum_list k + sum_list m)),
                 pbkdf2 = (\<lambda>p s. replicate 32 7)\<rparr>"

lemma toy_crypto_ok [simp]: "crypto_ok toy_crypto"
  by (simp add: crypto_ok_def toy_crypto_def)

text \<open>The message that is authenticated, as a function of a record.\<close>

definition mac_message :: "encrypted_record \<Rightarrow> bytes" where
  "mac_message r = rec_node_id r @ be64 (rec_timestamp r) @ drop 32 (rec_data r)"

lemma drop_32_split: "length d \<ge> 44 \<Longrightarrow> take 12 (drop 32 d) @ drop 44 d = drop 32 d"
  using append_take_drop_id [of 12 "drop 32 d"] by simp

lemma open_record_mac:
  assumes "length (rec_data r) \<ge> 44"
  shows "open_record c e r =
     (if take 32 (rec_data r) \<noteq> hmac_sha256 c (mac_key e) (mac_message r) then Inl Tampered
      else (case gcm_open c (block_key e) (take 12 (drop 32 (rec_data r))) (drop 44 (rec_data r)) of
              None \<Rightarrow> Inl Tampered | Some p \<Rightarrow> Inr p))"
  using assms drop_32_split [OF assms]
  by (simp add: open_record_def Let_def hmac_size_def gcm_nonce_size_def compute_hmac_def mac_message_def
      add.commute)

lemma seal_data:
  assumes "seal c e (Inr nonce) node_id ts p = Inr r" "crypto_ok c"
  shows "take 32 (rec_data r) = hmac_sha256 c (mac_key e) (mac_message r)"
    and "drop 32 (rec_data r) = nonce @ gcm_seal c (block_key e) nonce p"
    and "rec_node_id r = node_id" "rec_timestamp r = ts"
  using assms by (auto simp: seal_def Let_def mac_message_def compute_hmac_def crypto_ok_def)

text \<open>
  A record opens to exactly what was sealed, under the key it was sealed with, for every node
  identifier, timestamp, nonce and payload.
\<close>

theorem open_seal_roundtrip:
  assumes "crypto_ok c" and "new_encryptor k = Inr e" and "length nonce = 12"
  shows "\<exists>r. seal c e (Inr nonce) node_id ts p = Inr r \<and> rec_node_id r = node_id
     \<and> rec_timestamp r = ts \<and> open_record c e r = Inr p"
  using open_seal [OF assms(1), of e nonce node_id ts p] seal_ok [of c e nonce node_id ts p] assms(3)
  by (auto simp: gcm_nonce_size_def)

definition toy_key :: bytes where "toy_key = replicate 32 1"
definition toy_nonce :: bytes where "toy_nonce = replicate 12 9"
definition toy_encryptor :: encryptor where "toy_encryptor = \<lparr>block_key = toy_key, mac_key = toy_key\<rparr>"

lemma toy_facts:
  "new_encryptor toy_key = Inr toy_encryptor" "length toy_nonce = 12"
  by (simp_all add: new_encryptor_def toy_key_def toy_encryptor_def key_len_def toy_nonce_def)

theorem open_seal_roundtrip_witness:
  "\<exists>r. seal toy_crypto toy_encryptor (Inr toy_nonce) [1] 5 [7, 8] = Inr r
     \<and> open_record toy_crypto toy_encryptor r = Inr [7, 8]"
  using open_seal_roundtrip [OF toy_crypto_ok toy_facts(1,2), of "[1]" 5 "[7, 8]"] by blast

text \<open>
  C10. Tamper evidence: stored data presented with another node identifier, with a timestamp that
  differs as an \<open>int64\<close> count of nanoseconds, or with a changed nonce or ciphertext under the
  same MAC is rejected as tampered, unless the two authenticated messages collide under the MAC.
\<close>

theorem transplanted_record_rejected:
  assumes "crypto_ok c" and "seal c e (Inr nonce) node_id ts p = Inr r" and "length nonce = 12"
    and "length (rec_node_id r') = length node_id" and "length (rec_data r') \<ge> 44"
    and "take 32 (rec_data r') = take 32 (rec_data r)"
    and "rec_node_id r' \<noteq> node_id \<or> wrap64 (rec_timestamp r') \<noteq> wrap64 ts \<or> rec_data r' \<noteq> rec_data r"
    and "hmac_sha256 c (mac_key e) (mac_message r') = hmac_sha256 c (mac_key e) (mac_message r)
           \<Longrightarrow> mac_message r' = mac_message r"
  shows "open_record c e r' = Inl Tampered"
proof (rule ccontr)
  assume "open_record c e r' \<noteq> Inl Tampered"
  then have "take 32 (rec_data r') = hmac_sha256 c (mac_key e) (mac_message r')"
    using open_record_mac [OF assms(5)] by (simp split: if_splits)
  then have "hmac_sha256 c (mac_key e) (mac_message r') = hmac_sha256 c (mac_key e) (mac_message r)"
    unfolding assms(6) seal_data(1) [OF assms(2,1)] by (rule sym)
  then have "mac_message r' = mac_message r" by (rule assms(8))
  then have "rec_node_id r' = node_id" "be64 (rec_timestamp r') = be64 ts"
    "drop 32 (rec_data r') = drop 32 (rec_data r)"
    using assms(4) seal_data(3,4) [OF assms(2,1)] by (simp_all add: mac_message_def)
  moreover from this have "rec_data r' = rec_data r"
    using append_take_drop_id [of 32 "rec_data r'"] append_take_drop_id [of 32 "rec_data r"] assms(6) by argo
  ultimately show False using assms(7) be64_inj [of "rec_timestamp r'" ts] by simp
qed

theorem transplanted_record_rejected_witness:
  "\<exists>r. seal toy_crypto toy_encryptor (Inr toy_nonce) [1] 5 [7, 8] = Inr r
     \<and> open_record toy_crypto toy_encryptor (r\<lparr>rec_node_id := [2]\<rparr>) = Inl Tampered"
proof -
  obtain r where r: "seal toy_crypto toy_encryptor (Inr toy_nonce) [1] 5 [7, 8] = Inr r"
    using seal_ok by blast
  note d = seal_data [OF r toy_crypto_ok]
  have len: "length (rec_data r) \<ge> 44"
    using arg_cong [OF d(2), of length] by (simp add: toy_nonce_def)
  have "hmac_sha256 toy_crypto (mac_key toy_encryptor) (mac_message (r\<lparr>rec_node_id := [2]\<rparr>))
      = hmac_sha256 toy_crypto (mac_key toy_encryptor) (mac_message r) \<Longrightarrow> False"
    using d(3) by (simp add: toy_crypto_def mac_message_def)
  then have "open_record toy_crypto toy_encryptor (r\<lparr>rec_node_id := [2]\<rparr>) = Inl Tampered"
    by (intro transplanted_record_rejected [OF toy_crypto_ok r toy_facts(2)]) (use len in auto)
  with r show ?thesis by blast
qed

text \<open>
  The shared key: closing the encryptor zeroes the bytes the key manager hands out, and a record
  sealed afterwards carries a MAC under the all-zero key although its payload is still encrypted
  under the real one, so that it is rejected after a restart.
\<close>

theorem sealing_after_close_is_lost:
  assumes "crypto_ok c" and "new_encryptor k = Inr e" and "length nonce = 12"
    and "seal c (close_encryptor e) (Inr nonce) node_id ts p = Inr r"
    and "hmac_sha256 c (replicate 32 0) (mac_message r) \<noteq> hmac_sha256 c k (mac_message r)"
  shows "open_record c e r = Inl Tampered
     \<and> mac_key (close_encryptor e) = km_key km (close_key_manager km (\<lambda>_. k))"
proof -
  have e: "e = \<lparr>block_key = k, mac_key = k\<rparr>" "length k = 32"
    using assms(2) by (auto simp: new_encryptor_def key_len_def split: if_splits)
  note d = seal_data [OF assms(4,1)]
  have "length (take 32 (rec_data r)) = 32" using d(1) assms(1) by (simp add: crypto_ok_def)
  moreover have "length (drop 32 (rec_data r)) \<ge> 12" using d(2) assms(3) by simp
  ultimately have "length (rec_data r) \<ge> 44" by simp
  from open_record_mac [OF this] d(1) assms(5) e
  have "open_record c e r = Inl Tampered" by (simp add: close_encryptor_def)
  then show ?thesis using e
    by (simp add: close_encryptor_def km_key_def close_key_manager_def zero_bytes_def)
qed

theorem sealing_after_close_is_lost_witness:
  "\<exists>r. seal toy_crypto (close_encryptor toy_encryptor) (Inr toy_nonce) [1] 5 [7] = Inr r
     \<and> open_record toy_crypto toy_encryptor r = Inl Tampered"
proof -
  obtain r where r: "seal toy_crypto (close_encryptor toy_encryptor) (Inr toy_nonce) [1] 5 [7] = Inr r"
    using seal_ok by blast
  have "hmac_sha256 toy_crypto (replicate 32 0) (mac_message r) \<noteq> hmac_sha256 toy_crypto toy_key (mac_message r)"
    by (simp add: toy_crypto_def toy_key_def sum_list_replicate)
  from sealing_after_close_is_lost [OF toy_crypto_ok toy_facts r this] r show ?thesis by blast
qed

text \<open>
  The key survives a restart: a freshly generated key is stored in hexadecimal, and the next
  start reads back the same 32 bytes.
\<close>

theorem key_survives_restart:
  assumes "crypto_ok c" and "new_key_manager c KeyNotFound (Inr entropy) None r mem = (Inr km, mem1, stored)"
  shows "\<exists>s. stored = Some s \<and> new_key_manager c (KeyFound s) rand2 set2 r2 mem2
            = (Inr \<lparr>km_ref = r2\<rparr>, mem2(r2 := km_key km mem1), None) \<and> length (km_key km mem1) = 32"
  using assms
  by (auto simp: new_key_manager_def generate_key_def km_key_def crypto_ok_def key_len_def)

theorem key_survives_restart_witness:
  "\<exists>km mem s. new_key_manager toy_crypto KeyNotFound (Inr []) None 0 (\<lambda>_. []) = (Inr km, mem, Some s)
     \<and> new_key_manager toy_crypto (KeyFound s) (Inr []) None 1 (\<lambda>_. [])
         = (Inr \<lparr>km_ref = 1\<rparr>, (\<lambda>_. [])(1 := km_key km mem), None)"
proof -
  obtain km mem stored where k: "new_key_manager toy_crypto KeyNotFound (Inr []) None 0 (\<lambda>_. []) = (Inr km, mem, stored)"
    by (simp add: new_key_manager_def generate_key_def)
  from key_survives_restart [OF toy_crypto_ok k, of "Inr []" None 1 "\<lambda>_. []"] k show ?thesis by auto
qed

end
