(* ===== verification/Disk.thy ===== *)
theory Disk
  imports Go_Strings
begin

text \<open>
  The part of package \<open>os\<close> the storage code calls, on one directory of files, with faults: every
  call consumes one entry of the schedule \<open>faults\<close>, which lets it succeed, fail, or kill the process,
  with part of its effect done in the last two cases. A write or append may leave any prefix of
  its bytes behind, a rename or removal is done or not. After the process has died, no call has an
  effect, so the disk left behind is the one a restart finds. An empty schedule means no more faults.

  Randomness read by the code is a stream: \<open>entropy\<close> gives the nonces in order, or an error.
\<close>

datatype fault = OkIO | ErrIO "nat option" | CrashIO "nat option"

type_synonym file_map = "string \<Rightarrow> bytes option"

record fs =
  disk :: file_map
  faults :: "fault list"
  died :: bool
  entropy :: "nat \<Rightarrow> string + bytes"

definition next_fault :: "fs \<Rightarrow> fault \<times> fs" where
  "next_fault f = (case faults f of [] \<Rightarrow> (OkIO, f) | x # xs \<Rightarrow> (x, f\<lparr>faults := xs\<rparr>))"

definition mutate :: "(file_map \<Rightarrow> file_map) \<Rightarrow> (nat \<Rightarrow> file_map \<Rightarrow> file_map) \<Rightarrow> fs \<Rightarrow> bool \<times> fs" where
  "mutate full part f =
     (if died f then (False, f)
      else (case next_fault f of
              (OkIO, g) \<Rightarrow> (True, g\<lparr>disk := full (disk g)\<rparr>)
            | (ErrIO None, g) \<Rightarrow> (False, g)
            | (ErrIO (Some k), g) \<Rightarrow> (False, g\<lparr>disk := part k (disk g)\<rparr>)
            | (CrashIO None, g) \<Rightarrow> (False, g\<lparr>died := True\<rparr>)
            | (CrashIO (Some k), g) \<Rightarrow> (False, g\<lparr>disk := part k (disk g), died := True\<rparr>)))"

definition os_write_file :: "string \<Rightarrow> bytes \<Rightarrow> fs \<Rightarrow> bool \<times> fs" where
  "os_write_file p b = mutate (\<lambda>d. d(p \<mapsto> b)) (\<lambda>k d. d(p \<mapsto> take k b))"

definition old_bytes :: "file_map \<Rightarrow> string \<Rightarrow> bytes" where
  "old_bytes d p = (case d p of None \<Rightarrow> [] | Some c \<Rightarrow> c)"

definition os_append_file :: "string \<Rightarrow> bytes \<Rightarrow> fs \<Rightarrow> bool \<times> fs" where
  "os_append_file p b = mutate (\<lambda>d. d(p \<mapsto> old_bytes d p @ b)) (\<lambda>k d. d(p \<mapsto> old_bytes d p @ take k b))"

definition renamed :: "string \<Rightarrow> string \<Rightarrow> file_map \<Rightarrow> file_map" where
  "renamed p q d = (case d p of None \<Rightarrow> d | Some c \<Rightarrow> d(q \<mapsto> c, p := None))"

definition os_rename :: "string \<Rightarrow> string \<Rightarrow> fs \<Rightarrow> bool \<times> fs" where
  "os_rename p q = mutate (renamed p q) (\<lambda>k. renamed p q)"

datatype remove_result = Removed | RemoveMissing | RemoveError

definition os_remove :: "string \<Rightarrow> fs \<Rightarrow> remove_result \<times> fs" where
  "os_remove p f =
     (let missing = (disk f p = None)
      in case mutate (\<lambda>d. d(p := None)) (\<lambda>k d. d(p := None)) f of
           (True, g) \<Rightarrow> (if missing then RemoveMissing else Removed, g)
         | (False, g) \<Rightarrow> (RemoveError, g))"

datatype file_read = FileMissing | FileError | FileData bytes

definition os_read_file :: "string \<Rightarrow> fs \<Rightarrow> file_read \<times> fs" where
  "os_read_file p f =
     (case mutate id (\<lambda>k. id) f of
        (False, g) \<Rightarrow> (FileError, g)
      | (True, g) \<Rightarrow> ((case disk g p of None \<Rightarrow> FileMissing | Some b \<Rightarrow> FileData b), g))"

definition next_entropy :: "fs \<Rightarrow> (string + bytes) \<times> fs" where
  "next_entropy f = (entropy f 0, f\<lparr>entropy := (\<lambda>i. entropy f (Suc i))\<rparr>)"

text \<open>A restart: the disk stays, the new process runs without faults from here on.\<close>

definition restart :: "fs \<Rightarrow> fs" where
  "restart f = f\<lparr>faults := [], died := False\<rparr>"

definition healthy_fs :: "fs \<Rightarrow> bool" where
  "healthy_fs f \<longleftrightarrow> faults f = [] \<and> \<not> died f \<and> (\<forall>i. \<exists>n. entropy f i = Inr n \<and> length n = 12)"

definition entropy_ok :: "fs \<Rightarrow> bool" where
  "entropy_ok f \<longleftrightarrow> (\<forall>i n. entropy f i = Inr n \<longrightarrow> length n = 12)"

section \<open>Bytes and strings\<close>

definition bytes_of :: "string \<Rightarrow> bytes" where
  "bytes_of s = map (\<lambda>c. word_of_nat (of_char c)) s"

definition string_of :: "bytes \<Rightarrow> string" where
  "string_of b = map (\<lambda>w. char_of (unat w)) b"

lemma string_of_bytes_of [simp]: "string_of (bytes_of s) = s"
proof -
  have "char_of (unat (word_of_nat (of_char c) :: byte)) = c" for c :: char
  proof -
    have "(of_char c :: nat) < 256" by simp
    then show ?thesis by (simp add: unsigned_of_nat take_bit_nat_eq_self)
  qed
  then show ?thesis by (simp add: bytes_of_def string_of_def comp_def)
qed

lemma bytes_of_append [simp]: "bytes_of (s @ t) = bytes_of s @ bytes_of t"
  by (simp add: bytes_of_def)

lemma length_bytes_of [simp]: "length (bytes_of s) = length s"
  by (simp add: bytes_of_def)

lemma string_of_append [simp]: "string_of (a @ b) = string_of a @ string_of b"
  by (simp add: string_of_def)

section \<open>What the calls change\<close>

lemma mutate_disk:
  "mutate full part f = (ok, g) \<Longrightarrow>
     (ok \<longrightarrow> disk g = full (disk f) \<and> \<not> died g \<and> \<not> died f)
     \<and> (\<not> ok \<longrightarrow> disk g = disk f \<or> (\<exists>k. disk g = part k (disk f) \<and> \<not> died f))
     \<and> entropy g = entropy f \<and> (died f \<longrightarrow> g = f \<and> \<not> ok)"
  by (auto simp: mutate_def next_fault_def split: if_splits list.splits fault.splits option.splits prod.splits)

lemma mutate_healthy:
  "healthy_fs f \<Longrightarrow> mutate full part f = (True, f\<lparr>disk := full (disk f)\<rparr>)"
  by (simp add: mutate_def next_fault_def healthy_fs_def)

lemma healthy_disk_update [simp]: "healthy_fs (f\<lparr>disk := d\<rparr>) = healthy_fs f"
  by (simp add: healthy_fs_def)

lemma os_healthy:
  assumes "healthy_fs f"
  shows "os_write_file p b f = (True, f\<lparr>disk := (disk f)(p \<mapsto> b)\<rparr>)"
    "os_append_file p b f = (True, f\<lparr>disk := (disk f)(p \<mapsto> old_bytes (disk f) p @ b)\<rparr>)"
    "os_rename p q f = (True, f\<lparr>disk := renamed p q (disk f)\<rparr>)"
    "os_remove p f = (if disk f p = None then RemoveMissing else Removed, f\<lparr>disk := (disk f)(p := None)\<rparr>)"
    "os_read_file p f = ((case disk f p of None \<Rightarrow> FileMissing | Some b \<Rightarrow> FileData b), f)"
  using assms
  by (simp_all add: os_write_file_def os_append_file_def os_rename_def os_remove_def os_read_file_def
      mutate_healthy Let_def)

lemma next_entropy_healthy:
  assumes "healthy_fs f" "next_entropy f = (r, g)"
  shows "\<exists>n. r = Inr n \<and> length n = 12 \<and> healthy_fs g \<and> disk g = disk f"
  using assms unfolding healthy_fs_def next_entropy_def by auto

lemma os_write_file_effect:
  assumes "os_write_file p b f = (ok, g)"
  shows "q \<noteq> p \<Longrightarrow> disk g q = disk f q" "ok \<Longrightarrow> disk g p = Some b \<and> \<not> died g"
    "died f \<Longrightarrow> g = f \<and> \<not> ok" "entropy g = entropy f"
    "disk g p = disk f p \<or> (\<exists>k. disk g p = Some (take k b))"
  using mutate_disk [OF assms [unfolded os_write_file_def]] by (auto intro: exI [of _ "length b"])

lemma os_append_file_effect:
  assumes "os_append_file p b f = (ok, g)"
  shows "q \<noteq> p \<Longrightarrow> disk g q = disk f q" "ok \<Longrightarrow> disk g p = Some (old_bytes (disk f) p @ b) \<and> \<not> died g"
    "died f \<Longrightarrow> g = f \<and> \<not> ok" "entropy g = entropy f"
    "disk g p = disk f p \<or> (\<exists>k. disk g p = Some (old_bytes (disk f) p @ take k b))"
  using mutate_disk [OF assms [unfolded os_append_file_def]] by (auto intro: exI [of _ "length b"])

lemma os_rename_effect:
  assumes "os_rename p q f = (ok, g)"
  shows "disk g = disk f \<or> disk g = renamed p q (disk f)" "ok \<Longrightarrow> disk g = renamed p q (disk f) \<and> \<not> died g"
    "died f \<Longrightarrow> g = f \<and> \<not> ok" "entropy g = entropy f"
  using mutate_disk [OF assms [unfolded os_rename_def]] by auto

lemma os_remove_effect:
  assumes "os_remove p f = (r, g)"
  shows "q \<noteq> p \<Longrightarrow> disk g q = disk f q" "disk g p = disk f p \<or> disk g p = None"
    "r \<noteq> RemoveError \<Longrightarrow> disk g p = None \<and> \<not> died g" "died f \<Longrightarrow> g = f \<and> r = RemoveError"
    "entropy g = entropy f"
proof -
  obtain ok h where m: "mutate (\<lambda>d. d(p := None)) (\<lambda>k d. d(p := None)) f = (ok, h)"
    by (cases "mutate (\<lambda>d. d(p := None)) (\<lambda>k d. d(p := None)) f")
  have "g = h \<and> (r \<noteq> RemoveError \<longleftrightarrow> ok)" using assms m by (auto simp: os_remove_def Let_def split: bool.splits if_splits)
  with mutate_disk [OF m] show "q \<noteq> p \<Longrightarrow> disk g q = disk f q" "disk g p = disk f p \<or> disk g p = None"
    "r \<noteq> RemoveError \<Longrightarrow> disk g p = None \<and> \<not> died g" "died f \<Longrightarrow> g = f \<and> r = RemoveError"
    "entropy g = entropy f" by auto
qed

lemma os_read_file_effect:
  assumes "os_read_file p f = (r, g)"
  shows "disk g = disk f" "r = FileData b \<Longrightarrow> disk f p = Some b \<and> \<not> died g"
    "r = FileMissing \<Longrightarrow> disk f p = None \<and> \<not> died g" "died f \<Longrightarrow> g = f \<and> r = FileError" "entropy g = entropy f"
proof -
  obtain ok h where m: "mutate id (\<lambda>k. id) f = (ok, h)" by (cases "mutate id (\<lambda>k. id) f")
  have "g = h \<and> (if ok then r = (case disk h p of None \<Rightarrow> FileMissing | Some b \<Rightarrow> FileData b) else r = FileError)"
    using assms m by (auto simp: os_read_file_def split: bool.splits)
  with mutate_disk [OF m] show "disk g = disk f" "r = FileData b \<Longrightarrow> disk f p = Some b \<and> \<not> died g"
    "r = FileMissing \<Longrightarrow> disk f p = None \<and> \<not> died g" "died f \<Longrightarrow> g = f \<and> r = FileError" "entropy g = entropy f"
    by (auto split: if_splits option.splits)
qed

section \<open>Crashes as the only faults\<close>

fun is_error :: "fault \<Rightarrow> bool" where
  "is_error (ErrIO k) = True"
| "is_error x = False"

definition crash_only :: "fs \<Rightarrow> bool" where
  "crash_only f \<longleftrightarrow> list_all (\<lambda>x. \<not> is_error x) (faults f)"

lemma mutate_crash:
  "crash_only f \<Longrightarrow> mutate full part f = (ok, g) \<Longrightarrow> crash_only g \<and> (\<not> ok \<longrightarrow> died g)"
  by (auto simp: crash_only_def mutate_def next_fault_def split: if_splits list.splits fault.splits option.splits)

lemma os_crash:
  assumes "crash_only f"
  shows "os_write_file p b f = (ok, g) \<Longrightarrow> crash_only g \<and> (\<not> ok \<longrightarrow> died g)"
    "os_append_file p b f = (ok, g) \<Longrightarrow> crash_only g \<and> (\<not> ok \<longrightarrow> died g)"
    "os_rename p q f = (ok, g) \<Longrightarrow> crash_only g \<and> (\<not> ok \<longrightarrow> died g)"
    "os_remove p f = (rr, g) \<Longrightarrow> crash_only g \<and> (rr = RemoveError \<longrightarrow> died g)"
    "os_read_file p f = (rd, g) \<Longrightarrow> crash_only g \<and> (rd = FileError \<longrightarrow> died g)"
proof -
  note m = mutate_crash [OF assms]
  show "os_write_file p b f = (ok, g) \<Longrightarrow> crash_only g \<and> (\<not> ok \<longrightarrow> died g)"
    "os_append_file p b f = (ok, g) \<Longrightarrow> crash_only g \<and> (\<not> ok \<longrightarrow> died g)"
    "os_rename p q f = (ok, g) \<Longrightarrow> crash_only g \<and> (\<not> ok \<longrightarrow> died g)"
    unfolding os_write_file_def os_append_file_def os_rename_def by (rule m, assumption)+
  show "os_remove p f = (rr, g) \<Longrightarrow> crash_only g \<and> (rr = RemoveError \<longrightarrow> died g)"
  proof -
    assume a: "os_remove p f = (rr, g)"
    obtain ok h where h: "mutate (\<lambda>d. d(p := None)) (\<lambda>k d. d(p := None)) f = (ok, h)"
      by (cases "mutate (\<lambda>d. d(p := None)) (\<lambda>k d. d(p := None)) f")
    from a h m [OF h] show ?thesis by (auto simp: os_remove_def Let_def split: bool.splits if_splits)
  qed
  show "os_read_file p f = (rd, g) \<Longrightarrow> crash_only g \<and> (rd = FileError \<longrightarrow> died g)"
  proof -
    assume a: "os_read_file p f = (rd, g)"
    obtain ok h where h: "mutate id (\<lambda>k. id) f = (ok, h)" by (cases "mutate id (\<lambda>k. id) f")
    from a h m [OF h] show ?thesis by (auto simp: os_read_file_def split: bool.splits option.splits)
  qed
qed

end
