(* ===== verification/Coherence.thy ===== *)
theory Coherence
  imports Float64
begin

text \<open>
  \<open>internal/graph/coherence.go\<close>: cosine similarity and the coherence check of a new memory against
  the stored ones. The interface \<open>VectorReader\<close> is the locale \<open>vector_reader\<close>; the checker's
  properties are proved in it from the promises of a reader, which the JSON store discharges.

  A \<open>float32\<close> is its 32 bits; products of two of them are exact in \<open>float64\<close>, so a fused
  multiply-add gives the same sums.
\<close>

section \<open>Vectors\<close>

type_synonym float32 = "32 word"

definition f32_exponent :: "float32 \<Rightarrow> nat" where
  "f32_exponent w = unat (take_bit 8 (drop_bit 23 w))"

definition f32_finite :: "float32 \<Rightarrow> bool" where
  "f32_finite w \<longleftrightarrow> f32_exponent w \<noteq> 255"

definition f32_val :: "float32 \<Rightarrow> real" where
  "f32_val w =
     (let e = f32_exponent w; m = unat (take_bit 23 w);
          v = (if e = 0 then of_nat m * 2 powr (- 149) else of_nat (2 ^ 23 + m) * 2 powr (real e - 150))
      in if bit w 31 then - v else v)"

text \<open>One pass over both vectors with the three running sums \<open>dot\<close>, \<open>normA\<close>, \<open>normB\<close>.\<close>

fun cosine_sums :: "real \<times> real \<times> real \<Rightarrow> (float32 \<times> float32) list \<Rightarrow> real \<times> real \<times> real" where
  "cosine_sums acc [] = acc"
| "cosine_sums (d, na, nb) ((a, b) # xs) =
     cosine_sums (fl64 (d + fl64 (f32_val a * f32_val b)), fl64 (na + fl64 (f32_val a * f32_val a)),
                  fl64 (nb + fl64 (f32_val b * f32_val b))) xs"

definition cosine_of :: "real \<times> real \<times> real \<Rightarrow> real" where
  "cosine_of s = (case s of (d, na, nb) \<Rightarrow>
     if na = 0 \<or> nb = 0 then 0 else fl64 (d / fl64 (fl64 (sqrt na) * fl64 (sqrt nb))))"

definition cosine_similarity_graph :: "float32 list \<Rightarrow> float32 list \<Rightarrow> real" where
  "cosine_similarity_graph a b =
     (if length a \<noteq> length b \<or> a = [] then 0 else cosine_of (cosine_sums (0, 0, 0) (zip a b)))"

section \<open>The checker\<close>

record scored_node =
  sn_node_id :: string
  similarity :: real

record coherence_score =
  max_similarity :: real
  nearest_node_id :: string
  is_coherent :: bool

record coherence_config =
  threshold :: f64
  coh_k :: int

definition new_checker :: "coherence_config \<Rightarrow> coherence_config" where
  "new_checker cfg =
     (let c1 = (if coh_k cfg \<le> 0 then cfg\<lparr>coh_k := 5\<rparr> else cfg)
      in if f64_le (threshold c1) (Fin 0) then c1\<lparr>threshold := Fin (fl64 (4/10))\<rparr> else c1)"

definition incoherent :: coherence_score where
  "incoherent = \<lparr>max_similarity = 0, nearest_node_id = [], is_coherent = False\<rparr>"

fun best_neighbor :: "real \<times> string \<Rightarrow> scored_node list \<Rightarrow> real \<times> string" where
  "best_neighbor b [] = b"
| "best_neighbor b (n # ns) =
     best_neighbor (if similarity n > fst b then (similarity n, sn_node_id n) else b) ns"

text \<open>
  \<open>Checker.Check\<close> with the store's query as an argument; the second result is the error. The caller
  uses the score also when there is an error.
\<close>

definition coherence_check ::
  "(float32 list \<Rightarrow> int \<Rightarrow> string + scored_node list) \<Rightarrow> coherence_config \<Rightarrow> float32 list
     \<Rightarrow> coherence_score \<times> string option" where
  "coherence_check nearest c embedding =
     (if embedding = [] then (incoherent, Some ''embedding is empty'')
      else (case nearest embedding (coh_k c) of
        Inl err \<Rightarrow> (incoherent, Some (''querying nearest neighbors: '' @ err))
      | Inr [] \<Rightarrow> (\<lparr>max_similarity = 0, nearest_node_id = [], is_coherent = True\<rparr>, None)
      | Inr ns \<Rightarrow>
          (case best_neighbor (- 1, []) ns of (s, i) \<Rightarrow>
             (\<lparr>max_similarity = s, nearest_node_id = i, is_coherent = f64_le (threshold c) (Fin s)\<rparr>, None))))"

section \<open>Lemmas\<close>

lemma best_neighbor_ge:
  "t \<le> fst (best_neighbor b ns) \<longleftrightarrow> t \<le> fst b \<or> (\<exists>n \<in> set ns. t \<le> similarity n)"
  by (induction ns arbitrary: b) auto

section \<open>The interface to the vector store\<close>

locale vector_reader =
  fixes nearest :: "'s \<Rightarrow> float32 list \<Rightarrow> int \<Rightarrow> string + scored_node list"
    and score :: "float32 list \<Rightarrow> float32 list \<Rightarrow> real"
    and stored :: "'s \<Rightarrow> (string \<times> float32 list) set"
    and wf :: "'s \<Rightarrow> bool"
  assumes finite_stored: "wf s \<Longrightarrow> finite (stored s)"
    and nearest_law: "wf s \<Longrightarrow> q \<noteq> [] \<Longrightarrow> 0 < k \<Longrightarrow>
      \<exists>ns. nearest s q k = Inr ns \<and> int (length ns) = min k (int (card (stored s)))
        \<and> (\<forall>n \<in> set ns. \<exists>v. (sn_node_id n, v) \<in> stored s \<and> similarity n = score q v)
        \<and> (\<forall>x \<in> stored s. (\<exists>n \<in> set ns. sn_node_id n = fst x \<and> similarity n = score q (snd x))
             \<or> (\<forall>n \<in> set ns. score q (snd x) \<le> similarity n))"
begin

text \<open>The \<open>k\<close> best neighbours decide the check as all stored vectors would.\<close>

lemma check_iff:
  assumes "wf s" "q \<noteq> []" "0 < coh_k c" "threshold c = Fin t" "0 < t"
  shows "is_coherent (fst (coherence_check (nearest s) c q)) \<longleftrightarrow>
           stored s = {} \<or> (\<exists>(i, v) \<in> stored s. t \<le> score q v)"
    and "snd (coherence_check (nearest s) c q) = None"
proof -
  obtain ns where ns: "nearest s q (coh_k c) = Inr ns" "int (length ns) = min (coh_k c) (int (card (stored s)))"
    "\<forall>n \<in> set ns. \<exists>v. (sn_node_id n, v) \<in> stored s \<and> similarity n = score q v"
    "\<forall>x \<in> stored s. (\<exists>n \<in> set ns. sn_node_id n = fst x \<and> similarity n = score q (snd x))
             \<or> (\<forall>n \<in> set ns. score q (snd x) \<le> similarity n)"
    using nearest_law [OF assms(1-3)] by blast
  have empty: "ns = [] \<longleftrightarrow> stored s = {}"
    using ns(2) assms(3) finite_stored [OF assms(1)] by (auto simp: min_def split: if_splits)
  have top: "(\<exists>n \<in> set ns. t \<le> similarity n) \<longleftrightarrow> (\<exists>x \<in> stored s. t \<le> score q (snd x))" if ne: "ns \<noteq> []"
  proof
    assume "\<exists>n \<in> set ns. t \<le> similarity n"
    then obtain n where n: "n \<in> set ns" "t \<le> similarity n" by blast
    then obtain v where "(sn_node_id n, v) \<in> stored s" "similarity n = score q v" using ns(3) by blast
    with n show "\<exists>x \<in> stored s. t \<le> score q (snd x)" by force
  next
    assume "\<exists>x \<in> stored s. t \<le> score q (snd x)"
    then obtain x where x: "x \<in> stored s" "t \<le> score q (snd x)" by blast
    consider n where "n \<in> set ns" "similarity n = score q (snd x)"
      | "\<forall>n \<in> set ns. score q (snd x) \<le> similarity n" using ns(4) x(1) by blast
    then show "\<exists>n \<in> set ns. t \<le> similarity n"
    proof cases
      case 1
      then show ?thesis using x(2) by (intro bexI [of _ n]) simp_all
    next
      case 2
      moreover have "hd ns \<in> set ns" using ne by simp
      ultimately show ?thesis using x(2) order_trans by blast
    qed
  qed
  show "snd (coherence_check (nearest s) c q) = None"
    using ns(1) assms(2) by (cases ns) (simp_all add: coherence_check_def split: prod.split)
  show "is_coherent (fst (coherence_check (nearest s) c q)) \<longleftrightarrow>
           stored s = {} \<or> (\<exists>(i, v) \<in> stored s. t \<le> score q v)"
  proof (cases ns)
    case Nil
    then show ?thesis using ns(1) assms(2) empty by (simp add: coherence_check_def)
  next
    case (Cons n ms)
    have "is_coherent (fst (coherence_check (nearest s) c q)) \<longleftrightarrow> t \<le> fst (best_neighbor (- 1, []) ns)"
      using ns(1) assms(2,4) Cons by (simp add: coherence_check_def split: prod.split)
    also have "\<dots> \<longleftrightarrow> (\<exists>x \<in> stored s. t \<le> score q (snd x))"
      using top Cons assms(5) unfolding best_neighbor_ge by simp
    finally show ?thesis using empty Cons by (auto simp: case_prod_beta)
  qed
qed

end

lemma new_checker_ok:
  "threshold cfg \<noteq> NaN \<Longrightarrow> 0 < coh_k (new_checker cfg) \<and> f64_less (Fin 0) (threshold (new_checker cfg))"
proof -
  have "of_int 1 / 2 ^ 2 \<le> fl64 (4/10)"
    using fl64_mono [of "1/4" "4/10"] fl64_representable [of 1 "- 2"] by (simp add: powr_minus)
  then show "threshold cfg \<noteq> NaN \<Longrightarrow> ?thesis"
    by (cases "threshold cfg") (auto simp: new_checker_def Let_def)
qed

end
