(* ===== verification/Json_Store.thy ===== *)
theory Json_Store
  imports Disk Encryptor Coherence
begin

text \<open>
  \<open>internal/storage/jsonstore.go\<close>: the store that keeps one encrypted file per memory node, an
  encrypted index, a write-ahead log that repairs the index after a crash, and a cache of all
  embeddings. Every operation runs on the faulty disk of theory \<open>Disk\<close>; the store's locks make the
  operations atomic, so they are functions of the state.

  The JSON encoding is package \<open>encoding/json\<close>: the record \<open>codec\<close>, of which only the round trip of
  the values written is used. Times are nanoseconds since 1970; the zero \<open>time.Time\<close> is the year 1.
\<close>

section \<open>Data\<close>

type_synonym node_id = bytes

record index_entry =
  ie_id :: string
  ie_timestamp :: int

record memory_node =
  schema_version :: int
  mn_id :: node_id
  mn_captured_at :: int
  description :: string
  mn_tags :: "string list"
  mn_process_name :: string
  mn_window_title :: string
  mn_browser_url :: string
  embedding :: "float32 list"
  mn_engagement_score :: real
  mn_view_count :: int

record codec =
  marshal_index :: "index_entry list \<Rightarrow> bytes option"
  unmarshal_index :: "bytes \<Rightarrow> index_entry list option"
  marshal_node :: "memory_node \<Rightarrow> bytes option"
  unmarshal_node :: "bytes \<Rightarrow> memory_node option"

record lib =
  crypto :: crypto
  codec :: codec

datatype store_error =
    ReadIndex | OpenIndex open_error | ParseIndex
  | MarshalIndex | SealIndex seal_error | WriteTmp | RenameTmp
  | WriteNode | NodeNotFound node_id | ReadNode | DeleteNode | OpenWAL | ScanWAL | RemovePlain | ParsePlain

definition zero_time :: int where
  "zero_time = - 62135596800 * 1000000000"

text \<open>The fixed identifier and time under which the index is sealed; the identifier spells \<open>DG-IDX\<close>.\<close>

definition index_sentinel_id :: node_id where
  "index_sentinel_id = [0x44, 0x47, 0x2d, 0x49, 0x44, 0x58, 255, 255, 255, 255, 255, 255, 255, 255, 255, 255]"

definition index_sentinel_time :: int where
  "index_sentinel_time = 0"

definition node_path :: "node_id \<Rightarrow> string" where
  "node_path i = hex_encode i @ ''.enc''"

definition index_enc_path :: string where "index_enc_path = ''index.enc''"
definition index_tmp_path :: string where "index_tmp_path = ''index.enc.tmp''"
definition plain_path :: string where "plain_path = ''index.json''"
definition wal_path :: string where "wal_path = ''wal.log''"

section \<open>The index\<close>

definition load_index :: "lib \<Rightarrow> encryptor \<Rightarrow> fs \<Rightarrow> (store_error + index_entry list) \<times> fs" where
  "load_index l e f =
     (case os_read_file index_enc_path f of
        (FileMissing, g) \<Rightarrow> (Inr [], g)
      | (FileError, g) \<Rightarrow> (Inl ReadIndex, g)
      | (FileData d, g) \<Rightarrow>
          ((case open_record (crypto l) e
                   \<lparr>rec_node_id = index_sentinel_id, rec_timestamp = index_sentinel_time, rec_data = d\<rparr> of
              Inl err \<Rightarrow> Inl (OpenIndex err)
            | Inr p \<Rightarrow> (case unmarshal_index (codec l) p of None \<Rightarrow> Inl ParseIndex | Some es \<Rightarrow> Inr es)), g))"

definition save_index_entries :: "lib \<Rightarrow> encryptor \<Rightarrow> index_entry list \<Rightarrow> fs \<Rightarrow> store_error option \<times> fs" where
  "save_index_entries l e entries f =
     (case marshal_index (codec l) entries of
        None \<Rightarrow> (Some MarshalIndex, f)
      | Some p \<Rightarrow>
          (case next_entropy f of (rnd, f1) \<Rightarrow>
             (case seal (crypto l) e rnd index_sentinel_id index_sentinel_time p of
                Inl err \<Rightarrow> (Some (SealIndex err), f1)
              | Inr r \<Rightarrow>
                  (case os_write_file index_tmp_path (rec_data r) f1 of
                     (False, f2) \<Rightarrow> (Some WriteTmp, f2)
                   | (True, f2) \<Rightarrow>
                       (case os_rename index_tmp_path index_enc_path f2 of
                          (False, f3) \<Rightarrow> (Some RenameTmp, f3)
                        | (True, f3) \<Rightarrow> (None, f3))))))"

text \<open>\<open>appendIndex\<close> ignores the error of \<open>loadIndex\<close>: an unreadable index counts as empty.\<close>

definition entries_or_empty :: "store_error + index_entry list \<Rightarrow> index_entry list" where
  "entries_or_empty r = (case r of Inl _ \<Rightarrow> [] | Inr es \<Rightarrow> es)"

definition append_index :: "lib \<Rightarrow> encryptor \<Rightarrow> node_id \<Rightarrow> int \<Rightarrow> fs \<Rightarrow> store_error option \<times> fs" where
  "append_index l e i ts f =
     (case load_index l e f of (r, f1) \<Rightarrow>
        (let entries = entries_or_empty r; hid = hex_encode i in
         if list_ex (\<lambda>x. ie_id x = hid) entries then (None, f1)
         else save_index_entries l e (entries @ [\<lparr>ie_id = hid, ie_timestamp = ts\<rparr>]) f1))"

definition remove_from_index :: "lib \<Rightarrow> encryptor \<Rightarrow> node_id \<Rightarrow> fs \<Rightarrow> store_error option \<times> fs" where
  "remove_from_index l e i f =
     (case load_index l e f of
        (Inl err, f1) \<Rightarrow> (Some err, f1)
      | (Inr entries, f1) \<Rightarrow>
          save_index_entries l e (filter (\<lambda>x. ie_id x \<noteq> hex_encode i) entries) f1)"

definition timestamp_from_index :: "lib \<Rightarrow> encryptor \<Rightarrow> node_id \<Rightarrow> fs \<Rightarrow> int \<times> fs" where
  "timestamp_from_index l e i f =
     (case load_index l e f of (r, f1) \<Rightarrow>
        ((case find (\<lambda>x. ie_id x = hex_encode i) (entries_or_empty r) of
            None \<Rightarrow> zero_time | Some x \<Rightarrow> ie_timestamp x), f1))"

section \<open>The write-ahead log\<close>

definition wal_line :: "node_id \<Rightarrow> int \<Rightarrow> string" where
  "wal_line i ts = hex_encode i @ '' '' @ itoa (wrap64 ts) @ [CHR 0x0A]"

definition append_wal :: "node_id \<Rightarrow> int \<Rightarrow> fs \<Rightarrow> bool \<times> fs" where
  "append_wal i ts f = os_append_file wal_path (bytes_of (wal_line i ts)) f"

text \<open>
  \<open>bufio.Scanner\<close> with \<open>ScanLines\<close>: a trailing carriage return is dropped, an empty last line is no
  line, and a line of \<open>2 ^ 16\<close> bytes or more stops the scan with an error.
\<close>

definition drop_cr :: "string \<Rightarrow> string" where
  "drop_cr s = (if s \<noteq> [] \<and> last s = CHR 0x0D then butlast s else s)"

definition scan_lines :: "string \<Rightarrow> string list option" where
  "scan_lines s =
     (let ls = split_on CHR 0x0A s; ls1 = (if last ls = [] then butlast ls else ls)
      in if list_ex (\<lambda>x. length x \<ge> 65536) ls1 then None else Some (map drop_cr ls1))"

definition parse_wal_line :: "string \<Rightarrow> (node_id \<times> int) option" where
  "parse_wal_line raw =
     (let line = trim_space raw in
      if line = [] then None
      else (case split_first CHR '' '' line of
              [h, n] \<Rightarrow>
                (case hex_decode h of
                   None \<Rightarrow> None
                 | Some i \<Rightarrow> if length i \<noteq> 16 then None else map_option (Pair i) (parse_int n))
            | _ \<Rightarrow> None))"

definition wal_entries :: "string \<Rightarrow> (node_id \<times> int) list option" where
  "wal_entries s = map_option (\<lambda>ls. List.map_filter parse_wal_line ls) (scan_lines s)"

fun reindex_orphans :: "lib \<Rightarrow> encryptor \<Rightarrow> string set \<Rightarrow> (node_id \<times> int) list \<Rightarrow> fs \<Rightarrow> fs" where
  "reindex_orphans l e known [] f = f"
| "reindex_orphans l e known ((i, ts) # ws) f =
     (if hex_encode i \<in> known then reindex_orphans l e known ws f
      else (case os_read_file (node_path i) f of
              (FileMissing, f1) \<Rightarrow> reindex_orphans l e known ws f1
            | (_, f1) \<Rightarrow> reindex_orphans l e known ws (snd (append_index l e i ts f1))))"

definition replay_wal :: "lib \<Rightarrow> encryptor \<Rightarrow> fs \<Rightarrow> store_error option \<times> fs" where
  "replay_wal l e f =
     (case os_read_file wal_path f of
        (FileMissing, f1) \<Rightarrow> (None, f1)
      | (FileError, f1) \<Rightarrow> (Some OpenWAL, f1)
      | (FileData d, f1) \<Rightarrow>
          (case wal_entries (string_of d) of
             None \<Rightarrow> (Some ScanWAL, f1)
           | Some [] \<Rightarrow> (None, snd (os_remove wal_path f1))
           | Some ws \<Rightarrow>
               (case load_index l e f1 of (r, f2) \<Rightarrow>
                  (let f3 = reindex_orphans l e (ie_id ` set (entries_or_empty r)) ws f2
                   in (None, snd (os_remove wal_path f3))))))"

section \<open>Records\<close>

definition write_record :: "lib \<Rightarrow> encryptor \<Rightarrow> node_id \<Rightarrow> int \<Rightarrow> bytes \<Rightarrow> fs \<Rightarrow> store_error option \<times> fs" where
  "write_record l e i ts payload f =
     (case append_wal i ts f of (_, f1) \<Rightarrow>
        (case os_write_file (node_path i) payload f1 of
           (False, f2) \<Rightarrow> (Some WriteNode, f2)
         | (True, f2) \<Rightarrow> (None, snd (append_index l e i ts f2))))"

definition read_record :: "lib \<Rightarrow> encryptor \<Rightarrow> node_id \<Rightarrow> fs \<Rightarrow> (store_error + bytes \<times> int) \<times> fs" where
  "read_record l e i f =
     (case os_read_file (node_path i) f of
        (FileMissing, f1) \<Rightarrow> (Inl (NodeNotFound i), f1)
      | (FileError, f1) \<Rightarrow> (Inl ReadNode, f1)
      | (FileData d, f1) \<Rightarrow> (case timestamp_from_index l e i f1 of (ts, f2) \<Rightarrow> (Inr (d, ts), f2)))"

definition delete_record :: "lib \<Rightarrow> encryptor \<Rightarrow> node_id \<Rightarrow> fs \<Rightarrow> store_error option \<times> fs" where
  "delete_record l e i f =
     (case os_remove (node_path i) f of
        (RemoveError, f1) \<Rightarrow> (Some DeleteNode, f1)
      | (_, f1) \<Rightarrow> remove_from_index l e i f1)"

definition entry_id :: "index_entry \<Rightarrow> node_id option" where
  "entry_id x = (case hex_decode (ie_id x) of None \<Rightarrow> None | Some i \<Rightarrow> if length i = 16 then Some i else None)"

definition list_in_range :: "lib \<Rightarrow> encryptor \<Rightarrow> int \<Rightarrow> int \<Rightarrow> fs \<Rightarrow> (store_error + node_id list) \<times> fs" where
  "list_in_range l e t0 t1 f =
     (case load_index l e f of
        (Inl err, f1) \<Rightarrow> (Inl err, f1)
      | (Inr es, f1) \<Rightarrow>
          (Inr (List.map_filter entry_id
                  (filter (\<lambda>x. (t0 = zero_time \<or> \<not> ie_timestamp x < t0) \<and> ie_timestamp x < t1) es)), f1))"

definition list_older_than :: "lib \<Rightarrow> encryptor \<Rightarrow> int \<Rightarrow> fs \<Rightarrow> (store_error + node_id list) \<times> fs" where
  "list_older_than l e t f =
     (case load_index l e f of
        (Inl err, f1) \<Rightarrow> (Inl err, f1)
      | (Inr es, f1) \<Rightarrow> (Inr (List.map_filter entry_id (filter (\<lambda>x. ie_timestamp x < t) es)), f1))"

text \<open>Newest first; \<open>sort.Slice\<close> leaves the order of equal timestamps open, a stable sort is one choice.\<close>

definition list_entries_by_time :: "lib \<Rightarrow> encryptor \<Rightarrow> fs \<Rightarrow> (store_error + (node_id \<times> int) list) \<times> fs" where
  "list_entries_by_time l e f =
     (case load_index l e f of
        (Inl err, f1) \<Rightarrow> (Inl err, f1)
      | (Inr es, f1) \<Rightarrow>
          (Inr (sort_key (\<lambda>x. - snd x)
                  (List.map_filter (\<lambda>x. map_option (\<lambda>i. (i, ie_timestamp x)) (entry_id x)) es)), f1))"

definition count_records :: "lib \<Rightarrow> encryptor \<Rightarrow> fs \<Rightarrow> (store_error + nat \<times> int) \<times> fs" where
  "count_records l e f =
     (case load_index l e f of
        (Inl err, f1) \<Rightarrow> (Inl err, f1)
      | (Inr es, f1) \<Rightarrow> (Inr (length es, foldl (\<lambda>m x. if ie_timestamp x > m then ie_timestamp x else m) zero_time es), f1))"

section \<open>The embedding cache and similarity search\<close>

type_synonym cache = "node_id \<rightharpoonup> float32 list"

definition update_embedding_cache :: "node_id \<Rightarrow> float32 list \<Rightarrow> cache \<Rightarrow> cache" where
  "update_embedding_cache i emb c = (if emb = [] then c else c(i \<mapsto> emb))"

definition evict_embedding_cache :: "node_id \<Rightarrow> cache \<Rightarrow> cache" where
  "evict_embedding_cache i c = c(i := None)"

text \<open>The sums run over the shorter length: vectors of different dimension are truncated.\<close>

definition cosine_similarity :: "float32 list \<Rightarrow> float32 list \<Rightarrow> real" where
  "cosine_similarity a b = cosine_of (cosine_sums (0, 0, 0) (zip a b))"

text \<open>
  \<open>candidates\<close> is the content of the cache in the order in which Go iterates over the map, which is
  any order; a negative \<open>k\<close> makes \<open>make\<close> panic.
\<close>

definition nearest_neighbors ::
  "(node_id \<times> float32 list) list \<Rightarrow> float32 list \<Rightarrow> int \<Rightarrow> scored_node list option" where
  "nearest_neighbors candidates query k =
     (if query = [] then Some []
      else
        (let scored = map (\<lambda>(i, emb). \<lparr>sn_node_id = hex_encode i, similarity = cosine_similarity query emb\<rparr>) candidates;
             sorted = sort_key (\<lambda>n. - similarity n) scored;
             k1 = (if k > int (length sorted) then int (length sorted) else k)
         in if k1 < 0 then None else Some (take (nat k1) sorted)))"

fun load_cache_entries :: "lib \<Rightarrow> encryptor \<Rightarrow> index_entry list \<Rightarrow> cache \<Rightarrow> fs \<Rightarrow> cache \<times> fs" where
  "load_cache_entries l e [] c f = (c, f)"
| "load_cache_entries l e (x # xs) c f =
     (case entry_id x of
        None \<Rightarrow> load_cache_entries l e xs c f
      | Some i \<Rightarrow>
          (case os_read_file (node_path i) f of
             (FileData d, f1) \<Rightarrow>
               (case open_record (crypto l) e \<lparr>rec_node_id = i, rec_timestamp = ie_timestamp x, rec_data = d\<rparr> of
                  Inl _ \<Rightarrow> load_cache_entries l e xs c f1
                | Inr p \<Rightarrow>
                    (case unmarshal_node (codec l) p of
                       None \<Rightarrow> load_cache_entries l e xs c f1
                     | Some n \<Rightarrow>
                         if embedding n = [] then load_cache_entries l e xs c f1
                         else load_cache_entries l e xs (c(i \<mapsto> embedding n)) f1))
           | (_, f1) \<Rightarrow> load_cache_entries l e xs c f1))"

definition load_embedding_cache :: "lib \<Rightarrow> encryptor \<Rightarrow> fs \<Rightarrow> cache \<times> fs" where
  "load_embedding_cache l e f =
     (case load_index l e f of
        (Inl _, f1) \<Rightarrow> (Map.empty, f1)
      | (Inr es, f1) \<Rightarrow> load_cache_entries l e es Map.empty f1)"

section \<open>Opening the store\<close>

definition migrate_index_if_needed :: "lib \<Rightarrow> encryptor \<Rightarrow> fs \<Rightarrow> store_error option \<times> fs" where
  "migrate_index_if_needed l e f =
     (case os_read_file plain_path f of
        (FileMissing, f1) \<Rightarrow> (None, f1)
      | (_, f1) \<Rightarrow>
          (case os_read_file index_enc_path f1 of
             (FileData _, f2) \<Rightarrow>
               (case os_remove plain_path f2 of
                  (Removed, f3) \<Rightarrow> (None, f3) | (_, f3) \<Rightarrow> (Some RemovePlain, f3))
           | (_, f2) \<Rightarrow>
               (case os_read_file plain_path f2 of
                  (FileData d, f3) \<Rightarrow>
                    (case unmarshal_index (codec l) d of
                       None \<Rightarrow> (Some ParsePlain, f3)
                     | Some es \<Rightarrow>
                         (case save_index_entries l e es f3 of
                            (Some err, f4) \<Rightarrow> (Some err, f4)
                          | (None, f4) \<Rightarrow> (None, snd (os_remove plain_path f4))))
                | (_, f3) \<Rightarrow> (Some ReadIndex, f3))))"

definition new_json_store :: "lib \<Rightarrow> encryptor \<Rightarrow> fs \<Rightarrow> cache \<times> fs" where
  "new_json_store l e f =
     load_embedding_cache l e (snd (replay_wal l e (snd (migrate_index_if_needed l e f))))"

section \<open>What the encoding promises\<close>

text \<open>
  \<open>encoding/json\<close> reads back the values it wrote for the entries and nodes that occur: ASCII
  identifiers, valid UTF-8 text, finite numbers and times within the years of \<open>int64\<close> nanoseconds.
\<close>

definition index_safe :: "index_entry list \<Rightarrow> bool" where
  "index_safe es \<longleftrightarrow> list_all (\<lambda>x. is_ascii (ie_id x) \<and> int64_range (ie_timestamp x)) es"

text \<open>Valid UTF-8, by the length and continuation bytes of each rune; the fuel is the length.\<close>

definition utf8_width :: "string \<Rightarrow> nat" where
  "utf8_width s = (case s of [] \<Rightarrow> 0 | c # cs \<Rightarrow>
     (let n = (of_char c :: nat); cont = (\<lambda>k. length cs \<ge> k \<and> list_all (\<lambda>d. 128 \<le> (of_char d :: nat) \<and> (of_char d :: nat) < 192) (take k cs))
      in if n < 128 then 1
         else if 194 \<le> n \<and> n < 224 \<and> cont 1 then 2
         else if 224 \<le> n \<and> n < 240 \<and> cont 2 then 3
         else if 240 \<le> n \<and> n < 245 \<and> cont 3 then 4 else 0))"

fun valid_utf8_from :: "nat \<Rightarrow> string \<Rightarrow> bool" where
  "valid_utf8_from 0 s = (s = [])"
| "valid_utf8_from (Suc n) s =
     (if s = [] then True else utf8_width s \<noteq> 0 \<and> valid_utf8_from n (drop (utf8_width s) s))"

definition valid_utf8 :: "string \<Rightarrow> bool" where
  "valid_utf8 s = valid_utf8_from (length s) s"

definition node_safe :: "memory_node \<Rightarrow> bool" where
  "node_safe n \<longleftrightarrow> int64_range (mn_captured_at n) \<and> int64_range (schema_version n) \<and> int64_range (mn_view_count n)
     \<and> length (mn_id n) = 16 \<and> list_all f32_finite (embedding n) \<and> fl64 (mn_engagement_score n) = mn_engagement_score n
     \<and> list_all valid_utf8 (description n # mn_process_name n # mn_window_title n # mn_browser_url n # mn_tags n)"

definition codec_ok :: "codec \<Rightarrow> bool" where
  "codec_ok j \<longleftrightarrow>
     (\<forall>es. index_safe es \<longrightarrow> (\<exists>b. marshal_index j es = Some b \<and> unmarshal_index j b = Some es))
   \<and> (\<forall>n. node_safe n \<longrightarrow> (\<exists>b. marshal_node j n = Some b \<and> unmarshal_node j b = Some n))"

definition lib_ok :: "lib \<Rightarrow> bool" where
  "lib_ok l \<longleftrightarrow> crypto_ok (crypto l) \<and> codec_ok (codec l)"

section \<open>The index on disk\<close>

definition read_index :: "lib \<Rightarrow> encryptor \<Rightarrow> file_map \<Rightarrow> index_entry list option" where
  "read_index l e d =
     (case d index_enc_path of
        None \<Rightarrow> Some []
      | Some b \<Rightarrow>
          (case open_record (crypto l) e
                 \<lparr>rec_node_id = index_sentinel_id, rec_timestamp = index_sentinel_time, rec_data = b\<rparr> of
             Inl _ \<Rightarrow> None
           | Inr p \<Rightarrow> unmarshal_index (codec l) p))"

named_theorems paths \<open>the file names are different\<close>

lemma node_path_length: "length (node_path i) = 2 * length i + 4"
  by (simp add: node_path_def)

lemma path_facts [paths]:
  "index_tmp_path \<noteq> index_enc_path" "index_enc_path \<noteq> index_tmp_path" "wal_path \<noteq> index_enc_path"
  "wal_path \<noteq> index_tmp_path" "index_enc_path \<noteq> wal_path" "index_tmp_path \<noteq> wal_path"
  "plain_path \<noteq> index_enc_path" "index_enc_path \<noteq> plain_path"
  by (simp_all add: index_tmp_path_def index_enc_path_def wal_path_def plain_path_def)

lemma node_path_facts [paths]:
  assumes "length i = 16"
  shows "node_path i \<noteq> index_enc_path" "node_path i \<noteq> index_tmp_path" "node_path i \<noteq> wal_path"
    "index_enc_path \<noteq> node_path i" "index_tmp_path \<noteq> node_path i" "wal_path \<noteq> node_path i"
    "node_path i \<noteq> plain_path"
proof -
  have n: "node_path i \<noteq> p" "p \<noteq> node_path i" if "length p \<noteq> 36" for p
    using that assms node_path_length [of i] by auto
  show "node_path i \<noteq> index_enc_path" "node_path i \<noteq> index_tmp_path" "node_path i \<noteq> wal_path"
    "index_enc_path \<noteq> node_path i" "index_tmp_path \<noteq> node_path i" "wal_path \<noteq> node_path i"
    "node_path i \<noteq> plain_path"
    by (rule n, simp add: index_tmp_path_def index_enc_path_def wal_path_def plain_path_def)+
qed

lemma node_path_inj [simp]: "node_path i = node_path j \<longleftrightarrow> i = j"
  using hex_encode_inj by (auto simp: node_path_def)

lemma load_index_spec:
  assumes "load_index l e f = (r, g)"
  shows "disk g = disk f" "entropy g = entropy f" "died f \<Longrightarrow> g = f \<and> r = Inl ReadIndex"
    "r = Inr es \<Longrightarrow> read_index l e (disk f) = Some es \<and> \<not> died g"
    "r \<noteq> Inl ReadIndex \<Longrightarrow> read_index l e (disk f) = (case r of Inl _ \<Rightarrow> None | Inr es \<Rightarrow> Some es)"
proof -
  obtain x h where x: "os_read_file index_enc_path f = (x, h)" by (cases "os_read_file index_enc_path f")
  note eff = os_read_file_effect [OF x]
  from assms x have g: "g = h" by (auto simp: load_index_def split: file_read.splits)
  show "disk g = disk f" "entropy g = entropy f" using eff g by simp_all
  show "died f \<Longrightarrow> g = f \<and> r = Inl ReadIndex" using eff(4) assms x by (auto simp: load_index_def)
  show "r = Inr es \<Longrightarrow> read_index l e (disk f) = Some es \<and> \<not> died g"
    using eff assms x by (auto simp: load_index_def read_index_def split: file_read.splits sum.splits option.splits)
  show "r \<noteq> Inl ReadIndex \<Longrightarrow> read_index l e (disk f) = (case r of Inl _ \<Rightarrow> None | Inr es \<Rightarrow> Some es)"
    using eff assms x by (auto simp: load_index_def read_index_def split: file_read.splits sum.splits option.splits)
qed

lemma load_index_healthy:
  "healthy_fs f \<Longrightarrow> read_index l e (disk f) = Some es \<Longrightarrow> load_index l e f = (Inr es, f)"
  by (auto simp: load_index_def read_index_def os_healthy split: option.splits sum.splits)

lemma read_index_sealed:
  assumes "lib_ok l" "marshal_index (codec l) es = Some p" "unmarshal_index (codec l) p = Some es"
    "seal (crypto l) e (Inr n) index_sentinel_id index_sentinel_time p = Inr r" "length n = 12"
    "d index_enc_path = Some (rec_data r)"
  shows "read_index l e d = Some es"
proof -
  have "r = \<lparr>rec_node_id = index_sentinel_id, rec_timestamp = index_sentinel_time, rec_data = rec_data r\<rparr>"
    using assms(4) by (auto simp: seal_def Let_def)
  with open_seal [OF _ assms(4)] assms(1,5)
  have "open_record (crypto l) e
      \<lparr>rec_node_id = index_sentinel_id, rec_timestamp = index_sentinel_time, rec_data = rec_data r\<rparr> = Inr p"
    by (metis gcm_nonce_size_def lib_ok_def)
  then show ?thesis using assms(3,6) by (simp add: read_index_def)
qed

text \<open>
  The index is replaced atomically: whatever fault strikes, the index on disk is the old or the new
  one, and no other file but the temporary one changes.
\<close>

text \<open>A sealed index goes to the temporary file and replaces the old one in a single rename.\<close>

lemma save_index_sealed:
  assumes "lib_ok l" "marshal_index (codec l) es = Some p" "unmarshal_index (codec l) p = Some es"
    "next_entropy f = (Inr x, f1)" "length x = 12" "seal (crypto l) e (Inr x) index_sentinel_id index_sentinel_time p = Inr rec"
    "save_index_entries l e es f = (r, g)"
  shows "(\<forall>q. q \<noteq> index_enc_path \<longrightarrow> q \<noteq> index_tmp_path \<longrightarrow> disk g q = disk f1 q) \<and>
      (read_index l e (disk g) = read_index l e (disk f1) \<or> read_index l e (disk g) = Some es) \<and>
      (r = None \<longrightarrow> read_index l e (disk g) = Some es) \<and> entropy g = entropy f1
      \<and> (died f1 \<longrightarrow> disk g = disk f1 \<and> died g \<and> r \<noteq> None)"
proof -
  obtain ok f2 where w: "os_write_file index_tmp_path (rec_data rec) f1 = (ok, f2)"
    by (cases "os_write_file index_tmp_path (rec_data rec) f1")
  note we = os_write_file_effect [OF w]
  have i2: "read_index l e (disk f2) = read_index l e (disk f1)"
    using we(1) [of index_enc_path] by (simp add: read_index_def paths)
  obtain ok3 f3 where v: "os_rename index_tmp_path index_enc_path f2 = (ok3, f3)"
    by (cases "os_rename index_tmp_path index_enc_path f2")
  note ve = os_rename_effect [OF v]
  have new: "read_index l e d = Some es" if "d = renamed index_tmp_path index_enc_path (disk f2)" ok for d
    using read_index_sealed [OF assms(1-3,6,5)] that we(2) by (simp add: renamed_def paths)
  have q3: "disk f3 q = disk f2 q" if "q \<noteq> index_enc_path" "q \<noteq> index_tmp_path" for q
    using ve(1) that by (auto simp: renamed_def split: option.splits)
  consider "\<not> ok" "g = f2" "r \<noteq> None" | "ok" "g = f3" "r = None \<longleftrightarrow> ok3"
    using assms(2,4,6,7) w v by (auto simp: save_index_entries_def split: bool.splits)
  then show ?thesis
  proof cases
    case 1
    then show ?thesis using we(1,3,4) i2 by auto
  next
    case 2
    have "disk f3 = disk f2 \<or> disk f3 = renamed index_tmp_path index_enc_path (disk f2)" by (rule ve(1))
    then show ?thesis using 2 we(1,3,4) i2 new ve(2,4) q3 by auto
  qed
qed

lemma save_index_spec:
  assumes "lib_ok l" "index_safe es" "entropy_ok f" "save_index_entries l e es f = (r, g)"
  shows "q \<noteq> index_enc_path \<Longrightarrow> q \<noteq> index_tmp_path \<Longrightarrow> disk g q = disk f q"
    and "read_index l e (disk g) = read_index l e (disk f) \<or> read_index l e (disk g) = Some es"
    and "r = None \<Longrightarrow> read_index l e (disk g) = Some es"
    and "entropy_ok g" and "died f \<Longrightarrow> disk g = disk f \<and> died g \<and> r \<noteq> None"
proof -
  obtain p where p: "marshal_index (codec l) es = Some p" "unmarshal_index (codec l) p = Some es"
    using assms(1,2) by (auto simp: lib_ok_def codec_ok_def)
  obtain rnd f1 where n: "next_entropy f = (rnd, f1)" by (cases "next_entropy f")
  have f1: "disk f1 = disk f" "entropy_ok f1" "died f1 = died f"
    and rnd: "\<And>x. rnd = Inr x \<Longrightarrow> length x = 12"
    using n assms(3) by (auto simp: next_entropy_def entropy_ok_def)
  have all: "(\<forall>q. q \<noteq> index_enc_path \<longrightarrow> q \<noteq> index_tmp_path \<longrightarrow> disk g q = disk f q) \<and>
      (read_index l e (disk g) = read_index l e (disk f) \<or> read_index l e (disk g) = Some es) \<and>
      (r = None \<longrightarrow> read_index l e (disk g) = Some es) \<and> entropy_ok g \<and> (died f \<longrightarrow> disk g = disk f \<and> died g \<and> r \<noteq> None)"
  proof (cases "seal (crypto l) e rnd index_sentinel_id index_sentinel_time p")
    case (Inl err)
    then have "g = f1 \<and> r \<noteq> None" using assms(4) p n by (auto simp: save_index_entries_def)
    then show ?thesis using f1 by auto
  next
    case (Inr rec)
    then obtain x where x: "rnd = Inr x" by (cases rnd) (auto simp: seal_def)
    from save_index_sealed [OF assms(1) p n [unfolded x] rnd [OF x] Inr [unfolded x] assms(4)] f1
    show ?thesis by (auto simp: entropy_ok_def)
  qed
  then show "q \<noteq> index_enc_path \<Longrightarrow> q \<noteq> index_tmp_path \<Longrightarrow> disk g q = disk f q"
    and "read_index l e (disk g) = read_index l e (disk f) \<or> read_index l e (disk g) = Some es"
    and "r = None \<Longrightarrow> read_index l e (disk g) = Some es"
    and "entropy_ok g" and "died f \<Longrightarrow> disk g = disk f \<and> died g \<and> r \<noteq> None"
    by auto
qed

end
