(* ===== verification/Sample_Codec.thy ===== *)
theory Sample_Codec
  imports Json_Store "HOL-Library.Countable_Set"
begin

text \<open>
  A codec and a library for which \<open>codec_ok\<close> and \<open>lib_ok\<close> hold: the assumptions about
  \<open>encoding/json\<close> and the cryptographic primitives can be met together. The values that occur form
  a countable set, and the sample codec writes their number in unary.
\<close>

definition entry_fields :: "index_entry \<Rightarrow> string \<times> int" where
  "entry_fields x = (ie_id x, ie_timestamp x)"

definition node_fields :: "memory_node \<Rightarrow> (int \<times> node_id \<times> int \<times> string \<times> string list \<times> string
    \<times> string \<times> string \<times> float32 list \<times> int) \<times> real" where
  "node_fields n = ((schema_version n, mn_id n, mn_captured_at n, description n, mn_tags n, mn_process_name n,
     mn_window_title n, mn_browser_url n, embedding n, mn_view_count n), mn_engagement_score n)"

definition sample_codec :: codec where
  "sample_codec = \<lparr>
     marshal_index = (\<lambda>es. Some (replicate (to_nat_on {es. index_safe es} es) 0)),
     unmarshal_index = (\<lambda>b. Some (from_nat_into {es. index_safe es} (length b))),
     marshal_node = (\<lambda>n. Some (replicate (to_nat_on {n. node_safe n} n) 0)),
     unmarshal_node = (\<lambda>b. Some (from_nat_into {n. node_safe n} (length b)))\<rparr>"

definition sample_lib :: lib where
  "sample_lib = \<lparr>crypto = toy_crypto, codec = sample_codec\<rparr>"

lemma countable_indexes: "countable {es. index_safe es}"
proof -
  have "inj entry_fields" by (rule injI) (simp add: entry_fields_def)
  then have "inj (map entry_fields)" by simp
  then have "countable (UNIV :: index_entry list set)"
    by (rule countableI' [OF inj_compose [of to_nat], OF inj_to_nat, unfolded comp_def])
  then show ?thesis by (rule countable_subset [OF subset_UNIV])
qed

lemma fixed_scores: "fl64 x = x \<Longrightarrow> x \<in> range (\<lambda>p. of_int (fst p) * 2 powr of_int (snd p))"
proof (cases "x = 0")
  case True
  then show ?thesis by (intro range_eqI [of _ _ "(0, 0)"]) simp
next
  case False
  assume "fl64 x = x"
  with False show ?thesis
    by (intro range_eqI [of _ _ "(rne (x / 2 powr of_int (ulp_exp x)), ulp_exp x)"]) (simp add: fl64_def)
qed

lemma countable_nodes: "countable {n. node_safe n}"
proof -
  have "inj node_fields" by (rule injI, rule memory_node.equality) (simp_all add: node_fields_def)
  then have "inj_on node_fields {n. node_safe n}" by (rule inj_on_subset) simp
  moreover have "node_fields ` {n. node_safe n} \<subseteq> UNIV \<times> range (\<lambda>p. of_int (fst p) * 2 powr of_int (snd p))"
    using fixed_scores by (auto simp: node_fields_def node_safe_def simp del: range_eqI)
  then have "countable (node_fields ` {n. node_safe n})"
    by (rule countable_subset) (intro countable_SIGMA countableI_type countable_image)
  ultimately show ?thesis by (rule countable_image_inj_on [rotated])
qed

lemma sample_codec_ok: "codec_ok sample_codec"
  by (simp add: codec_ok_def sample_codec_def from_nat_into_to_nat_on [OF countable_indexes]
      from_nat_into_to_nat_on [OF countable_nodes])

lemma sample_lib_ok: "lib_ok sample_lib"
  by (simp add: lib_ok_def sample_lib_def sample_codec_ok toy_crypto_ok)

text \<open>An empty directory on a disk that works, and one on which the process dies at the given call.\<close>

definition sample_fs :: "fault list \<Rightarrow> fs" where
  "sample_fs xs = \<lparr>disk = Map.empty, faults = xs, died = False, entropy = (\<lambda>_. Inr (replicate 12 0))\<rparr>"

lemma sample_fs_simps [simp]:
  "disk (sample_fs xs) = Map.empty" "healthy_fs (sample_fs [])" "faults (sample_fs xs) = xs" "\<not> died (sample_fs xs)"
  "entropy (sample_fs xs) n = Inr (replicate 12 0)"
  by (simp_all add: sample_fs_def healthy_fs_def)

end
