(* ===== verification/Store_Recovery.thy ===== *)
theory Store_Recovery
  imports Sample_Codec
begin

text \<open>
  What the store of \<open>internal/storage/jsonstore.go\<close> guarantees: the write-ahead log is read back up to
  a torn last line, a crash at any moment of a write loses no other record, and after the restart
  every node file is listed again; reads, deletes and the time queries on a healthy disk.
\<close>

section \<open>Reading the log back\<close>

definition wal_body :: "node_id \<times> int \<Rightarrow> string" where
  "wal_body w = hex_encode (fst w) @ '' '' @ itoa (wrap64 (snd w))"

lemma wal_line_body: "wal_line i ts = wal_body (i, ts) @ [CHR 0x0A]"
  by (simp add: wal_line_def wal_body_def)

definition wal_char :: "char \<Rightarrow> bool" where
  "wal_char c \<longleftrightarrow> is_hex c \<or> c = CHR '' '' \<or> c = CHR ''-''"

lemma wal_char_line_end: "wal_char c \<Longrightarrow> c \<noteq> CHR 0x0A \<and> c \<noteq> CHR 0x0D"
  by (auto simp: wal_char_def is_hex_def is_digit_def less_eq_char_def)

lemma hex_char_not_space:
  assumes "is_hex c \<or> c = CHR ''-''"
  shows "c \<noteq> CHR '' ''" "c \<notin> set (map hd space_runes)" "c \<notin> set (map last space_runes)"
proof -
  have "list_all (\<lambda>d. \<not> (is_hex d \<or> d = CHR ''-'')) (CHR '' '' # map hd space_runes @ map last space_runes)"
    by code_simp
  with assms show "c \<noteq> CHR '' ''" "c \<notin> set (map hd space_runes)" "c \<notin> set (map last space_runes)"
    by (auto simp: list_all_iff)
qed

lemma hex_encode_chars: "c \<in> set (hex_encode bs) \<Longrightarrow> is_hex c"
proof (induction bs)
  case (Cons b bs)
  have "unat b < 256" using unsigned_less [of b] by simp
  then have "unat b div 16 < 16" by simp
  with Cons show ?case using hex_digit_ok by auto
qed simp

lemma itoa_chars: "c \<in> set (itoa n) \<Longrightarrow> is_hex c \<or> c = CHR ''-''"
  using digits_chars by (auto simp: itoa_def is_hex_def split: if_splits)

lemma wal_body_chars: "c \<in> set (wal_body w) \<Longrightarrow> wal_char c"
  using hex_encode_chars itoa_chars by (auto simp: wal_body_def wal_char_def)

lemma length_digits: "n < 10 ^ Suc k \<Longrightarrow> length (digits n) \<le> Suc k"
proof (induction k arbitrary: n)
  case 0
  then show ?case by (simp add: digits.simps [of n])
next
  case (Suc k)
  then have "n div 10 < 10 ^ Suc k" by (simp add: less_mult_imp_div_less)
  from Suc.IH [OF this] show ?case by (simp add: digits.simps [of n])
qed

lemma length_wal_body: "length i = 16 \<Longrightarrow> length (wal_body (i, ts)) < 65536"
proof -
  have "int64_range (wrap64 ts)" by (rule wrap64_in_range)
  then have "nat (wrap64 ts) < 10 ^ Suc 18" "nat (- wrap64 ts) < 10 ^ Suc 18"
    by (auto simp: int64_range_def nat_less_iff)
  from this [THEN length_digits] show "length i = 16 \<Longrightarrow> ?thesis"
    by (simp add: wal_body_def itoa_def)
qed

lemma split_on_lines:
  assumes "\<forall>b \<in> set bs. CHR 0x0A \<notin> set b" "CHR 0x0A \<notin> set t"
  shows "split_on CHR 0x0A (concat (map (\<lambda>b. b @ [CHR 0x0A]) bs) @ t) = bs @ [t]"
  using assms by (induction bs) (simp_all add: split_on_no_sep split_on_append)

lemma drop_cr_id: "CHR 0x0D \<notin> set s \<Longrightarrow> drop_cr s = s"
  using last_in_set by (fastforce simp: drop_cr_def)

lemma scan_log:
  assumes "\<forall>b \<in> set bs. list_all wal_char b \<and> length b < 65536 \<and> b \<noteq> []" "list_all wal_char t" "length t < 65536"
  shows "scan_lines (concat (map (\<lambda>b. b @ [CHR 0x0A]) bs) @ t) = Some (bs @ (if t = [] then [] else [t]))"
proof -
  have nl: "CHR 0x0A \<notin> set b" "CHR 0x0D \<notin> set b" if "list_all wal_char b" for b
    using that wal_char_line_end by (auto simp: list_all_iff)
  have "map drop_cr bs = bs" using assms(1) nl by (simp add: map_idI drop_cr_id)
  moreover have "split_on CHR 0x0A (concat (map (\<lambda>b. b @ [CHR 0x0A]) bs) @ t) = bs @ [t]"
    using assms nl by (intro split_on_lines) auto
  ultimately show ?thesis using assms nl [of t]
    by (auto simp: scan_lines_def Let_def drop_cr_id list_ex_iff butlast_append)
qed

lemma trim_space_prefix:
  assumes "s = [] \<or> hd s \<notin> set (map hd space_runes)"
  shows "prefix (trim_space s) s" "s = [] \<or> last s \<notin> set (map last space_runes) \<Longrightarrow> trim_space s = s"
proof -
  have l: "trim_with space_len (length s) s = s"
    using assms space_len_0 by (cases s) auto
  then show "prefix (trim_space s) s"
    using trim_with_suffix [of space_len_rev "length s" "rev s"]
    by (simp add: trim_space_def Let_def suffix_to_prefix)
  assume e: "s = [] \<or> last s \<notin> set (map last space_runes)"
  have ne: "list_all (\<lambda>r. r \<noteq> []) space_runes" by code_simp
  have "space_len_rev (rev s) = 0" if "s \<noteq> []"
  proof -
    have "\<not> has_prefix (rev r) (rev s)" if "r \<in> set space_runes" for r
    proof
      assume "has_prefix (rev r) (rev s)"
      moreover have "r \<noteq> []" using ne that by (auto simp: list_all_iff)
      ultimately have "last r = last s"
        by (simp add: has_prefix_iff) (metis last_appendR prefix_def rev_append rev_rev_ident)
      moreover have "last r \<in> set (map last space_runes)" using that by simp
      ultimately show False using e \<open>s \<noteq> []\<close> by simp
    qed
    then have "find (\<lambda>r. has_prefix (rev r) (rev s)) space_runes = None" by (simp add: find_None_iff)
    then show ?thesis by (simp add: space_len_rev_def)
  qed
  then have "trim_with space_len_rev (length s) (rev s) = rev s" by (cases "s = []"; cases "length s") auto
  with l show "trim_space s = s" by (simp add: trim_space_def Let_def)
qed

lemma split_first_no_sep: "d \<notin> set s \<Longrightarrow> split_first d s = [s]"
  by (induction s) auto

lemma hex_no_space: "CHR '' '' \<notin> set (hex_encode i)"
  using hex_encode_chars hex_char_not_space(1) by blast

lemma parse_wal_body:
  assumes "length i = 16"
  shows "parse_wal_line (wal_body (i, ts)) = Some (i, wrap64 ts)"
proof -
  have ne: "hex_encode i \<noteq> []" using assms by (metis length_hex_encode list.size(3) mult_is_0 zero_neq_numeral)
  have h: "is_hex (hd (wal_body (i, ts)))" using ne hex_encode_chars [of "hd (hex_encode i)" i] by (simp add: wal_body_def)
  have n: "itoa (wrap64 ts) \<noteq> []" by (simp add: itoa_def)
  then have "is_hex (last (wal_body (i, ts))) \<or> last (wal_body (i, ts)) = CHR ''-''"
    using itoa_chars [of "last (itoa (wrap64 ts))" "wrap64 ts"] by (simp add: wal_body_def)
  then have "trim_space (wal_body (i, ts)) = wal_body (i, ts)"
    using h hex_char_not_space by (intro trim_space_prefix(2)) blast+
  moreover have "split_first CHR '' '' (wal_body (i, ts)) = [hex_encode i, itoa (wrap64 ts)]"
    using split_first_append [OF hex_no_space] by (simp add: wal_body_def)
  ultimately show ?thesis using assms ne parse_int_itoa [OF wrap64_in_range]
    by (simp add: parse_wal_line_def Let_def wal_body_def)
qed

lemma parse_torn_wal_line:
  assumes "length i = 16" "prefix t (wal_body (i, ts))" "parse_wal_line t = Some w"
  shows "fst w = i"
proof -
  have "is_hex (hd t)" if "t \<noteq> []"
  proof -
    have "hex_encode i \<noteq> []" using assms(1) by (metis length_hex_encode list.size(3) mult_is_0 zero_neq_numeral)
    then have "hd t \<in> set (hex_encode i)" using assms(2) that
      by (cases t) (auto simp: wal_body_def prefix_def append_eq_Cons_conv)
    then show ?thesis by (rule hex_encode_chars)
  qed
  then have "prefix (trim_space t) t" using hex_char_not_space(2) by (intro trim_space_prefix(1)) blast
  with assms(2) have "prefix (trim_space t) (wal_body (i, ts))" by (rule prefix_order.order_trans [rotated])
  then obtain u where u: "wal_body (i, ts) = trim_space t @ u" by (auto simp: prefix_def)
  define s where "s = trim_space t"
  from assms(3) obtain h n j where p: "split_first CHR '' '' s = [h, n]" "hex_decode h = Some j" "fst w = j"
    by (auto simp: parse_wal_line_def Let_def s_def split: if_splits list.splits option.splits)
  have "\<exists>v. s = hex_encode i @ CHR '' '' # v"
  proof (rule ccontr)
    assume no: "\<not> ?thesis"
    have "hex_encode i @ CHR '' '' # itoa (wrap64 ts) = s @ u" using u by (simp add: wal_body_def s_def)
    then have "prefix s (hex_encode i)" using no by (auto simp: append_eq_append_conv2 Cons_eq_append_conv)
    then have "CHR '' '' \<notin> set s" using hex_no_space set_mono_prefix by blast
    from split_first_no_sep [OF this] p(1) show False by simp
  qed
  then have "h = hex_encode i" using p(1) split_first_append [OF hex_no_space] by auto
  then show ?thesis using p by simp
qed

lemma parse_wal_range: "parse_wal_line t = Some w \<Longrightarrow> int64_range (snd w)"
  using parse_int_range
  by (auto simp: parse_wal_line_def Let_def split: if_splits list.splits option.splits)

definition wal_text :: "(node_id \<times> int) list \<Rightarrow> string" where
  "wal_text ws = concat (map (\<lambda>w. wal_body w @ [CHR 0x0A]) ws)"

text \<open>Complete lines are read back; a torn last line gives at most one entry, for the same node.\<close>

lemma wal_entries_torn:
  assumes "\<forall>w \<in> set ws. length (fst w) = 16" "length i = 16"
  shows "\<exists>xs. wal_entries (wal_text ws @ take k (wal_line i ts)) = Some (map (apsnd wrap64) ws @ xs)
           \<and> (\<forall>x \<in> set xs. fst x = i \<and> int64_range (snd x)) \<and> (length (wal_line i ts) \<le> k \<longrightarrow> xs = [(i, wrap64 ts)])
           \<and> (k = 0 \<longrightarrow> xs = [])"
proof -
  have body: "list_all wal_char (wal_body w) \<and> length (wal_body w) < 65536 \<and> wal_body w \<noteq> []" if "length (fst w) = 16" for w
    using that wal_body_chars length_wal_body [of "fst w" "snd w"] by (auto simp: list_all_iff wal_body_def)
  have parsed: "List.map_filter parse_wal_line (map wal_body us) = map (apsnd wrap64) us"
    if "\<forall>w \<in> set us. length (fst w) = 16" for us
    using that by (induction us) (auto simp: List.map_filter_simps parse_wal_body)
  have bodies: "\<forall>b \<in> set (map wal_body us). list_all wal_char b \<and> length b < 65536 \<and> b \<noteq> []"
    if "\<forall>w \<in> set us. length (fst w) = 16" for us using that body by auto
  show ?thesis
  proof (cases "length (wal_line i ts) \<le> k")
    case True
    then have "wal_text ws @ take k (wal_line i ts) = wal_text (ws @ [(i, ts)])"
      by (simp add: wal_text_def wal_line_body)
    moreover have "wal_entries (wal_text (ws @ [(i, ts)])) = Some (map (apsnd wrap64) (ws @ [(i, ts)]))"
      using assms scan_log [OF bodies [of "ws @ [(i, ts)]"], of "[]"] parsed [of "ws @ [(i, ts)]"]
      by (simp add: wal_entries_def wal_text_def comp_def)
    moreover have "k \<noteq> 0" using True by (auto simp: wal_line_def)
    ultimately show ?thesis using wrap64_in_range by auto
  next
    case False
    define t where "t = take k (wal_line i ts)"
    have pre: "prefix t (wal_body (i, ts))" using False by (simp add: t_def wal_line_body take_is_prefix)
    then have t: "list_all wal_char t" "length t < 65536"
      using body [of "(i, ts)"] assms(2) prefix_length_le [OF pre] set_mono_prefix [OF pre] by (auto simp: list_all_iff)
    have torn: "\<forall>x \<in> set (List.map_filter parse_wal_line (if t = [] then [] else [t])). fst x = i \<and> int64_range (snd x)"
      using parse_torn_wal_line [OF assms(2) pre] parse_wal_range by (auto simp: List.map_filter_def split: if_splits)
    have app: "List.map_filter g (as @ bs) = List.map_filter g as @ List.map_filter g bs" for g :: "string \<Rightarrow> (node_id \<times> int) option" and as bs
      by (simp add: List.map_filter_def)
    have "wal_entries (wal_text ws @ t) =
        Some (map (apsnd wrap64) ws @ List.map_filter parse_wal_line (if t = [] then [] else [t]))"
      using scan_log [OF bodies [OF assms(1)] t] parsed [OF assms(1)]
      by (simp add: wal_entries_def wal_text_def comp_def app del: if_split)
    moreover have "k = 0 \<longrightarrow> List.map_filter parse_wal_line (if t = [] then [] else [t]) = []"
      by (simp add: t_def List.map_filter_def)
    ultimately show ?thesis using torn False unfolding t_def by blast
  qed
qed

section \<open>The index under crashes and on a healthy disk\<close>

definition add_entry :: "index_entry list \<Rightarrow> node_id \<Rightarrow> int \<Rightarrow> index_entry list" where
  "add_entry es i ts =
     (if hex_encode i \<in> ie_id ` set es then es else es @ [\<lparr>ie_id = hex_encode i, ie_timestamp = ts\<rparr>])"

lemma hex_ascii: "is_ascii (hex_encode i)"
proof -
  have "(of_char c :: nat) < 128" if "is_hex c" for c
    using that by (auto simp: is_hex_def is_digit_def less_eq_char_def)
  then show ?thesis using hex_encode_chars by (auto simp: is_ascii_def list_all_iff)
qed

lemma index_safe_add: "index_safe es \<Longrightarrow> int64_range ts \<Longrightarrow> index_safe (add_entry es i ts)"
  using hex_ascii by (simp add: add_entry_def index_safe_def)

lemma index_safe_filter: "index_safe es \<Longrightarrow> index_safe (filter P es)"
  by (auto simp: index_safe_def list_all_iff)

lemma append_index_add:
  "append_index l e i ts f = (case load_index l e f of (r, f1) \<Rightarrow>
     if hex_encode i \<in> ie_id ` set (entries_or_empty r) then (None, f1)
     else save_index_entries l e (add_entry (entries_or_empty r) i ts) f1)"
proof -
  have "list_ex (\<lambda>x. ie_id x = h) xs \<longleftrightarrow> h \<in> ie_id ` set xs" for h and xs :: "index_entry list" by (auto simp: list_ex_iff)
  then show ?thesis by (simp add: append_index_def Let_def add_entry_def split: prod.split)
qed

lemma load_index_crash:
  assumes "crash_only f" "load_index l e f = (r, g)"
  shows "crash_only g" "r = Inl ReadIndex \<Longrightarrow> died g"
proof -
  obtain x h where x: "os_read_file index_enc_path f = (x, h)" by (cases "os_read_file index_enc_path f")
  from assms(2) x have "g = h" "r = Inl ReadIndex \<longrightarrow> x = FileError"
    by (auto simp: load_index_def split: file_read.splits sum.splits option.splits)
  with os_crash(5) [OF assms(1) x] show "crash_only g" "r = Inl ReadIndex \<Longrightarrow> died g" by auto
qed

definition entropy_fine :: "fs \<Rightarrow> bool" where
  "entropy_fine f \<longleftrightarrow> (\<forall>k. \<exists>n. entropy f k = Inr n \<and> length n = 12)"

lemma entropy_fine_ok: "entropy_fine f \<Longrightarrow> entropy_ok f"
  unfolding entropy_fine_def entropy_ok_def by (metis sum.inject(2))

lemma save_index_crash:
  assumes "lib_ok l" "index_safe es" "entropy_fine f" "crash_only f" "save_index_entries l e es f = (r, g)"
  shows "crash_only g \<and> entropy_fine g \<and> (r \<noteq> None \<longrightarrow> died g)"
proof -
  obtain p where p: "marshal_index (codec l) es = Some p"
    using assms(1,2) by (auto simp: lib_ok_def codec_ok_def)
  obtain rnd f1 where n: "next_entropy f = (rnd, f1)" by (cases "next_entropy f")
  have f1: "crash_only f1" "entropy_fine f1" "\<exists>x. rnd = Inr x"
    using n assms(3,4) by (auto simp: next_entropy_def entropy_fine_def crash_only_def)
  then obtain rec where r: "seal (crypto l) e rnd index_sentinel_id index_sentinel_time p = Inr rec"
    by (auto simp: seal_def Let_def)
  obtain ok f2 where w: "os_write_file index_tmp_path (rec_data rec) f1 = (ok, f2)"
    by (cases "os_write_file index_tmp_path (rec_data rec) f1")
  have f2: "crash_only f2 \<and> entropy_fine f2 \<and> (\<not> ok \<longrightarrow> died f2)"
    using os_crash(1) [OF f1(1) w] os_write_file_effect(4) [OF w] f1(2) by (simp add: entropy_fine_def)
  obtain ok3 f3 where v: "os_rename index_tmp_path index_enc_path f2 = (ok3, f3)"
    by (cases "os_rename index_tmp_path index_enc_path f2")
  have f3: "crash_only f3 \<and> entropy_fine f3 \<and> (\<not> ok3 \<longrightarrow> died f3)"
    using os_crash(3) [OF conjunct1 [OF f2] v] os_rename_effect(4) [OF v] f2 by (simp add: entropy_fine_def)
  show ?thesis using assms(5) p n r w v f2 f3 by (auto simp: save_index_entries_def split: bool.splits)
qed

lemma save_index_healthy:
  assumes "lib_ok l" "index_safe es" "healthy_fs f"
  shows "\<exists>g. save_index_entries l e es f = (None, g) \<and> healthy_fs g \<and> read_index l e (disk g) = Some es
    \<and> (\<forall>q. q \<noteq> index_enc_path \<longrightarrow> q \<noteq> index_tmp_path \<longrightarrow> disk g q = disk f q)"
proof -
  obtain p where p: "marshal_index (codec l) es = Some p"
    using assms(1,2) by (auto simp: lib_ok_def codec_ok_def)
  obtain rnd f1 where n: "next_entropy f = (rnd, f1)" by (cases "next_entropy f")
  from next_entropy_healthy [OF assms(3) n] obtain x where x: "rnd = Inr x" "healthy_fs f1" by blast
  obtain r where r: "seal (crypto l) e rnd index_sentinel_id index_sentinel_time p = Inr r"
    using x by (simp add: seal_def Let_def)
  obtain s g where sg: "save_index_entries l e es f = (s, g)" by (cases "save_index_entries l e es f")
  have "s = None \<and> healthy_fs g" using sg p n r x(2) by (auto simp: save_index_entries_def os_healthy)
  moreover have "entropy_ok f" using assms(3) by (intro entropy_fine_ok) (simp add: healthy_fs_def entropy_fine_def)
  from save_index_spec [OF assms(1,2) this sg] have
    "\<forall>q. q \<noteq> index_enc_path \<longrightarrow> q \<noteq> index_tmp_path \<longrightarrow> disk g q = disk f q"
    "s = None \<Longrightarrow> read_index l e (disk g) = Some es" by blast+
  ultimately show ?thesis using sg by simp
qed

text \<open>A process whose only fault is to die keeps the old index or writes the new one.\<close>

definition crash_fs :: "fs \<Rightarrow> bool" where
  "crash_fs f \<longleftrightarrow> crash_only f \<and> entropy_fine f"

lemma update_index_crash:
  assumes "lib_ok l" "index_safe es'" "crash_fs f" "save_index_entries l e es' f = (r, g)"
  shows "crash_fs g" "died f \<Longrightarrow> disk g = disk f \<and> died g"
    "q \<noteq> index_enc_path \<Longrightarrow> q \<noteq> index_tmp_path \<Longrightarrow> disk g q = disk f q"
    "read_index l e (disk g) \<in> {read_index l e (disk f), Some es'}"
    "\<not> died g \<Longrightarrow> read_index l e (disk g) = Some es'"
proof -
  have f: "entropy_fine f" "crash_only f" using assms(3) by (simp_all add: crash_fs_def)
  note c = save_index_crash [OF assms(1,2) f assms(4)]
  note s = save_index_spec [OF assms(1,2) entropy_fine_ok [OF f(1)] assms(4)]
  show "crash_fs g" using c by (simp add: crash_fs_def)
  show "died f \<Longrightarrow> disk g = disk f \<and> died g" using s(5) by simp
  show "q \<noteq> index_enc_path \<Longrightarrow> q \<noteq> index_tmp_path \<Longrightarrow> disk g q = disk f q" by (rule s(1))
  show "read_index l e (disk g) \<in> {read_index l e (disk f), Some es'}" using s(2) by auto
  show "\<not> died g \<Longrightarrow> read_index l e (disk g) = Some es'" using s(3) c by blast
qed

lemma append_index_healthy:
  assumes "lib_ok l" "index_safe es" "healthy_fs f" "read_index l e (disk f) = Some es" "int64_range ts"
  shows "\<exists>g. append_index l e i ts f = (None, g) \<and> healthy_fs g \<and> read_index l e (disk g) = Some (add_entry es i ts)
    \<and> (\<forall>q. q \<noteq> index_enc_path \<longrightarrow> q \<noteq> index_tmp_path \<longrightarrow> disk g q = disk f q)"
proof (cases "hex_encode i \<in> ie_id ` set es")
  case True
  then show ?thesis using load_index_healthy [OF assms(3,4)] assms(3,4)
    by (auto simp: append_index_add entries_or_empty_def add_entry_def)
next
  case False
  then have "append_index l e i ts f = save_index_entries l e (add_entry es i ts) f"
    using load_index_healthy [OF assms(3,4)] by (simp add: append_index_add entries_or_empty_def)
  with save_index_healthy [OF assms(1) index_safe_add [OF assms(2,5), of i] assms(3), of e] show ?thesis by simp
qed

lemma append_index_crash:
  assumes "lib_ok l" "crash_fs f" "read_index l e (disk f) = Some es" "index_safe es"
    "int64_range ts" "append_index l e i ts f = (r, g)"
  shows "crash_fs g" "died f \<Longrightarrow> disk g = disk f \<and> died g"
    "q \<noteq> index_enc_path \<Longrightarrow> q \<noteq> index_tmp_path \<Longrightarrow> disk g q = disk f q"
    "read_index l e (disk g) \<in> {Some es, Some (add_entry es i ts)}"
    "\<not> died g \<Longrightarrow> read_index l e (disk g) = Some (add_entry es i ts)"
proof -
  obtain x f1 where x: "load_index l e f = (x, f1)" by (cases "load_index l e f")
  note ld = load_index_spec [OF x]
  have f1: "crash_fs f1" "died f \<Longrightarrow> died f1"
    using load_index_crash(1) [OF _ x] ld(2,3) assms(2) by (auto simp: crash_fs_def entropy_fine_def)
  have all: "crash_fs g \<and> (died f1 \<longrightarrow> disk g = disk f \<and> died g)
    \<and> (\<forall>q. q \<noteq> index_enc_path \<longrightarrow> q \<noteq> index_tmp_path \<longrightarrow> disk g q = disk f q)
    \<and> read_index l e (disk g) \<in> {Some es, Some (add_entry es i ts)}
    \<and> (\<not> died g \<longrightarrow> read_index l e (disk g) = Some (add_entry es i ts))"
  proof (cases "x = Inl ReadIndex")
    case True
    have d: "died f1" using load_index_crash(2) [OF _ x True] assms(2) by (simp add: crash_fs_def)
    have s: "save_index_entries l e (add_entry [] i ts) f1 = (r, g)"
      using assms(6) x True by (simp add: append_index_add entries_or_empty_def)
    have safe: "index_safe (add_entry [] i ts)" using assms(5) by (intro index_safe_add) (simp_all add: index_safe_def)
    show ?thesis using update_index_crash(1,2) [OF assms(1) safe f1(1) s] d ld(1) assms(3) by simp
  next
    case False
    then have xe: "x = Inr es" using ld(5) [OF False] assms(3) by (auto split: sum.splits)
    then have alive: "\<not> died f1" using ld(4) by blast
    show ?thesis
    proof (cases "hex_encode i \<in> ie_id ` set es")
      case True
      then have "g = f1" using assms(6) x xe by (simp add: append_index_add entries_or_empty_def)
      with True show ?thesis using assms(3) f1(1) ld(1) alive by (simp add: add_entry_def)
    next
      case False
      then have s: "save_index_entries l e (add_entry es i ts) f1 = (r, g)"
        using assms(6) x xe by (simp add: append_index_add entries_or_empty_def)
      show ?thesis using update_index_crash [OF assms(1) index_safe_add [OF assms(4,5)] f1(1) s] ld(1) assms(3) alive
        by simp
    qed
  qed
  show "crash_fs g" "died f \<Longrightarrow> disk g = disk f \<and> died g"
    "q \<noteq> index_enc_path \<Longrightarrow> q \<noteq> index_tmp_path \<Longrightarrow> disk g q = disk f q"
    "read_index l e (disk g) \<in> {Some es, Some (add_entry es i ts)}"
    "\<not> died g \<Longrightarrow> read_index l e (disk g) = Some (add_entry es i ts)"
    using all f1(2) by auto
qed

lemma remove_from_index_crash:
  assumes "lib_ok l" "crash_fs f" "read_index l e (disk f) = Some es" "index_safe es"
    "remove_from_index l e i f = (r, g)"
  defines "es' \<equiv> filter (\<lambda>x. ie_id x \<noteq> hex_encode i) es"
  shows "crash_fs g" "died f \<Longrightarrow> disk g = disk f \<and> died g"
    "q \<noteq> index_enc_path \<Longrightarrow> q \<noteq> index_tmp_path \<Longrightarrow> disk g q = disk f q"
    "read_index l e (disk g) \<in> {Some es, Some es'}"
    "\<not> died g \<Longrightarrow> read_index l e (disk g) = Some es'"
proof -
  obtain x f1 where x: "load_index l e f = (x, f1)" by (cases "load_index l e f")
  note ld = load_index_spec [OF x]
  have f1: "crash_fs f1" "died f \<Longrightarrow> died f1"
    using load_index_crash(1) [OF _ x] ld(2,3) assms(2) by (auto simp: crash_fs_def entropy_fine_def)
  have all: "crash_fs g \<and> (died f1 \<longrightarrow> disk g = disk f \<and> died g)
    \<and> (\<forall>q. q \<noteq> index_enc_path \<longrightarrow> q \<noteq> index_tmp_path \<longrightarrow> disk g q = disk f q)
    \<and> read_index l e (disk g) \<in> {Some es, Some es'} \<and> (\<not> died g \<longrightarrow> read_index l e (disk g) = Some es')"
  proof (cases "x = Inl ReadIndex")
    case True
    then have "died f1" "g = f1"
      using load_index_crash(2) [OF _ x True] assms(2,5) x by (simp_all add: crash_fs_def remove_from_index_def)
    then show ?thesis using f1(1) ld(1) assms(3) by simp
  next
    case False
    then have xe: "x = Inr es" using ld(5) [OF False] assms(3) by (auto split: sum.splits)
    then have s: "save_index_entries l e es' f1 = (r, g)" "\<not> died f1"
      using assms(5) x ld(4) by (simp_all add: remove_from_index_def es'_def)
    show ?thesis using update_index_crash [OF assms(1) index_safe_filter [OF assms(4)] f1(1) s(1) [unfolded es'_def]] ld(1) assms(3) s(2)
      by (simp add: es'_def)
  qed
  show "crash_fs g" "died f \<Longrightarrow> disk g = disk f \<and> died g"
    "q \<noteq> index_enc_path \<Longrightarrow> q \<noteq> index_tmp_path \<Longrightarrow> disk g q = disk f q"
    "read_index l e (disk g) \<in> {Some es, Some es'}"
    "\<not> died g \<Longrightarrow> read_index l e (disk g) = Some es'"
    using all f1(2) by auto
qed

text \<open>One line of the log: an orphan is listed, everything else leaves the index.\<close>

lemma reindex_step_crash:
  assumes "lib_ok l" "index_safe es" "crash_fs f" "read_index l e (disk f) = Some es"
    "length i = 16" "int64_range ts" "known \<subseteq> ie_id ` set es"
  obtains es' f2 where "reindex_orphans l e known ((i, ts) # ws) f = reindex_orphans l e known ws f2"
    "crash_fs f2" "died f \<longrightarrow> died f2" "read_index l e (disk f2) = Some es'" "es' \<in> {es, add_entry es i ts}"
    "\<forall>q. q \<noteq> index_enc_path \<longrightarrow> q \<noteq> index_tmp_path \<longrightarrow> disk f2 q = disk f q"
    "died f2 \<or> disk f (node_path i) = None \<or> hex_encode i \<in> ie_id ` set es'"
proof -
  obtain x f1 where x: "os_read_file (node_path i) f = (x, f1)" by (cases "os_read_file (node_path i) f")
  note xe = os_read_file_effect [OF x]
  have f1: "crash_fs f1" "disk f1 = disk f" "died f \<longrightarrow> died f1" "read_index l e (disk f1) = Some es"
    using os_crash(5) [OF _ x] xe(1,4,5) assms(3,4) by (auto simp: crash_fs_def entropy_fine_def)
  consider (listed) "hex_encode i \<in> known" | (gone) "hex_encode i \<notin> known" "x = FileMissing"
    | (orphan) "hex_encode i \<notin> known" "x \<noteq> FileMissing" by blast
  then show thesis
  proof cases
    case listed
    then show thesis using assms by (intro that [of f es]) auto
  next
    case gone
    then show thesis using assms f1 x xe(3) by (intro that [of f1 es]) auto
  next
    case orphan
    obtain r g where g: "append_index l e i ts f1 = (r, g)" by (cases "append_index l e i ts f1")
    note a = append_index_crash [OF assms(1) f1(1,4) assms(2,6) g]
    have "hex_encode i \<in> ie_id ` set (add_entry es i ts)" by (auto simp: add_entry_def)
    then show thesis using orphan a f1 x g
      by (intro that [of g "the (read_index l e (disk g))"]) (cases x; auto)+
  qed
qed

lemma reindex_orphans_crash:
  assumes "lib_ok l" "index_safe es" "crash_fs f" "read_index l e (disk f) = Some es"
    "\<forall>w \<in> set ws. length (fst w) = 16 \<and> int64_range (snd w)" "known \<subseteq> ie_id ` set es"
  defines "g \<equiv> reindex_orphans l e known ws f"
  shows "crash_fs g \<and> (died f \<longrightarrow> died g) \<and> (\<exists>ys. read_index l e (disk g) = Some (es @ ys) \<and> index_safe (es @ ys)
    \<and> (\<forall>y \<in> set ys. \<exists>w \<in> set ws. y = \<lparr>ie_id = hex_encode (fst w), ie_timestamp = snd w\<rparr>)
    \<and> (died g \<or> (\<forall>w \<in> set ws. disk f (node_path (fst w)) \<noteq> None \<longrightarrow> hex_encode (fst w) \<in> ie_id ` set (es @ ys))))
    \<and> (\<forall>q. q \<noteq> index_enc_path \<longrightarrow> q \<noteq> index_tmp_path \<longrightarrow> disk g q = disk f q)"
  using assms(2-6) unfolding g_def
proof (induction ws arbitrary: es f)
  case Nil
  then show ?case by (auto intro: exI [of _ "[]"])
next
  case (Cons w ws)
  obtain i ts where w: "w = (i, ts)" by (cases w)
  have i: "length i = 16" "int64_range ts" and p4: "\<forall>w \<in> set ws. length (fst w) = 16 \<and> int64_range (snd w)"
    using Cons.prems(4) w by auto
  obtain es' f2 where step: "reindex_orphans l e known (w # ws) f = reindex_orphans l e known ws f2"
    and f2: "crash_fs f2" "died f \<longrightarrow> died f2" "read_index l e (disk f2) = Some es'" "es' \<in> {es, add_entry es i ts}"
      "\<forall>q. q \<noteq> index_enc_path \<longrightarrow> q \<noteq> index_tmp_path \<longrightarrow> disk f2 q = disk f q"
      "died f2 \<or> disk f (node_path i) = None \<or> hex_encode i \<in> ie_id ` set es'"
    unfolding w using reindex_step_crash [OF assms(1) Cons.prems(1-3) i Cons.prems(5)] by metis
  have safe: "index_safe es'" using f2(4) index_safe_add [OF Cons.prems(1) i(2)] Cons.prems(1) by auto
  have known: "known \<subseteq> ie_id ` set es'" using f2(4) Cons.prems(5) by (auto simp: add_entry_def)
  have nodes: "disk f2 (node_path (fst v)) = disk f (node_path (fst v))" if "v \<in> set ws" for v
    using f2(5) p4 that by (auto simp: paths)
  let ?g = "reindex_orphans l e known ws f2"
  note ih = Cons.IH [OF safe f2(1,3) p4 known]
  obtain ys where ys: "read_index l e (disk ?g) = Some (es' @ ys)" "index_safe (es' @ ys)"
      "\<forall>y \<in> set ys. \<exists>w \<in> set ws. y = \<lparr>ie_id = hex_encode (fst w), ie_timestamp = snd w\<rparr>"
      "died ?g \<or> (\<forall>w \<in> set ws. disk f2 (node_path (fst w)) \<noteq> None \<longrightarrow> hex_encode (fst w) \<in> ie_id ` set (es' @ ys))"
    using ih by blast
  obtain zs where zs: "es' @ ys = es @ zs" "\<forall>z \<in> set zs. z \<in> set ys \<or> z = \<lparr>ie_id = hex_encode i, ie_timestamp = ts\<rparr>"
    using f2(4) by (auto simp: add_entry_def split: if_splits)
  have "\<forall>z \<in> set zs. \<exists>v \<in> set (w # ws). z = \<lparr>ie_id = hex_encode (fst v), ie_timestamp = snd v\<rparr>"
    using zs(2) ys(3) by (auto simp: w)
  moreover have "died ?g \<or> (\<forall>v \<in> set (w # ws). disk f (node_path (fst v)) \<noteq> None \<longrightarrow> hex_encode (fst v) \<in> ie_id ` set (es @ zs))"
    using ys(4) nodes f2(6) ih zs(1) [symmetric] by (auto simp: w)
  ultimately show ?case using ih f2(2,5) ys(1,2) zs(1) unfolding step by auto
qed

section \<open>Crashes, restarts and the invariant\<close>

text \<open>
  A run of the store: writes, deletions, and restarts that replay the log. Each process gets its
  schedule of crashes at its start; after its death the operations have no effect until the restart.
\<close>

datatype store_op = WriteOp node_id int bytes | DeleteOp node_id | RebootOp "fault list"

definition reboot :: "lib \<Rightarrow> encryptor \<Rightarrow> fault list \<Rightarrow> fs \<Rightarrow> fs" where
  "reboot l e xs f = snd (replay_wal l e (f\<lparr>faults := xs, died := False\<rparr>))"

fun run_op :: "lib \<Rightarrow> encryptor \<Rightarrow> store_op \<Rightarrow> fs \<Rightarrow> fs" where
  "run_op l e (WriteOp i ts p) f = snd (write_record l e i ts p f)"
| "run_op l e (DeleteOp i) f = snd (delete_record l e i f)"
| "run_op l e (RebootOp xs) f = reboot l e xs f"

fun op_ok :: "store_op \<Rightarrow> bool" where
  "op_ok (WriteOp i ts p) = (length i = 16 \<and> int64_range ts)"
| "op_ok (DeleteOp i) = (length i = 16)"
| "op_ok (RebootOp xs) = list_all (\<lambda>x. \<not> is_error x) xs"

text \<open>
  The content of the disk as the invariant sees it: the entries of the index, the complete lines of
  the log, and the torn line a dead process may have left.
\<close>

definition log_is :: "fs \<Rightarrow> (node_id \<times> int) list \<Rightarrow> node_id \<times> int \<times> nat \<Rightarrow> bool" where
  "log_is f ws t \<longleftrightarrow>
     (case t of (i, ts, k) \<Rightarrow>
        old_bytes (disk f) wal_path = bytes_of (wal_text ws @ take k (wal_line i ts))
        \<and> length i = 16 \<and> (k = 0 \<or> died f))
     \<and> (\<forall>w \<in> set ws. length (fst w) = 16 \<and> int64_range (snd w))"

definition nodes_listed :: "fs \<Rightarrow> string set \<Rightarrow> node_id set \<Rightarrow> bool" where
  "nodes_listed f hs is \<longleftrightarrow>
     (\<forall>j. length j = 16 \<longrightarrow> disk f (node_path j) \<noteq> None \<longrightarrow> hex_encode j \<in> hs \<or> j \<in> is)"

definition store_inv ::
  "lib \<Rightarrow> encryptor \<Rightarrow> fs \<Rightarrow> index_entry list \<Rightarrow> (node_id \<times> int) list \<Rightarrow> node_id \<times> int \<times> nat \<Rightarrow> bool" where
  "store_inv l e f es ws t \<longleftrightarrow>
     crash_fs f \<and> read_index l e (disk f) = Some es \<and> index_safe es \<and> log_is f ws t
     \<and> nodes_listed f (ie_id ` set es) (fst ` set ws)"

text \<open>A record is kept when its payload is on disk and its timestamp is in the index or in the log.\<close>

definition kept ::
  "node_id \<Rightarrow> int \<Rightarrow> bytes \<Rightarrow> fs \<Rightarrow> index_entry list \<Rightarrow> (node_id \<times> int) list \<Rightarrow> node_id \<times> int \<times> nat \<Rightarrow> bool" where
  "kept i ts p f es ws t \<longleftrightarrow>
     disk f (node_path i) = Some p
     \<and> (find (\<lambda>x. ie_id x = hex_encode i) es = Some \<lparr>ie_id = hex_encode i, ie_timestamp = ts\<rparr>
        \<or> hex_encode i \<notin> ie_id ` set es \<and> i \<in> fst ` set ws)
     \<and> (\<forall>w \<in> set ws. fst w = i \<longrightarrow> snd w = ts) \<and> (snd (snd t) = 0 \<or> fst t \<noteq> i)"

definition absent :: "node_id \<Rightarrow> index_entry list \<Rightarrow> (node_id \<times> int) list \<Rightarrow> node_id \<times> int \<times> nat \<Rightarrow> bool" where
  "absent i es ws t \<longleftrightarrow> hex_encode i \<notin> ie_id ` set es \<and> i \<notin> fst ` set ws \<and> (snd (snd t) = 0 \<or> fst t \<noteq> i)"

text \<open>A step between two states that concerns none of the nodes \<open>js\<close>.\<close>

definition preserves ::
  "node_id set \<Rightarrow> fs \<Rightarrow> index_entry list \<Rightarrow> (node_id \<times> int) list \<Rightarrow> node_id \<times> int \<times> nat
     \<Rightarrow> fs \<Rightarrow> index_entry list \<Rightarrow> (node_id \<times> int) list \<Rightarrow> node_id \<times> int \<times> nat \<Rightarrow> bool" where
  "preserves js f es ws t g es' ws' t' \<longleftrightarrow>
     (\<forall>j. length j = 16 \<longrightarrow> j \<in> js \<longrightarrow>
        disk g (node_path j) = disk f (node_path j)
        \<and> (absent j es ws t \<longrightarrow> absent j es' ws' t')
        \<and> (\<forall>u q. kept j u q f es ws t \<longrightarrow> kept j u q g es' ws' t'))"

lemma find_append:
  "find P (xs @ ys) = (case find P xs of None \<Rightarrow> find P ys | Some x \<Rightarrow> Some x)"
  by (induction xs) auto

lemma find_id_None: "find (\<lambda>x. ie_id x = h) es = None \<longleftrightarrow> h \<notin> ie_id ` set es"
  by (force simp: find_None_iff)

lemma find_filter_other: "(\<And>x. P x \<Longrightarrow> Q x) \<Longrightarrow> find P (filter Q xs) = find P xs"
  by (induction xs) auto

lemma hex_eq [simp]: "hex_encode i = hex_encode j \<longleftrightarrow> i = j"
  using hex_encode_inj by blast

lemma kept_add_entry:
  assumes "kept j ts p f es ws t" "disk g (node_path j) = disk f (node_path j)" "i \<noteq> j"
    "es' \<in> {es, add_entry es i u}" "ws' \<in> {ws, ws @ [(i, v)]}" "t' = t \<or> snd (snd t') = 0 \<or> fst t' = i"
  shows "kept j ts p g es' ws' t'"
proof -
  have "find (\<lambda>x. ie_id x = hex_encode j) es' = find (\<lambda>x. ie_id x = hex_encode j) es"
    using assms(3,4) by (auto simp: add_entry_def find_append split: option.splits)
  moreover have "hex_encode j \<in> ie_id ` set es' \<longleftrightarrow> hex_encode j \<in> ie_id ` set es"
    using assms(3,4) by (auto simp: add_entry_def split: if_splits)
  ultimately show ?thesis using assms(1-3,5,6) by (auto simp: kept_def)
qed

lemma append_wal_log:
  assumes "log_is f ws t" "crash_fs f" "length i = 16" "int64_range ts" "append_wal i ts f = (ok, g)"
  shows "crash_fs g" "\<And>q. q \<noteq> wal_path \<Longrightarrow> disk g q = disk f q"
    "\<exists>ws' t'. log_is g ws' t' \<and> (ok \<longrightarrow> \<not> died g \<and> ws' = ws @ [(i, ts)] \<and> snd (snd t') = 0)
       \<and> (\<not> ok \<longrightarrow> died g \<and> ws' = ws \<and> (t' = t \<or> fst t' = i))"
proof -
  obtain j u k where t: "t = (j, u, k)" by (cases t)
  have w: "old_bytes (disk f) wal_path = bytes_of (wal_text ws @ take k (wal_line j u))"
    and ws: "length j = 16" "k = 0 \<or> died f" "\<forall>w \<in> set ws. length (fst w) = 16 \<and> int64_range (snd w)"
    using assms(1) by (auto simp: log_is_def t)
  note a = assms(5) [unfolded append_wal_def]
  note eff = os_append_file_effect [OF a]
  have c: "crash_only g" "ok \<or> died g" using os_crash(2) [OF _ a] assms(2) by (auto simp: crash_fs_def)
  then show "crash_fs g" using eff(4) assms(2) by (simp add: crash_fs_def entropy_fine_def)
  show "\<And>q. q \<noteq> wal_path \<Longrightarrow> disk g q = disk f q" by (rule eff(1))
  show "\<exists>ws' t'. log_is g ws' t' \<and> (ok \<longrightarrow> \<not> died g \<and> ws' = ws @ [(i, ts)] \<and> snd (snd t') = 0)
       \<and> (\<not> ok \<longrightarrow> died g \<and> ws' = ws \<and> (t' = t \<or> fst t' = i))"
  proof (cases ok)
    case True
    then have "k = 0" "\<not> died g" using eff(2,3) ws(2) by auto
    moreover have "log_is g (ws @ [(i, ts)]) (i, ts, 0)"
      using eff(2) True w \<open>k = 0\<close> ws(3) assms(3,4)
      by (simp add: log_is_def old_bytes_def [of "disk g"] wal_text_def wal_line_body)
    ultimately show ?thesis using True by auto
  next
    case False
    then have d: "died g" using c(2) by simp
    consider "disk g wal_path = disk f wal_path" | m where "k = 0" "disk g wal_path = Some (old_bytes (disk f) wal_path @ take m (bytes_of (wal_line i ts)))"
      using eff(3,5) ws(2) by metis
    then show ?thesis
    proof cases
      case 1
      then have "log_is g ws t" using w ws d by (simp add: log_is_def t old_bytes_def)
      then show ?thesis using False d by blast
    next
      case 2
      then have "old_bytes (disk g) wal_path = bytes_of (wal_text ws @ take m (wal_line i ts))"
        using w by (simp add: old_bytes_def [of "disk g"] bytes_of_def take_map)
      then have "log_is g ws (i, ts, m)" using ws(3) d assms(3) by (simp add: log_is_def)
      then show ?thesis using False d by (intro exI [of _ ws] exI [of _ "(i, ts, m)"]) simp
    qed
  qed
qed

lemma log_is_cong:
  "log_is f ws t \<Longrightarrow> disk g wal_path = disk f wal_path \<Longrightarrow> died f \<longrightarrow> died g \<Longrightarrow> log_is g ws t"
  by (auto simp: log_is_def old_bytes_def)

lemma store_inv_parts:
  assumes "store_inv l e f es ws t"
  shows "crash_fs f" "read_index l e (disk f) = Some es" "index_safe es" "log_is f ws t"
    "nodes_listed f (ie_id ` set es) (fst ` set ws)"
  using assms by (simp_all add: store_inv_def)

text \<open>
  What a write leaves: the index as it was or with the entry, the log as it was (the node file then
  untouched) or with the line, and after a success all of it.
\<close>

lemma write_record_effect:
  assumes "lib_ok l" "store_inv l e f es ws t" "length i = 16" "int64_range ts" "write_record l e i ts p f = (r, g)"
  obtains es' ws1 t1 where "crash_fs g" "read_index l e (disk g) = Some es'" "es' \<in> {es, add_entry es i ts}"
    "log_is g ws1 t1" "ws1 \<in> {ws, ws @ [(i, ts)]}" "t1 = t \<or> snd (snd t1) = 0 \<or> fst t1 = i"
    "\<And>j. length j = 16 \<Longrightarrow> j \<noteq> i \<or> ws1 = ws \<Longrightarrow> disk g (node_path j) = disk f (node_path j)"
    "r = None \<Longrightarrow> disk g (node_path i) = Some p \<and> ws1 = ws @ [(i, ts)] \<and> snd (snd t1) = 0"
proof -
  note inv = store_inv_parts [OF assms(2)]
  obtain ok f1 where a: "append_wal i ts f = (ok, f1)" by (cases "append_wal i ts f")
  note al = append_wal_log [OF inv(4,1) assms(3,4) a]
  obtain ws1 t1 where lg: "log_is f1 ws1 t1" "ok \<longrightarrow> \<not> died f1 \<and> ws1 = ws @ [(i, ts)] \<and> snd (snd t1) = 0"
     "\<not> ok \<longrightarrow> died f1 \<and> ws1 = ws \<and> (t1 = t \<or> fst t1 = i)" using al(3) by blast
  obtain ok2 f2 where w: "os_write_file (node_path i) p f1 = (ok2, f2)" by (cases "os_write_file (node_path i) p f1")
  note we = os_write_file_effect [OF w]
  have f2: "crash_fs f2" "ok2 \<or> died f2" "died f1 \<longrightarrow> died f2"
    using os_crash(1) [OF _ w] we(3,4) al(1) by (auto simp: crash_fs_def entropy_fine_def)
  have i2: "read_index l e (disk f2) = Some es"
    using we(1) [of index_enc_path] al(2) [of index_enc_path] inv(2) assms(3) by (simp add: read_index_def paths)
  have lg2: "log_is f2 ws1 t1" using log_is_cong [OF lg(1)] we(1) [of wal_path] f2(3) assms(3) by (simp add: paths)
  obtain es' where g: "crash_fs g" "read_index l e (disk g) = Some es'" "es' \<in> {es, add_entry es i ts}"
      "\<And>q. q \<noteq> index_enc_path \<Longrightarrow> q \<noteq> index_tmp_path \<Longrightarrow> disk g q = disk f2 q" "died f2 \<longrightarrow> died g" "r = None \<longrightarrow> ok2"
  proof (cases ok2)
    case True
    obtain s where s: "append_index l e i ts f2 = (s, g)" "r = None"
      using True assms(5) a w by (cases "append_index l e i ts f2") (auto simp: write_record_def)
    note ap = append_index_crash [OF assms(1) f2(1) i2 inv(3) assms(4) s(1)]
    show ?thesis using ap True by (intro that [of "the (read_index l e (disk g))"]) auto
  next
    case False
    then have "g = f2" "r \<noteq> None" using assms(5) a w by (auto simp: write_record_def)
    then show ?thesis using f2 i2 by (intro that [of es]) auto
  qed
  have "log_is g ws1 t1" using log_is_cong [OF lg2] g(4) [of wal_path] g(5) by (simp add: paths)
  moreover have "disk g (node_path j) = disk f (node_path j)" if "length j = 16" "j \<noteq> i \<or> ws1 = ws" for j
    using that g(4) [of "node_path j"] we(1) [of "node_path j"] we(3) al(2) [of "node_path j"] lg(2,3) assms(3)
    by (cases ok; cases "j = i") (auto simp: paths)
  moreover have "disk g (node_path i) = Some p \<and> ok" if "r = None"
    using that g(4) [of "node_path i"] g(6) we(2,3) lg(3) assms(3) by (auto simp: paths)
  ultimately show thesis using that [OF g(1-3), of ws1 t1] lg(2,3) by blast
qed

lemma write_record_inv:
  assumes "lib_ok l" "store_inv l e f es ws t" "length i = 16" "int64_range ts" "write_record l e i ts p f = (r, g)"
  shows "\<exists>es' ws' t'. store_inv l e g es' ws' t'
    \<and> preserves (- {i}) f es ws t g es' ws' t' \<and> (r = None \<longrightarrow> absent i es ws t \<longrightarrow> kept i ts p g es' ws' t')"
proof -
  note inv = store_inv_parts [OF assms(2)]
  obtain es' ws1 t1 where g: "crash_fs g" "read_index l e (disk g) = Some es'" "es' \<in> {es, add_entry es i ts}"
    "log_is g ws1 t1" "ws1 \<in> {ws, ws @ [(i, ts)]}" "t1 = t \<or> snd (snd t1) = 0 \<or> fst t1 = i"
    "\<And>j. length j = 16 \<Longrightarrow> j \<noteq> i \<or> ws1 = ws \<Longrightarrow> disk g (node_path j) = disk f (node_path j)"
    "r = None \<Longrightarrow> disk g (node_path i) = Some p \<and> ws1 = ws @ [(i, ts)] \<and> snd (snd t1) = 0"
    using write_record_effect [OF assms] by metis
  have safe: "index_safe es'" using g(3) index_safe_add [OF inv(3) assms(4)] inv(3) by auto
  have sup: "ie_id ` set es \<subseteq> ie_id ` set es'" "fst ` set ws \<subseteq> fst ` set ws1" using g(3,5) by (auto simp: add_entry_def)
  have "nodes_listed g (ie_id ` set es') (fst ` set ws1)"
    unfolding nodes_listed_def
  proof (intro allI impI)
    fix j :: node_id
    assume j: "length j = 16" "disk g (node_path j) \<noteq> None"
    show "hex_encode j \<in> ie_id ` set es' \<or> j \<in> fst ` set ws1"
    proof (cases "j \<noteq> i \<or> ws1 = ws")
      case True
      then have "hex_encode j \<in> ie_id ` set es \<or> j \<in> fst ` set ws"
        using g(7) [OF j(1)] inv(5) j by (simp add: nodes_listed_def)
      then show ?thesis using sup by blast
    qed (use g(5) in auto)
  qed
  then have "store_inv l e g es' ws1 t1" using g(1,2,4) safe by (simp add: store_inv_def)
  moreover have "kept j u q g es' ws1 t1" if "length j = 16" "j \<noteq> i" "kept j u q f es ws t" for j u q
    using kept_add_entry [OF that(3) g(7) [OF that(1) disjI1 [OF that(2)]] that(2) [symmetric] g(3,5,6)] .
  moreover have "absent j es' ws1 t1" if "length j = 16" "j \<noteq> i" "absent j es ws t" for j
    using that g(3,5,6) by (auto simp: absent_def add_entry_def split: if_splits)
  moreover have "kept i ts p g es' ws1 t1" if "r = None" "absent i es ws t"
  proof -
    have no: "hex_encode i \<notin> ie_id ` set es" "i \<notin> fst ` set ws" using that(2) by (auto simp: absent_def)
    then have "find (\<lambda>x. ie_id x = hex_encode i) es = None" by (simp add: find_id_None)
    then have "find (\<lambda>x. ie_id x = hex_encode i) es' = Some \<lparr>ie_id = hex_encode i, ie_timestamp = ts\<rparr>
        \<or> hex_encode i \<notin> ie_id ` set es'" using g(3) no(1) by (auto simp: add_entry_def find_append)
    then show ?thesis using g(8) [OF that(1)] no(2) by (auto simp: kept_def image_iff)
  qed
  ultimately show ?thesis using g(7) unfolding preserves_def
    by (intro exI [of _ es'] exI [of _ ws1] exI [of _ t1] conjI) auto
qed

text \<open>What a deletion leaves: the index with or without the entry, and without only if the file is gone.\<close>

lemma delete_record_effect:
  assumes "lib_ok l" "store_inv l e f es ws t" "length i = 16" "delete_record l e i f = (r, g)"
  obtains es' where "crash_fs g" "read_index l e (disk g) = Some es'"
    "es' = es \<or> es' = filter (\<lambda>x. ie_id x \<noteq> hex_encode i) es \<and> disk g (node_path i) = None" "log_is g ws t"
    "\<And>j. length j = 16 \<Longrightarrow> j \<noteq> i \<Longrightarrow> disk g (node_path j) = disk f (node_path j)"
    "disk g (node_path i) \<noteq> None \<Longrightarrow> disk f (node_path i) \<noteq> None"
proof -
  note inv = store_inv_parts [OF assms(2)]
  obtain rr f1 where d: "os_remove (node_path i) f = (rr, f1)" by (cases "os_remove (node_path i) f")
  note de = os_remove_effect [OF d]
  have f1: "crash_fs f1" "died f \<longrightarrow> died f1"
    using os_crash(4) [OF _ d] de(4,5) inv(1) by (auto simp: crash_fs_def entropy_fine_def)
  have i1: "read_index l e (disk f1) = Some es"
    using de(1) [of index_enc_path] inv(2) assms(3) by (simp add: read_index_def paths)
  define fl where "fl = filter (\<lambda>x. ie_id x \<noteq> hex_encode i) es"
  have "\<exists>es'. crash_fs g \<and> read_index l e (disk g) = Some es' \<and> (es' = es \<or> es' = fl \<and> rr \<noteq> RemoveError)
      \<and> (\<forall>q. q \<noteq> index_enc_path \<longrightarrow> q \<noteq> index_tmp_path \<longrightarrow> disk g q = disk f1 q) \<and> (died f1 \<longrightarrow> died g)"
  proof (cases "rr = RemoveError")
    case True
    then have "g = f1" using assms(4) d by (simp add: delete_record_def)
    then show ?thesis using f1(1) i1 by blast
  next
    case False
    then have "remove_from_index l e i f1 = (r, g)"
      using assms(4) d by (auto simp: delete_record_def split: remove_result.splits)
    from remove_from_index_crash [OF assms(1) f1(1) i1 inv(3) this] False show ?thesis
      by (intro exI [of _ "the (read_index l e (disk g))"]) (auto simp: fl_def)
  qed
  then obtain es' where g: "crash_fs g" "read_index l e (disk g) = Some es'" "es' = es \<or> es' = fl \<and> rr \<noteq> RemoveError"
      "\<And>q. q \<noteq> index_enc_path \<Longrightarrow> q \<noteq> index_tmp_path \<Longrightarrow> disk g q = disk f1 q" "died f1 \<longrightarrow> died g" by blast
  have "disk g (node_path i) = None" if "rr \<noteq> RemoveError"
    using that g(4) [of "node_path i"] de(2,3) assms(3) by (auto simp: paths)
  moreover have "disk f (node_path i) \<noteq> None" if "disk g (node_path i) \<noteq> None"
    using that g(4) [of "node_path i"] de(2,3) assms(3) by (cases "rr = RemoveError") (auto simp: paths)
  moreover have "log_is g ws t"
    using log_is_cong [OF inv(4), of g] g(4) [of wal_path] g(5) de(1) [of wal_path] f1(2) assms(3) by (simp add: paths)
  moreover have "disk g (node_path j) = disk f (node_path j)" if "length j = 16" "j \<noteq> i" for j
    using that g(4) [of "node_path j"] de(1) [of "node_path j"] by (simp add: paths)
  ultimately show thesis using that [OF g(1,2)] g(3) unfolding fl_def by blast
qed

lemma delete_record_inv:
  assumes "lib_ok l" "store_inv l e f es ws t" "length i = 16" "delete_record l e i f = (r, g)"
  shows "\<exists>es'. store_inv l e g es' ws t \<and> preserves (- {i}) f es ws t g es' ws t"
proof -
  note inv = store_inv_parts [OF assms(2)]
  define fl where "fl = filter (\<lambda>x. ie_id x \<noteq> hex_encode i) es"
  obtain es' where g: "crash_fs g" "read_index l e (disk g) = Some es'"
    "es' = es \<or> es' = fl \<and> disk g (node_path i) = None" "log_is g ws t"
    "\<And>j. length j = 16 \<Longrightarrow> j \<noteq> i \<Longrightarrow> disk g (node_path j) = disk f (node_path j)"
    "disk g (node_path i) \<noteq> None \<Longrightarrow> disk f (node_path i) \<noteq> None"
    using delete_record_effect [OF assms] unfolding fl_def by metis
  have others: "hex_encode j \<in> ie_id ` set es \<Longrightarrow> hex_encode j \<in> ie_id ` set fl" if "j \<noteq> i" for j
    using that by (auto simp: fl_def)
  have "nodes_listed g (ie_id ` set es') (fst ` set ws)"
    unfolding nodes_listed_def
  proof (intro allI impI)
    fix j :: node_id
    assume j: "length j = 16" "disk g (node_path j) \<noteq> None"
    then have "disk f (node_path j) \<noteq> None" using g(5,6) by (cases "j = i") auto
    then have "hex_encode j \<in> ie_id ` set es \<or> j \<in> fst ` set ws" using inv(5) j(1) by (simp add: nodes_listed_def)
    then show "hex_encode j \<in> ie_id ` set es' \<or> j \<in> fst ` set ws" using g(3) j(2) others by (cases "j = i") auto
  qed
  moreover have "index_safe es'" using g(3) inv(3) index_safe_filter by (auto simp: fl_def)
  moreover have "kept j u q g es' ws t" if "length j = 16" "j \<noteq> i" "kept j u q f es ws t" for j u q
  proof -
    have "find (\<lambda>x. ie_id x = hex_encode j) fl = find (\<lambda>x. ie_id x = hex_encode j) es"
      unfolding fl_def using that(2) by (intro find_filter_other) auto
    moreover have "ie_id ` set fl \<subseteq> ie_id ` set es" by (auto simp: fl_def)
    ultimately show ?thesis using that g(3,5) by (auto simp: kept_def)
  qed
  moreover have "absent j es' ws t" if "absent j es ws t" for j
    using that g(3) by (auto simp: absent_def fl_def)
  ultimately show ?thesis using g(1,2,4,5) unfolding store_inv_def preserves_def by blast
qed

lemma kept_replayed:
  assumes "kept i ts p f es ws t" "disk g (node_path i) = disk f (node_path i)"
    "\<forall>y \<in> set ys. \<exists>w \<in> set (ws @ xs). y = \<lparr>ie_id = hex_encode (fst w), ie_timestamp = snd w\<rparr>"
    "\<forall>x \<in> set xs. fst x = fst t" "snd (snd t) = 0 \<longrightarrow> xs = []"
  shows "kept i ts p g (es @ ys) ws t"
    and "(\<forall>w \<in> set ws. disk f (node_path (fst w)) \<noteq> None \<longrightarrow> hex_encode (fst w) \<in> ie_id ` set (es @ ys)) \<Longrightarrow>
      snd (snd t') = 0 \<Longrightarrow> kept i ts p g (es @ ys) [] t'"
proof -
  have k: "disk f (node_path i) = Some p" "\<forall>w \<in> set ws. fst w = i \<longrightarrow> snd w = ts" "snd (snd t) = 0 \<or> fst t \<noteq> i"
    using assms(1) by (simp_all add: kept_def)
  have "\<forall>w \<in> set (ws @ xs). fst w = i \<longrightarrow> snd w = ts" using k(2,3) assms(4,5) by auto
  then have y: "y = \<lparr>ie_id = hex_encode i, ie_timestamp = ts\<rparr>" if "y \<in> set ys" "ie_id y = hex_encode i" for y
    using assms(3) that by force
  have no: "find (\<lambda>x. ie_id x = hex_encode i) es = None" if "hex_encode i \<notin> ie_id ` set es"
    using that by (simp add: find_id_None)
  have found: "find (\<lambda>x. ie_id x = hex_encode i) (es @ ys) = Some \<lparr>ie_id = hex_encode i, ie_timestamp = ts\<rparr>"
    if "hex_encode i \<notin> ie_id ` set es" "hex_encode i \<in> ie_id ` set ys"
  proof -
    have "find (\<lambda>x. ie_id x = hex_encode i) ys \<noteq> None" using that(2) by (simp add: find_id_None)
    then obtain y where "find (\<lambda>x. ie_id x = hex_encode i) ys = Some y" by blast
    moreover from this have "y \<in> set ys" "ie_id y = hex_encode i" by (auto simp: find_Some_iff)
    ultimately show ?thesis using y no [OF that(1)] by (simp add: find_append)
  qed
  have c: "find (\<lambda>x. ie_id x = hex_encode i) (es @ ys) = Some \<lparr>ie_id = hex_encode i, ie_timestamp = ts\<rparr>
      \<or> hex_encode i \<notin> ie_id ` set (es @ ys) \<and> i \<in> fst ` set ws"
    using assms(1) found by (auto simp: kept_def find_append)
  then show "kept i ts p g (es @ ys) ws t" using k assms(2) by (simp add: kept_def)
  assume "\<forall>w \<in> set ws. disk f (node_path (fst w)) \<noteq> None \<longrightarrow> hex_encode (fst w) \<in> ie_id ` set (es @ ys)" "snd (snd t') = 0"
  then show "kept i ts p g (es @ ys) [] t'" using c k assms(2) by (auto simp: kept_def)
qed

lemma absent_replayed:
  assumes "absent j es ws t"
    "\<forall>y \<in> set ys. \<exists>w \<in> set (ws @ xs). y = \<lparr>ie_id = hex_encode (fst w), ie_timestamp = snd w\<rparr>"
    "\<forall>x \<in> set xs. fst x = fst t" "snd (snd t) = 0 \<longrightarrow> xs = []"
  shows "absent j (es @ ys) ws t"
proof -
  have "j \<notin> fst ` set (ws @ xs)" using assms(1,3,4) by (auto simp: absent_def)
  then have "hex_encode j \<notin> ie_id ` set ys" using assms(2) by force
  then show ?thesis using assms(1) by (auto simp: absent_def)
qed

text \<open>Replaying adds entries of the log to the index; the log is then kept by a dead process, or gone.\<close>

definition replayed ::
  "lib \<Rightarrow> encryptor \<Rightarrow> fs \<Rightarrow> index_entry list \<Rightarrow> (node_id \<times> int) list \<Rightarrow> fs \<Rightarrow> index_entry list \<Rightarrow> bool" where
  "replayed l e f es us g ys \<longleftrightarrow>
     crash_fs g \<and> read_index l e (disk g) = Some (es @ ys) \<and> index_safe (es @ ys)
     \<and> (\<forall>y \<in> set ys. \<exists>w \<in> set us. y = \<lparr>ie_id = hex_encode (fst w), ie_timestamp = snd w\<rparr>)
     \<and> (\<forall>j. length j = 16 \<longrightarrow> disk g (node_path j) = disk f (node_path j))"

lemma replay_keeps_log:
  assumes "store_inv l e f es ws t" "replayed l e f es (ws @ xs) g ys" "died g" "disk g wal_path = disk f wal_path"
    "\<forall>x \<in> set xs. fst x = fst t" "snd (snd t) = 0 \<longrightarrow> xs = []"
  shows "store_inv l e g (es @ ys) ws t"
    "preserves UNIV f es ws t g (es @ ys) ws t"
proof -
  show "store_inv l e g (es @ ys) ws t" using assms(1-4)
    by (auto simp: store_inv_def replayed_def nodes_listed_def intro: log_is_cong)
  have "absent j (es @ ys) ws t" if "absent j es ws t" for j
    using that assms(2,5,6) by (intro absent_replayed) (auto simp: replayed_def)
  moreover have "kept j u q g (es @ ys) ws t" if "length j = 16" "kept j u q f es ws t" for j u q
    using that assms(2,5,6) by (intro kept_replayed(1)) (auto simp: replayed_def)
  ultimately show "preserves UNIV f es ws t g (es @ ys) ws t"
    using assms(2) by (simp add: preserves_def replayed_def)
qed

lemma replay_clears_log:
  assumes "store_inv l e f es ws t" "replayed l e f es (ws @ xs) g ys" "disk g wal_path = None"
    "\<forall>x \<in> set xs. fst x = fst t" "snd (snd t) = 0 \<longrightarrow> xs = []"
    "\<forall>w \<in> set ws. disk f (node_path (fst w)) \<noteq> None \<longrightarrow> hex_encode (fst w) \<in> ie_id ` set (es @ ys)"
  shows "store_inv l e g (es @ ys) [] (fst t, 0, 0)"
    "preserves UNIV f es ws t g (es @ ys) [] (fst t, 0, 0)"
proof -
  have "log_is g [] (fst t, 0, 0)" using assms(1,3)
    by (cases t) (simp add: store_inv_def log_is_def old_bytes_def wal_text_def bytes_of_def)
  moreover have "nodes_listed g (ie_id ` set (es @ ys)) (fst ` set [])"
    using assms(1,2,6) by (fastforce simp: store_inv_def replayed_def nodes_listed_def)
  ultimately show "store_inv l e g (es @ ys) [] (fst t, 0, 0)" using assms(2) by (simp add: store_inv_def replayed_def)
  have "absent j (es @ ys) [] (fst t, 0, 0)" if "absent j es ws t" for j
    using absent_replayed [OF that, of ys xs] assms(2,4,5) by (simp add: replayed_def absent_def)
  moreover have "kept j u q g (es @ ys) [] (fst t, 0, 0)" if "length j = 16" "kept j u q f es ws t" for j u q
    using that assms(2,4-6) by (intro kept_replayed(2) [where ws = ws and xs = xs and t = t]) (auto simp: replayed_def)
  ultimately show "preserves UNIV f es ws t g (es @ ys) [] (fst t, 0, 0)"
    using assms(2) by (simp add: preserves_def replayed_def)
qed

text \<open>What \<open>replay_wal\<close> leaves behind, from the content of the log.\<close>

lemma reindex_log_crash:
  assumes "lib_ok l" "crash_fs f" "read_index l e (disk f) = Some es" "index_safe es"
    "\<forall>w \<in> set us. length (fst w) = 16 \<and> int64_range (snd w)" "load_index l e f = (y, f2)"
  defines "g \<equiv> if us = [] then f else reindex_orphans l e (ie_id ` set (entries_or_empty y)) us f2"
  shows "\<exists>ys. replayed l e f es us g ys
     \<and> (died g \<or> (\<forall>w \<in> set us. disk f (node_path (fst w)) \<noteq> None \<longrightarrow> hex_encode (fst w) \<in> ie_id ` set (es @ ys)))
     \<and> (\<forall>q. q \<noteq> index_enc_path \<longrightarrow> q \<noteq> index_tmp_path \<longrightarrow> disk g q = disk f q)"
proof (cases "us = []")
  case True
  then show ?thesis using assms(2-4) by (intro exI [of _ "[]"]) (simp add: g_def replayed_def)
next
  case False
  note ye = load_index_spec [OF assms(6)]
  have f2: "crash_fs f2" "read_index l e (disk f2) = Some es"
    using load_index_crash(1) [OF _ assms(6)] ye(1,2) assms(2,3) by (auto simp: crash_fs_def entropy_fine_def)
  have "ie_id ` set (entries_or_empty y) \<subseteq> ie_id ` set es"
    using ye(5) assms(3) by (cases y) (auto simp: entries_or_empty_def)
  from reindex_orphans_crash [OF assms(1,4) f2 assms(5) this] show ?thesis
    using False ye(1) by (auto simp: g_def replayed_def paths)
qed

lemma replay_wal_crash:
  assumes "lib_ok l" "crash_fs f" "read_index l e (disk f) = Some es" "index_safe es"
    "wal_entries (string_of (old_bytes (disk f) wal_path)) = Some us"
    "\<forall>w \<in> set us. length (fst w) = 16 \<and> int64_range (snd w)" "replay_wal l e f = (r, g)"
    "disk f wal_path = None \<longrightarrow> us = []"
  shows "\<exists>ys. replayed l e f es us g ys \<and> (died g \<and> disk g wal_path = disk f wal_path \<or> disk g wal_path = None
     \<and> (\<forall>w \<in> set us. disk f (node_path (fst w)) \<noteq> None \<longrightarrow> hex_encode (fst w) \<in> ie_id ` set (es @ ys)))"
proof -
  obtain x f1 where x: "os_read_file wal_path f = (x, f1)" by (cases "os_read_file wal_path f")
  note xe = os_read_file_effect [OF x]
  have f1: "crash_fs f1" "x = FileError \<longrightarrow> died f1" "disk f1 = disk f"
    using os_crash(5) [OF _ x] xe(1,5) assms(2) by (auto simp: crash_fs_def entropy_fine_def)
  show ?thesis
  proof (cases "\<exists>d. x = FileData d")
    case False
    then have "g = f1" using assms(7) x by (cases x) (auto simp: replay_wal_def)
    with False show ?thesis using assms f1 xe by (cases x) (auto simp: replayed_def intro!: exI [of _ "[]"])
  next
    case True
    then obtain d where xd: "x = FileData d" by blast
    then have d: "disk f wal_path = Some d" using xe(2) by simp
    then have us: "wal_entries (string_of d) = Some us" using assms(5) by (simp add: old_bytes_def)
    obtain y f2 where y: "load_index l e f1 = (y, f2)" by (cases "load_index l e f1")
    define f3 where "f3 = (if us = [] then f1 else reindex_orphans l e (ie_id ` set (entries_or_empty y)) us f2)"
    obtain rr where g: "os_remove wal_path f3 = (rr, g)"
      using assms(7) x xd us y
      by (cases us; cases "os_remove wal_path f3") (auto simp: replay_wal_def f3_def Let_def)
    obtain ys where ys: "replayed l e f1 es us f3 ys"
      "died f3 \<or> (\<forall>w \<in> set us. disk f (node_path (fst w)) \<noteq> None \<longrightarrow> hex_encode (fst w) \<in> ie_id ` set (es @ ys))"
      "\<And>q. q \<noteq> index_enc_path \<Longrightarrow> q \<noteq> index_tmp_path \<Longrightarrow> disk f3 q = disk f q"
      using reindex_log_crash [OF assms(1) f1(1) assms(3) [folded f1(3)] assms(4,6) y] unfolding f3_def [symmetric] f1(3) by blast
    note ge = os_remove_effect [OF g]
    have "crash_fs g" "rr = RemoveError \<longrightarrow> died g"
      using os_crash(4) [OF _ g] ge(5) ys(1) by (auto simp: replayed_def crash_fs_def entropy_fine_def)
    moreover have "read_index l e (disk g) = Some (es @ ys)"
      using ge(1) [of index_enc_path] ys(1) by (simp add: replayed_def read_index_def paths)
    ultimately show ?thesis using ge ys paths d
      by (intro exI [of _ ys]) (auto simp: replayed_def)
  qed
qed

lemma reboot_inv:
  assumes "lib_ok l" "store_inv l e f es ws t" "list_all (\<lambda>x. \<not> is_error x) xs"
  shows "\<exists>es' ws' t'. store_inv l e (reboot l e xs f) es' ws' t' \<and> preserves UNIV f es ws t (reboot l e xs f) es' ws' t'
    \<and> (\<not> died (reboot l e xs f) \<longrightarrow> disk (reboot l e xs f) wal_path = None \<and> ws' = [])"
proof -
  define f0 g where "f0 = f\<lparr>faults := xs, died := False\<rparr>" and "g = reboot l e xs f"
  obtain j0 u0 k where t: "t = (j0, u0, k)" by (cases t)
  have inv: "crash_fs f" "read_index l e (disk f) = Some es" "index_safe es" "log_is f ws t"
    using assms(2) by (simp_all add: store_inv_def)
  have f0: "crash_fs f0" "disk f0 = disk f"
    using inv(1) assms(3) by (simp_all add: f0_def crash_fs_def crash_only_def entropy_fine_def)
  have w: "old_bytes (disk f) wal_path = bytes_of (wal_text ws @ take k (wal_line j0 u0))"
    and ws: "length j0 = 16" "\<forall>w \<in> set ws. length (fst w) = 16 \<and> int64_range (snd w)"
    using inv(4) by (simp_all add: log_is_def t)
  obtain xs' where xs': "wal_entries (wal_text ws @ take k (wal_line j0 u0)) = Some (map (apsnd wrap64) ws @ xs')"
      "\<forall>x \<in> set xs'. fst x = j0 \<and> int64_range (snd x)" "k = 0 \<longrightarrow> xs' = []"
    using wal_entries_torn [OF _ ws(1), of ws k u0] ws(2) by blast
  have "map (apsnd wrap64) ws = ws" using ws(2) by (intro map_idI) auto
  then have en: "wal_entries (string_of (old_bytes (disk f) wal_path)) = Some (ws @ xs')" using xs'(1) w by simp
  have none: "disk f wal_path = None \<longrightarrow> ws @ xs' = []"
  proof
    assume "disk f wal_path = None"
    then have "wal_entries [] = Some (ws @ xs')" using en by (simp add: old_bytes_def string_of_def)
    then show "ws @ xs' = []" by (simp add: wal_entries_def scan_lines_def List.map_filter_def)
  qed
  obtain r where r: "replay_wal l e f0 = (r, g)" by (cases "replay_wal l e f0") (simp add: g_def reboot_def f0_def)
  have u: "\<forall>w \<in> set (ws @ xs'). length (fst w) = 16 \<and> int64_range (snd w)" using ws xs'(2) by auto
  have rp: "replayed l e f0 es us g ys = replayed l e f es us g ys" for us ys by (simp add: replayed_def f0(2))
  obtain ys where
    ys: "replayed l e f es (ws @ xs') g ys" and
    log: "died g \<and> disk g wal_path = disk f wal_path \<or> disk g wal_path = None
     \<and> (\<forall>w \<in> set (ws @ xs'). disk f (node_path (fst w)) \<noteq> None \<longrightarrow> hex_encode (fst w) \<in> ie_id ` set (es @ ys))"
    using replay_wal_crash [OF assms(1) f0(1) inv(2) [folded f0(2)] inv(3) en [folded f0(2)] u r none [folded f0(2)]]
    unfolding rp f0(2) by blast
  have torn: "\<forall>x \<in> set xs'. fst x = fst t" "snd (snd t) = 0 \<longrightarrow> xs' = []" using xs'(2,3) t by simp_all
  from log show ?thesis
  proof
    assume d: "died g \<and> disk g wal_path = disk f wal_path"
    from replay_keeps_log [OF assms(2) ys conjunct1 [OF d] conjunct2 [OF d] torn] d show ?thesis
      unfolding g_def [symmetric] by blast
  next
    assume d: "disk g wal_path = None
     \<and> (\<forall>w \<in> set (ws @ xs'). disk f (node_path (fst w)) \<noteq> None \<longrightarrow> hex_encode (fst w) \<in> ie_id ` set (es @ ys))"
    then have "\<forall>w \<in> set ws. disk f (node_path (fst w)) \<noteq> None \<longrightarrow> hex_encode (fst w) \<in> ie_id ` set (es @ ys)" by simp
    from replay_clears_log [OF assms(2) ys conjunct1 [OF d] torn this] d show ?thesis
      unfolding g_def [symmetric] by blast
  qed
qed

section \<open>Runs\<close>

fun touches :: "node_id \<Rightarrow> store_op \<Rightarrow> bool" where
  "touches i (WriteOp j ts p) = (i = j)"
| "touches i (DeleteOp j) = (i = j)"
| "touches i (RebootOp xs) = False"

definition run_ops :: "lib \<Rightarrow> encryptor \<Rightarrow> store_op list \<Rightarrow> fs \<Rightarrow> fs" where
  "run_ops l e ops f = fold (run_op l e) ops f"

lemma preserves_refl: "preserves js f es ws t f es ws t"
  by (simp add: preserves_def)

lemma preserves_trans:
  "preserves js f es ws t g es1 ws1 t1 \<Longrightarrow> preserves js g es1 ws1 t1 h es2 ws2 t2 \<Longrightarrow> preserves js f es ws t h es2 ws2 t2"
  by (simp add: preserves_def)

lemma preserves_mono: "preserves js f es ws t g es' ws' t' \<Longrightarrow> is \<subseteq> js \<Longrightarrow> preserves is f es ws t g es' ws' t'"
  by (auto simp: preserves_def)

lemma run_op_inv:
  assumes "lib_ok l" "store_inv l e f es ws t" "op_ok x"
  shows "\<exists>es' ws' t'. store_inv l e (run_op l e x f) es' ws' t'
    \<and> preserves {i. \<not> touches i x} f es ws t (run_op l e x f) es' ws' t'"
proof (cases x)
  case (WriteOp i ts p)
  obtain r g where g: "write_record l e i ts p f = (r, g)" by (cases "write_record l e i ts p f")
  have "{j. \<not> touches j x} = - {i}" by (auto simp: WriteOp)
  moreover have "run_op l e x f = g" using g by (simp add: WriteOp)
  moreover have "length i = 16" "int64_range ts" using assms(3) by (simp_all add: WriteOp)
  from write_record_inv [OF assms(1,2) this g] have
    "\<exists>es' ws' t'. store_inv l e g es' ws' t' \<and> preserves (- {i}) f es ws t g es' ws' t'" by blast
  ultimately show ?thesis by (simp only:)
next
  case (DeleteOp i)
  obtain r g where g: "delete_record l e i f = (r, g)" by (cases "delete_record l e i f")
  have "{j. \<not> touches j x} = - {i}" by (auto simp: DeleteOp)
  moreover have "run_op l e x f = g" using g by (simp add: DeleteOp)
  moreover have "length i = 16" using assms(3) by (simp add: DeleteOp)
  from delete_record_inv [OF assms(1,2) this g] have
    "\<exists>es' ws' t'. store_inv l e g es' ws' t' \<and> preserves (- {i}) f es ws t g es' ws' t'" by blast
  ultimately show ?thesis by (simp only:)
next
  case (RebootOp xs)
  have "{j. \<not> touches j x} = UNIV" by (auto simp: RebootOp)
  moreover have "run_op l e x f = reboot l e xs f" by (simp add: RebootOp)
  moreover have "list_all (\<lambda>x. \<not> is_error x) xs" using assms(3) by (simp add: RebootOp)
  from reboot_inv [OF assms(1,2) this] have
    "\<exists>es' ws' t'. store_inv l e (reboot l e xs f) es' ws' t' \<and> preserves UNIV f es ws t (reboot l e xs f) es' ws' t'" by blast
  ultimately show ?thesis by (simp only:)
qed

lemma run_ops_inv:
  assumes "lib_ok l" "store_inv l e f es ws t" "list_all op_ok ops"
  shows "\<exists>es' ws' t'. store_inv l e (run_ops l e ops f) es' ws' t'
    \<and> preserves {i. \<forall>x \<in> set ops. \<not> touches i x} f es ws t (run_ops l e ops f) es' ws' t'"
  using assms(2,3)
proof (induction ops arbitrary: f es ws t)
  case Nil
  then show ?case using preserves_mono [OF preserves_refl subset_UNIV] unfolding run_ops_def fold.simps id_apply by blast
next
  case (Cons x ops)
  from run_op_inv [OF assms(1) Cons.prems(1), of x] Cons.prems(2) obtain es1 ws1 t1 where
    a: "store_inv l e (run_op l e x f) es1 ws1 t1" "preserves {i. \<not> touches i x} f es ws t (run_op l e x f) es1 ws1 t1" by auto
  from Cons.IH [OF a(1)] Cons.prems(2) obtain es2 ws2 t2 where
    b: "store_inv l e (run_ops l e ops (run_op l e x f)) es2 ws2 t2"
      "preserves {i. \<forall>x \<in> set ops. \<not> touches i x} (run_op l e x f) es1 ws1 t1 (run_ops l e ops (run_op l e x f)) es2 ws2 t2" by auto
  have "preserves {i. \<forall>y \<in> set (x # ops). \<not> touches i y} f es ws t (run_ops l e ops (run_op l e x f)) es2 ws2 t2"
    by (rule preserves_trans [OF preserves_mono [OF a(2)] preserves_mono [OF b(2)]]) auto
  moreover have "run_ops l e (x # ops) f = run_ops l e ops (run_op l e x f)" by (simp add: run_ops_def)
  ultimately show ?case using b(1) by (simp only:) blast
qed

lemma empty_store_inv:
  "crash_fs f \<Longrightarrow> disk f = Map.empty \<Longrightarrow> length i = 16 \<Longrightarrow> store_inv l e f [] [] (i, 0, 0)"
  by (simp add: store_inv_def read_index_def index_safe_def log_is_def old_bytes_def wal_text_def bytes_of_def nodes_listed_def)

section \<open>A process without faults\<close>

definition quiet :: "fs \<Rightarrow> bool" where
  "quiet f \<longleftrightarrow> faults f = [] \<and> \<not> died f"

lemma mutate_quiet: "quiet f \<Longrightarrow> mutate full part f = (True, f\<lparr>disk := full (disk f)\<rparr>)"
  by (simp add: quiet_def mutate_def next_fault_def)

lemma quiet_disk [simp]: "quiet (f\<lparr>disk := d\<rparr>) = quiet f"
  by (simp add: quiet_def)

lemma os_quiet:
  assumes "quiet f"
  shows "os_write_file p b f = (True, f\<lparr>disk := (disk f)(p \<mapsto> b)\<rparr>)"
    "os_rename p q f = (True, f\<lparr>disk := renamed p q (disk f)\<rparr>)"
    "os_remove p f = (if disk f p = None then RemoveMissing else Removed, f\<lparr>disk := (disk f)(p := None)\<rparr>)"
    "os_read_file p f = ((case disk f p of None \<Rightarrow> FileMissing | Some b \<Rightarrow> FileData b), f)"
  using assms
  by (simp_all add: os_write_file_def os_rename_def os_remove_def os_read_file_def mutate_quiet Let_def)

lemma load_index_quiet: "quiet f \<Longrightarrow> snd (load_index l e f) = f"
  by (simp add: load_index_def os_quiet split: option.split)

lemma read_index_load:
  "quiet f \<Longrightarrow> read_index l e (disk f) = Some es \<Longrightarrow> load_index l e f = (Inr es, f)"
  by (auto simp: load_index_def read_index_def os_quiet split: option.splits sum.splits)

lemma save_index_quiet: "quiet f \<Longrightarrow> quiet (snd (save_index_entries l e es f))"
proof -
  assume q: "quiet f"
  obtain r f1 where n: "next_entropy f = (r, f1)" by (cases "next_entropy f")
  then have "quiet f1" using q by (auto simp: next_entropy_def quiet_def)
  with n q show ?thesis by (simp add: save_index_entries_def os_quiet split: option.split sum.split)
qed

lemma append_index_quiet: "quiet f \<Longrightarrow> quiet (snd (append_index l e i ts f))"
  using load_index_quiet save_index_quiet by (simp add: append_index_def Let_def case_prod_beta)

lemma reindex_quiet: "quiet f \<Longrightarrow> quiet (reindex_orphans l e known ws f)"
  by (induction l e known ws f rule: reindex_orphans.induct)
     (auto simp: os_quiet append_index_quiet split: option.split)

lemma reboot_quiet: "quiet (reboot l e [] f)"
proof -
  define f0 where "f0 = f\<lparr>faults := [], died := False\<rparr>"
  have q: "quiet f0" by (simp add: quiet_def f0_def)
  have "quiet (snd (replay_wal l e f0))"
    using q load_index_quiet [OF q] reindex_quiet [OF q]
    by (auto simp: replay_wal_def os_quiet Let_def case_prod_beta split: option.split list.split)
  then show ?thesis by (simp add: reboot_def f0_def)
qed

section \<open>Properties\<close>

text \<open>
  C6. Acknowledged writes are durable: start from an empty directory, run any writes, deletions, crashes
  and restarts that do not concern node \<open>i\<close>, write \<open>i\<close>; if that write reports success, then whatever
  happens to other nodes afterwards, crashes in the middle of any operation included, the next
  restart reads back the payload with the timestamp under which it was sealed.
\<close>

theorem acknowledged_write_survives:
  assumes "lib_ok l" and "crash_fs f0" and "disk f0 = Map.empty" and "list_all op_ok (before @ after)"
    and "length i = 16" and "int64_range ts" and "\<forall>x \<in> set (before @ after). \<not> touches i x"
    and "write_record l e i ts p (run_ops l e before f0) = (None, g)"
  shows "fst (read_record l e i (reboot l e [] (run_ops l e after g))) = Inr (p, ts)"
proof -
  have ops: "list_all op_ok before" "list_all op_ok after" using assms(4) by simp_all
  let ?t0 = "(i, 0, 0) :: node_id \<times> int \<times> nat"
  have s0: "store_inv l e f0 [] [] ?t0" by (rule empty_store_inv [OF assms(2,3,5)])
  from run_ops_inv [OF assms(1) s0 ops(1)] obtain es ws t where
    s1: "store_inv l e (run_ops l e before f0) es ws t"
    and p1: "preserves {i. \<forall>x \<in> set before. \<not> touches i x} f0 [] [] ?t0 (run_ops l e before f0) es ws t" by blast
  have "absent i [] [] ?t0" by (simp add: absent_def)
  then have "absent i es ws t" using p1 assms(5,7) by (simp add: preserves_def)
  with write_record_inv [OF assms(1) s1 assms(5,6,8)] obtain es1 ws1 t1 where
    s2: "store_inv l e g es1 ws1 t1" and k2: "kept i ts p g es1 ws1 t1" by blast
  from run_ops_inv [OF assms(1) s2 ops(2)] obtain es2 ws2 t2 where
    s3: "store_inv l e (run_ops l e after g) es2 ws2 t2"
    and p3: "preserves {i. \<forall>x \<in> set after. \<not> touches i x} g es1 ws1 t1 (run_ops l e after g) es2 ws2 t2" by blast
  have k3: "kept i ts p (run_ops l e after g) es2 ws2 t2" using p3 k2 assms(5,7) by (simp add: preserves_def)
  define h where "h = reboot l e [] (run_ops l e after g)"
  have q: "quiet h" unfolding h_def by (rule reboot_quiet)
  from reboot_inv [OF assms(1) s3, of "[]"] q obtain es3 t3 where
    "store_inv l e h es3 [] t3" "preserves UNIV (run_ops l e after g) es2 ws2 t2 h es3 [] t3"
    unfolding h_def [symmetric] quiet_def by auto
  then have "read_index l e (disk h) = Some es3" "kept i ts p h es3 [] t3"
    using k3 assms(5) by (auto simp: preserves_def store_inv_def)
  then show ?thesis unfolding h_def [symmetric]
    by (simp add: read_record_def timestamp_from_index_def os_quiet [OF q] read_index_load [OF q] kept_def entries_or_empty_def)
qed

definition node1 :: node_id where "node1 = replicate 16 1"
definition node2 :: node_id where "node2 = replicate 16 2"

theorem acknowledged_write_survives_witness:
  "\<exists>g. write_record sample_lib toy_encryptor node1 5 [9] (sample_fs [OkIO, OkIO, CrashIO None]) = (None, g)
     \<and> fst (read_record sample_lib toy_encryptor node1
             (reboot sample_lib toy_encryptor [] (run_ops sample_lib toy_encryptor [DeleteOp node2, RebootOp [CrashIO (Some 3)]] g)))
         = Inr ([9], 5)"
proof -
  let ?f = "sample_fs [OkIO, OkIO, CrashIO None]"
  have f: "crash_fs ?f" "disk ?f = Map.empty"
    by (simp_all add: crash_fs_def crash_only_def entropy_fine_def)
  obtain g where g: "write_record sample_lib toy_encryptor node1 5 [9] (run_ops sample_lib toy_encryptor [] ?f) = (None, g)"
    by (simp add: write_record_def append_wal_def os_append_file_def os_write_file_def mutate_def next_fault_def run_ops_def)
  have "int64_range 5" by (simp add: int64_range_def)
  from acknowledged_write_survives [OF sample_lib_ok f _ _ this _ g, of "[DeleteOp node2, RebootOp [CrashIO (Some 3)]]"] g
  show ?thesis by (simp add: node1_def node2_def run_ops_def numeral_eq_Suc)
qed

text \<open>
  C7. No orphans: after any run with crashes, a restart leaves every node file listed in the
  index, with the log emptied.
\<close>

theorem restart_lists_every_node:
  assumes "lib_ok l" and "crash_fs f0" and "disk f0 = Map.empty" and "list_all op_ok ops"
  shows "let h = reboot l e [] (run_ops l e ops f0) in disk h wal_path = None
    \<and> (\<exists>es. read_index l e (disk h) = Some es
          \<and> {i. length i = 16 \<and> disk h (node_path i) \<noteq> None} \<subseteq> {i. hex_encode i \<in> ie_id ` set es})"
proof -
  define h where "h = reboot l e [] (run_ops l e ops f0)"
  have s0: "store_inv l e f0 [] [] (replicate 16 0, 0, 0)" by (rule empty_store_inv [OF assms(2,3)]) simp
  from run_ops_inv [OF assms(1) s0 assms(4)] obtain es ws t where
    s1: "store_inv l e (run_ops l e ops f0) es ws t" by blast
  have q: "quiet h" unfolding h_def by (rule reboot_quiet)
  from reboot_inv [OF assms(1) s1, of "[]"] q obtain es3 t3 where
    "store_inv l e h es3 [] t3" "disk h wal_path = None"
    unfolding h_def [symmetric] quiet_def by auto
  then show ?thesis unfolding h_def [symmetric] Let_def by (auto simp: store_inv_def nodes_listed_def)
qed

theorem restart_lists_every_node_witness:
  "disk (reboot sample_lib toy_encryptor []
     (run_ops sample_lib toy_encryptor [WriteOp node1 5 [9]] (sample_fs [OkIO, OkIO, CrashIO None]))) wal_path = None"
proof -
  let ?f = "sample_fs [OkIO, OkIO, CrashIO None]"
  have f: "crash_fs ?f" "disk ?f = Map.empty"
    by (simp_all add: crash_fs_def crash_only_def entropy_fine_def)
  have "list_all op_ok [WriteOp node1 5 [9]]" by (simp add: node1_def int64_range_def)
  from restart_lists_every_node [OF sample_lib_ok f this] show ?thesis unfolding Let_def by blast
qed

text \<open>
  The index is replaced atomically: whatever fault strikes while it is saved, the index read back
  is the old or the new one, it is the new one when success is reported, and no other file but the
  temporary one changes.
\<close>

theorem index_update_atomic:
  assumes "lib_ok l" and "index_safe es" and "entropy_ok f" and "save_index_entries l e es f = (r, g)"
  shows "read_index l e (disk g) \<in> {read_index l e (disk f), Some es}
    \<and> (r \<noteq> None \<or> read_index l e (disk g) = Some es)
    \<and> disk g |` (- {index_enc_path, index_tmp_path}) = disk f |` (- {index_enc_path, index_tmp_path})"
  using save_index_spec [OF assms] by (auto simp: restrict_map_def fun_eq_iff)

theorem index_update_atomic_witness:
  "\<exists>r g. save_index_entries sample_lib toy_encryptor [] (sample_fs [CrashIO (Some 3)]) = (r, g)
     \<and> read_index sample_lib toy_encryptor (disk g) = Some []"
proof -
  let ?f = "sample_fs [CrashIO (Some 3)]"
  obtain r g where g: "save_index_entries sample_lib toy_encryptor [] ?f = (r, g)"
    by (cases "save_index_entries sample_lib toy_encryptor [] ?f")
  have "index_safe []" "entropy_ok ?f" by (simp_all add: index_safe_def entropy_ok_def)
  from index_update_atomic [OF sample_lib_ok this g] g show ?thesis by (auto simp: read_index_def)
qed

text \<open>
  An unreadable index is overwritten: \<open>appendIndex\<close> drops the error of \<open>loadIndex\<close>, so that one
  failed read while a record is written replaces the whole index by the entry of that record.
\<close>

theorem failed_read_wipes_index:
  assumes "lib_ok l" and "entropy_fine f" and "faults f = [ErrIO None]" and "\<not> died f"
    and "int64_range ts" and "append_index l e i ts f = (r, g)"
  shows "r = None \<and> read_index l e (disk g) = Some [\<lparr>ie_id = hex_encode i, ie_timestamp = ts\<rparr>]"
proof -
  let ?f = "f\<lparr>faults := []\<rparr>"
  have ld: "load_index l e f = (Inl ReadIndex, ?f)"
    using assms(3,4) by (simp add: load_index_def os_read_file_def mutate_def next_fault_def)
  have h: "healthy_fs ?f" using assms(2,4) by (simp add: healthy_fs_def entropy_fine_def)
  have add: "add_entry [] i ts = [\<lparr>ie_id = hex_encode i, ie_timestamp = ts\<rparr>]" by (simp add: add_entry_def)
  then have s: "save_index_entries l e [\<lparr>ie_id = hex_encode i, ie_timestamp = ts\<rparr>] ?f = (r, g)"
    using assms(6) ld by (simp add: append_index_add entries_or_empty_def)
  have "index_safe [\<lparr>ie_id = hex_encode i, ie_timestamp = ts\<rparr>]"
    using index_safe_add [of "[]" ts i] assms(5) add by (simp add: index_safe_def)
  from save_index_healthy [OF assms(1) this h, of e] s show ?thesis by auto
qed

theorem failed_read_wipes_index_witness:
  "\<exists>g. append_index sample_lib toy_encryptor node1 5 (sample_fs [ErrIO None]) = (None, g)
     \<and> read_index sample_lib toy_encryptor (disk g) = Some [\<lparr>ie_id = hex_encode node1, ie_timestamp = 5\<rparr>]"
proof -
  let ?f = "sample_fs [ErrIO None]"
  obtain r g where g: "append_index sample_lib toy_encryptor node1 5 ?f = (r, g)"
    by (cases "append_index sample_lib toy_encryptor node1 5 ?f")
  have "entropy_fine ?f" "int64_range 5" by (simp_all add: entropy_fine_def int64_range_def)
  from failed_read_wipes_index [OF sample_lib_ok this(1) _ _ this(2) g] g show ?thesis by simp
qed

text \<open>
  Replaying the log is not always safe: when the index cannot be rewritten during the replay,
  the log is removed all the same. The orphaned record is never listed again, and reading it gives
  the zero time, under which it cannot be authenticated.
\<close>

theorem failed_replay_orphans_record:
  assumes "lib_ok l" and "entropy_fine f" and "faults f = [OkIO, OkIO, OkIO, OkIO, ErrIO None]" and "\<not> died f"
    and "read_index l e (disk f) = Some es" and "index_safe es" and "hex_encode i \<notin> ie_id ` set es"
    and "length i = 16" and "disk f (node_path i) = Some b" and "disk f wal_path = Some (bytes_of (wal_line i ts))"
    and "replay_wal l e f = (r, g)"
  shows "r = None \<and> disk g wal_path = None \<and> fst (read_record l e i (reboot l e [] g)) = Inr (b, zero_time)"
proof -
  have en: "wal_entries (string_of (bytes_of (wal_line i ts))) = Some [(i, wrap64 ts)]"
    using wal_entries_torn [of "[]" i "length (wal_line i ts)" ts] assms(8) by (simp add: wal_text_def)
  have fl: "os_read_file p h = ((case disk h p of None \<Rightarrow> FileMissing | Some b \<Rightarrow> FileData b), h\<lparr>faults := xs\<rparr>)"
    if "faults h = OkIO # xs" "\<not> died h" for p h xs
    using that by (simp add: os_read_file_def mutate_def next_fault_def)
  have ld: "load_index l e h = (Inr es, h\<lparr>faults := xs\<rparr>)"
    if "faults h = OkIO # xs" "\<not> died h" "disk h = disk f" for h xs
    using that assms(5) by (auto simp: load_index_def fl read_index_def split: option.splits sum.splits)
  obtain p where p: "marshal_index (codec l) (add_entry es i (wrap64 ts)) = Some p"
    using assms(1) index_safe_add [OF assms(6) wrap64_in_range, of i ts] by (auto simp: lib_ok_def codec_ok_def)
  define f4 where "f4 = f\<lparr>faults := [ErrIO None]\<rparr>"
  obtain n where n: "entropy f4 0 = Inr n" using assms(2) by (auto simp: f4_def entropy_fine_def)
  obtain rec where rec: "seal (crypto l) e (Inr n) index_sentinel_id index_sentinel_time p = Inr rec"
    by (simp add: seal_def Let_def)
  define f5 where "f5 = f\<lparr>faults := [], entropy := (\<lambda>k. entropy f (Suc k))\<rparr>"
  have sv: "save_index_entries l e (add_entry es i (wrap64 ts)) f4 = (Some WriteTmp, f5)"
    using p n rec assms(4) by (simp add: save_index_entries_def next_entropy_def os_write_file_def mutate_def next_fault_def f4_def f5_def)
  have ro: "reindex_orphans l e (ie_id ` set es) [(i, wrap64 ts)] (f\<lparr>faults := [OkIO, OkIO, ErrIO None]\<rparr>) = f5"
    using assms(4,7,9) sv by (simp add: fl ld append_index_add entries_or_empty_def f4_def)
  have eo: "entries_or_empty (Inr es) = es" by (simp add: entries_or_empty_def)
  have q5: "quiet f5" using assms(4) by (simp add: f5_def quiet_def)
  have g: "r = None" "g = f5\<lparr>disk := (disk f5)(wal_path := None)\<rparr>"
    using assms(3,4,10,11) en
    by (simp_all add: replay_wal_def fl ld eo ro os_quiet(3) [OF q5] Let_def del: reindex_orphans.simps)
  define h where "h = reboot l e [] g"
  have "quiet (g\<lparr>faults := [], died := False\<rparr>)" by (simp add: quiet_def)
  then have h: "disk h = disk g" "quiet h"
    using reboot_quiet g by (simp_all add: h_def reboot_def replay_wal_def os_quiet f5_def)
  have "read_index l e (disk h) = Some es" "disk h (node_path i) = Some b"
    using h(1) g(2) assms(5,8,9) by (simp_all add: read_index_def f5_def paths)
  moreover have "find (\<lambda>x. ie_id x = hex_encode i) es = None" using assms(7) by (simp add: find_id_None)
  ultimately have "fst (read_record l e i h) = Inr (b, zero_time)"
    by (simp add: read_record_def timestamp_from_index_def os_quiet [OF h(2)] read_index_load [OF h(2)] entries_or_empty_def)
  then show ?thesis using g by (simp add: h_def)
qed

theorem failed_replay_orphans_record_witness:
  "\<exists>r g. replay_wal sample_lib toy_encryptor
       ((sample_fs [OkIO, OkIO, OkIO, OkIO, ErrIO None])
          \<lparr>disk := [node_path node1 \<mapsto> [9], wal_path \<mapsto> bytes_of (wal_line node1 5)]\<rparr>) = (r, g)
     \<and> fst (read_record sample_lib toy_encryptor node1 (reboot sample_lib toy_encryptor [] g)) = Inr ([9], zero_time)"
proof -
  let ?f = "(sample_fs [OkIO, OkIO, OkIO, OkIO, ErrIO None])
          \<lparr>disk := [node_path node1 \<mapsto> [9], wal_path \<mapsto> bytes_of (wal_line node1 5)]\<rparr>"
  obtain r g where g: "replay_wal sample_lib toy_encryptor ?f = (r, g)" by (cases "replay_wal sample_lib toy_encryptor ?f")
  have n: "length node1 = 16" by (simp add: node1_def)
  have "entropy_fine ?f" "faults ?f = [OkIO, OkIO, OkIO, OkIO, ErrIO None]" "\<not> died ?f"
    "read_index sample_lib toy_encryptor (disk ?f) = Some []" "index_safe []" "hex_encode node1 \<notin> ie_id ` set []"
    "disk ?f (node_path node1) = Some [9]" "disk ?f wal_path = Some (bytes_of (wal_line node1 5))"
    using n by (simp_all add: entropy_fine_def read_index_def index_safe_def paths)
  from failed_replay_orphans_record [OF sample_lib_ok this(1-6) n this(7,8) g] g show ?thesis by blast
qed

end
