(* ===== verification/Vector_Search.thy ===== *)
theory Vector_Search
  imports Json_Store
begin

text \<open>
  The nearest-neighbour search of \<open>internal/storage/jsonstore.go\<close> discharges the contract that
  \<open>internal/graph/coherence.go\<close> puts on its store (locale \<open>vector_reader\<close>), so that the coherence check on
  the embedding cache decides as an exhaustive search would. The state is the content of the cache
  in the order in which the map is iterated.
\<close>

definition cached_nearest ::
  "(node_id \<times> float32 list) list \<Rightarrow> float32 list \<Rightarrow> int \<Rightarrow> string + scored_node list" where
  "cached_nearest s q k = (case nearest_neighbors s q k of None \<Rightarrow> Inl ''panic'' | Some ns \<Rightarrow> Inr ns)"

definition cached_vectors :: "(node_id \<times> float32 list) list \<Rightarrow> (string \<times> float32 list) set" where
  "cached_vectors s = apfst hex_encode ` set s"

definition cache_wf :: "(node_id \<times> float32 list) list \<Rightarrow> bool" where
  "cache_wf s \<longleftrightarrow> distinct (map fst s)"

definition score_node :: "float32 list \<Rightarrow> node_id \<times> float32 list \<Rightarrow> scored_node" where
  "score_node q x = \<lparr>sn_node_id = hex_encode (fst x), similarity = cosine_similarity q (snd x)\<rparr>"

lemma nearest_neighbors_eq:
  "q \<noteq> [] \<Longrightarrow> 0 \<le> k \<Longrightarrow> nearest_neighbors s q k = Some (take (nat k) (sort_key (\<lambda>n. - similarity n) (map (score_node q) s)))"
proof -
  assume a: "q \<noteq> []" "0 \<le> k"
  have "(\<lambda>(i, emb). \<lparr>sn_node_id = hex_encode i, similarity = cosine_similarity q emb\<rparr>) = score_node q"
    by (simp add: score_node_def fun_eq_iff)
  with a show ?thesis by (simp add: nearest_neighbors_def Let_def)
qed

lemma take_sort_split:
  "x \<in> set xs \<Longrightarrow> x \<in> set (take k (sort_key f xs)) \<or> (\<forall>y \<in> set (take k (sort_key f xs)). f y \<le> f x)"
proof -
  assume "x \<in> set xs"
  let ?s = "sort_key f xs"
  have "x \<in> set (take k ?s @ drop k ?s)" using \<open>x \<in> set xs\<close> by simp
  then consider "x \<in> set (take k ?s)" | "x \<in> set (drop k ?s)" by (metis Un_iff set_append)
  then show ?thesis
  proof cases
    case 2
    have "sorted (map f (take k ?s) @ map f (drop k ?s))" by (metis append_take_drop_id map_append sorted_sort_key)
    with 2 show ?thesis by (auto simp: sorted_append)
  qed simp
qed

lemma card_cached: "cache_wf s \<Longrightarrow> card (cached_vectors s) = length s"
proof -
  assume "cache_wf s"
  then have "card (set s) = length s" by (simp add: cache_wf_def distinct_map distinct_card)
  moreover have "inj_on (apfst hex_encode :: node_id \<times> float32 list \<Rightarrow> _) (set s)"
    using hex_encode_inj by (auto intro!: inj_onI)
  ultimately show ?thesis by (simp add: cached_vectors_def card_image)
qed

interpretation cache_reader: vector_reader cached_nearest cosine_similarity cached_vectors cache_wf
proof unfold_locales
  fix s :: "(node_id \<times> float32 list) list"
  show "finite (cached_vectors s)" by (simp add: cached_vectors_def)
next
  fix s :: "(node_id \<times> float32 list) list" and q :: "float32 list" and k :: int
  assume a: "cache_wf s" "q \<noteq> []" "0 < k"
  let ?s = "sort_key (\<lambda>n. - similarity n) (map (score_node q) s)"
  let ?ns = "take (nat k) ?s"
  have r: "cached_nearest s q k = Inr ?ns" using nearest_neighbors_eq a by (simp add: cached_nearest_def)
  have len: "int (length ?ns) = min k (int (card (cached_vectors s)))" using card_cached [OF a(1)] a(3) by auto
  have from_cache: "\<exists>v. (sn_node_id n, v) \<in> cached_vectors s \<and> similarity n = cosine_similarity q v" if "n \<in> set ?ns" for n
  proof -
    have "n \<in> score_node q ` set s" using in_set_takeD [OF that] by simp
    then obtain x where "x \<in> set s" "n = score_node q x" by blast
    then show ?thesis
      by (intro exI [of _ "snd x"] conjI) (auto simp: score_node_def cached_vectors_def intro!: image_eqI [of _ _ x] prod_eqI)
  qed
  have best: "(\<exists>n \<in> set ?ns. sn_node_id n = fst x \<and> similarity n = cosine_similarity q (snd x))
     \<or> (\<forall>n \<in> set ?ns. cosine_similarity q (snd x) \<le> similarity n)" if "x \<in> cached_vectors s" for x
  proof -
    have "x \<in> apfst hex_encode ` set s" using that by (simp add: cached_vectors_def)
    then obtain y where y: "y \<in> set s" "x = apfst hex_encode y" by (elim imageE)
    then have "score_node q y \<in> set (map (score_node q) s)" by simp
    from take_sort_split [OF this, of "nat k" "\<lambda>n. - similarity n"]
    consider "score_node q y \<in> set ?ns" | "\<forall>n \<in> set ?ns. similarity (score_node q y) \<le> similarity n" by auto
    then show ?thesis
    proof cases
      case 1
      then show ?thesis using y(2) by (intro disjI1 bexI [of _ "score_node q y"]) (simp_all add: score_node_def)
    next
      case 2
      then show ?thesis using y(2) by (intro disjI2) (simp add: score_node_def)
    qed
  qed
  show "\<exists>ns. cached_nearest s q k = Inr ns \<and> int (length ns) = min k (int (card (cached_vectors s)))
        \<and> (\<forall>n \<in> set ns. \<exists>v. (sn_node_id n, v) \<in> cached_vectors s \<and> similarity n = cosine_similarity q v)
        \<and> (\<forall>x \<in> cached_vectors s. (\<exists>n \<in> set ns. sn_node_id n = fst x \<and> similarity n = cosine_similarity q (snd x))
             \<or> (\<forall>n \<in> set ns. cosine_similarity q (snd x) \<le> similarity n))"
    using r len from_cache best by blast
qed

text \<open>
  C33. The coherence check is an exhaustive search: a new memory is coherent exactly when the cache is
  empty or some cached vector, among all of them and not only the \<open>k\<close> nearest, reaches the threshold.
\<close>

theorem coherence_check_exhaustive:
  assumes "cache_wf s" and "q \<noteq> []" and "threshold cfg = Fin t" and "0 < t"
  shows "is_coherent (fst (coherence_check (cached_nearest s) (new_checker cfg) q))
     \<longleftrightarrow> s = [] \<or> (\<exists>x \<in> set s. t \<le> cosine_similarity q (snd x))"
proof -
  have c: "0 < coh_k (new_checker cfg)" "threshold (new_checker cfg) = Fin t"
    using assms(3,4) by (simp_all add: new_checker_def Let_def)
  have "cached_vectors s = {} \<longleftrightarrow> s = []" by (simp add: cached_vectors_def)
  moreover have "(\<exists>(i, v) \<in> cached_vectors s. t \<le> cosine_similarity q v) \<longleftrightarrow> (\<exists>x \<in> set s. t \<le> cosine_similarity q (snd x))"
    by (simp add: cached_vectors_def case_prod_beta)
  ultimately show ?thesis using cache_reader.check_iff(1) [OF assms(1,2) c assms(4)] by simp
qed

theorem coherence_check_exhaustive_witness:
  "is_coherent (fst (coherence_check (cached_nearest []) (new_checker \<lparr>threshold = Fin (1/2), coh_k = 0\<rparr>) [0]))"
  using coherence_check_exhaustive [of "[]" "[0]" "\<lparr>threshold = Fin (1/2), coh_k = 0\<rparr>" "1/2"] by (simp add: cache_wf_def)

end
