(* ===== verification/Memory_Store.thy ===== *)
theory Memory_Store
  imports Store_Recovery Vector_Search
begin

text \<open>
  \<open>internal/storage/lancedb.go\<close>: the store of memory nodes over a database connection. The interface
  \<open>lanceDBConn\<close> is the record \<open>conn\<close> of its operations over a state of their own; what the store
  relies on is the locale \<open>record_store\<close>, and the JSON store on a disk without faults is its
  interpretation. The nonce drawn while sealing is an argument, as are the times.
\<close>

section \<open>The connection\<close>

record 's conn =
  c_write :: "node_id \<Rightarrow> int \<Rightarrow> bytes \<Rightarrow> 's \<Rightarrow> store_error option \<times> 's"
  c_read :: "node_id \<Rightarrow> 's \<Rightarrow> (store_error + bytes \<times> int) \<times> 's"
  c_nearest :: "float32 list \<Rightarrow> int \<Rightarrow> 's \<Rightarrow> scored_node list option"
  c_delete :: "node_id \<Rightarrow> 's \<Rightarrow> store_error option \<times> 's"
  c_older :: "int \<Rightarrow> 's \<Rightarrow> (store_error + node_id list) \<times> 's"
  c_range :: "int \<Rightarrow> int \<Rightarrow> 's \<Rightarrow> (store_error + node_id list) \<times> 's"
  c_entries :: "'s \<Rightarrow> (store_error + (node_id \<times> int) list) \<times> 's"
  c_count :: "'s \<Rightarrow> (store_error + nat \<times> int) \<times> 's"
  c_cache_update :: "(node_id \<Rightarrow> float32 list \<Rightarrow> 's \<Rightarrow> 's) option"
  c_cache_evict :: "(node_id \<Rightarrow> 's \<Rightarrow> 's) option"

text \<open>The JSON store as a connection: the disk and the embedding cache, iterated in the order \<open>ord\<close>.\<close>

record json_state =
  js_fs :: fs
  js_cache :: cache

definition on_fs :: "(fs \<Rightarrow> 'r \<times> fs) \<Rightarrow> json_state \<Rightarrow> 'r \<times> json_state" where
  "on_fs op s = (case op (js_fs s) of (r, f) \<Rightarrow> (r, s\<lparr>js_fs := f\<rparr>))"

definition json_conn :: "lib \<Rightarrow> encryptor \<Rightarrow> (cache \<Rightarrow> (node_id \<times> float32 list) list) \<Rightarrow> json_state conn" where
  "json_conn l e ord = \<lparr>
     c_write = (\<lambda>i ts p. on_fs (write_record l e i ts p)),
     c_read = (\<lambda>i. on_fs (read_record l e i)),
     c_nearest = (\<lambda>q k s. nearest_neighbors (ord (js_cache s)) q k),
     c_delete = (\<lambda>i. on_fs (delete_record l e i)),
     c_older = (\<lambda>t. on_fs (list_older_than l e t)),
     c_range = (\<lambda>t0 t1. on_fs (list_in_range l e t0 t1)),
     c_entries = on_fs (list_entries_by_time l e),
     c_count = on_fs (count_records l e),
     c_cache_update = Some (\<lambda>i v s. s\<lparr>js_cache := update_embedding_cache i v (js_cache s)\<rparr>),
     c_cache_evict = Some (\<lambda>i s. s\<lparr>js_cache := evict_embedding_cache i (js_cache s)\<rparr>)\<rparr>"

section \<open>The store\<close>

datatype mem_error =
    MarshalNodeErr | EncryptNode seal_error | WriteDb store_error | ReadDb store_error | OpenNode open_error
  | UnmarshalNodeErr | DeleteDb store_error | ListDb store_error | DeletionsFailed nat nat

definition current_schema_version :: int where "current_schema_version = 1"

definition store_write ::
  "lib \<Rightarrow> encryptor \<Rightarrow> 's conn \<Rightarrow> string + bytes \<Rightarrow> memory_node \<Rightarrow> 's \<Rightarrow> mem_error option \<times> 's" where
  "store_write l e c rnd node s =
     (let n = node\<lparr>schema_version := current_schema_version\<rparr> in
      case marshal_node (codec l) n of
        None \<Rightarrow> (Some MarshalNodeErr, s)
      | Some payload \<Rightarrow>
          (case seal (crypto l) e rnd (mn_id n) (mn_captured_at n) payload of
             Inl err \<Rightarrow> (Some (EncryptNode err), s)
           | Inr r \<Rightarrow>
               (case c_write c (mn_id n) (mn_captured_at n) (rec_data r) s of
                  (Some err, t) \<Rightarrow> (Some (WriteDb err), t)
                | (None, t) \<Rightarrow>
                    (None, (case c_cache_update c of None \<Rightarrow> t | Some up \<Rightarrow> up (mn_id n) (embedding n) t)))))"

definition decode_record :: "lib \<Rightarrow> encryptor \<Rightarrow> node_id \<Rightarrow> bytes \<times> int \<Rightarrow> mem_error + memory_node" where
  "decode_record l e i r =
     (case open_record (crypto l) e \<lparr>rec_node_id = i, rec_timestamp = snd r, rec_data = fst r\<rparr> of
        Inl err \<Rightarrow> Inl (OpenNode err)
      | Inr p \<Rightarrow> (case unmarshal_node (codec l) p of None \<Rightarrow> Inl UnmarshalNodeErr | Some n \<Rightarrow> Inr n))"

definition store_read :: "lib \<Rightarrow> encryptor \<Rightarrow> 's conn \<Rightarrow> node_id \<Rightarrow> 's \<Rightarrow> (mem_error + memory_node) \<times> 's" where
  "store_read l e c i s =
     (case c_read c i s of
        (Inl err, t) \<Rightarrow> (Inl (ReadDb err), t)
      | (Inr r, t) \<Rightarrow> (decode_record l e i r, t))"

definition store_delete :: "'s conn \<Rightarrow> node_id \<Rightarrow> 's \<Rightarrow> mem_error option \<times> 's" where
  "store_delete c i s =
     (case c_delete c i s of
        (Some err, t) \<Rightarrow> (Some (DeleteDb err), t)
      | (None, t) \<Rightarrow> (None, (case c_cache_evict c of None \<Rightarrow> t | Some ev \<Rightarrow> ev i t)))"

text \<open>The loop of \<open>DeleteRange\<close> and \<open>Sweep\<close>: every node is tried, failures are counted.\<close>

fun delete_all :: "'s conn \<Rightarrow> node_id list \<Rightarrow> 's \<Rightarrow> nat \<times> 's" where
  "delete_all c [] s = (0, s)"
| "delete_all c (i # is) s =
     (case store_delete c i s of
        (Some _, t) \<Rightarrow> (case delete_all c is t of (n, u) \<Rightarrow> (Suc n, u))
      | (None, t) \<Rightarrow> delete_all c is t)"

definition delete_range :: "'s conn \<Rightarrow> int \<Rightarrow> int \<Rightarrow> 's \<Rightarrow> (int \<times> mem_error option) \<times> 's" where
  "delete_range c after before s =
     (case c_range c after before s of
        (Inl err, t) \<Rightarrow> ((0, Some (ListDb err)), t)
      | (Inr ids, t) \<Rightarrow>
          (case delete_all c ids t of (failed, u) \<Rightarrow>
             ((int (length ids) - int failed,
               if failed > 0 then Some (DeletionsFailed failed (length ids)) else None), u)))"

definition stats :: "'s conn \<Rightarrow> 's \<Rightarrow> (store_error + nat \<times> int) \<times> 's" where
  "stats c = c_count c"

record timeline_entry =
  te_id :: string
  te_captured_at :: int
  te_description :: string
  te_app :: string
  te_window_title :: string
  te_browser_url :: string
  te_tags :: "string list"

definition timeline_entry_of :: "memory_node \<Rightarrow> timeline_entry" where
  "timeline_entry_of n = \<lparr>te_id = hex_encode (mn_id n), te_captured_at = mn_captured_at n,
     te_description = description n, te_app = mn_process_name n, te_window_title = mn_window_title n,
     te_browser_url = mn_browser_url n, te_tags = mn_tags n\<rparr>"

fun read_page :: "lib \<Rightarrow> encryptor \<Rightarrow> 's conn \<Rightarrow> (node_id \<times> int) list \<Rightarrow> 's \<Rightarrow> timeline_entry list \<times> 's" where
  "read_page l e c [] s = ([], s)"
| "read_page l e c (x # xs) s =
     (case store_read l e c (fst x) s of
        (Inl _, t) \<Rightarrow> read_page l e c xs t
      | (Inr n, t) \<Rightarrow> (case read_page l e c xs t of (ys, u) \<Rightarrow> (timeline_entry_of n # ys, u)))"

text \<open>The slice \<open>entries[offset:end]\<close> panics for a negative offset or an end before the offset.\<close>

definition timeline ::
  "lib \<Rightarrow> encryptor \<Rightarrow> 's conn \<Rightarrow> int \<Rightarrow> int \<Rightarrow> 's \<Rightarrow> ((mem_error + timeline_entry list \<times> int) \<times> 's) option" where
  "timeline l e c limit offset s =
     (case c_entries c s of
        (Inl err, t) \<Rightarrow> Some (Inl (ListDb err), t)
      | (Inr entries, t) \<Rightarrow>
          (let total_n = int (length entries); stop = min (wrap64 (offset + limit)) total_n in
           if offset \<ge> total_n then Some (Inr ([], total_n), t)
           else if offset < 0 \<or> stop < offset then None
           else (case read_page l e c (take (nat (stop - offset)) (drop (nat offset) entries)) t of
                   (ys, u) \<Rightarrow> Some (Inr (ys, total_n), u))))"

definition store_close :: "encryptor \<Rightarrow> encryptor" where
  "store_close e = close_encryptor e"

section \<open>The contract of the connection\<close>

text \<open>\<open>records s\<close> is the content: for every stored node its timestamp and payload.\<close>

locale record_store =
  fixes c :: "'s conn"
    and records :: "'s \<Rightarrow> node_id \<Rightarrow> (int \<times> bytes) option"
    and wf :: "'s \<Rightarrow> bool"
  assumes write_law: "wf s \<Longrightarrow> length i = 16 \<Longrightarrow> int64_range ts \<Longrightarrow> records s i = None \<Longrightarrow>
      \<exists>t. c_write c i ts p s = (None, t) \<and> wf t \<and> records t = (records s)(i \<mapsto> (ts, p))"
    and read_law: "wf s \<Longrightarrow> length i = 16 \<Longrightarrow> c_read c i s =
      ((case records s i of None \<Rightarrow> Inl (NodeNotFound i) | Some (ts, p) \<Rightarrow> Inr (p, ts)), s)"
    and delete_law: "wf s \<Longrightarrow> length i = 16 \<Longrightarrow>
      \<exists>t. c_delete c i s = (None, t) \<and> wf t \<and> records t = (records s)(i := None)"
    and older_law: "wf s \<Longrightarrow> \<exists>ids. c_older c t1 s = (Inr ids, s) \<and> distinct ids
      \<and> set ids = {i. \<exists>ts p. records s i = Some (ts, p) \<and> ts < t1}"
    and range_law: "wf s \<Longrightarrow> \<exists>ids. c_range c t0 t1 s = (Inr ids, s) \<and> distinct ids
      \<and> set ids = {i. \<exists>ts p. records s i = Some (ts, p) \<and> (t0 = zero_time \<or> t0 \<le> ts) \<and> ts < t1}"
    and entries_law: "wf s \<Longrightarrow> \<exists>xs. c_entries c s = (Inr xs, s) \<and> distinct (map fst xs)
      \<and> set xs = {(i, ts). \<exists>p. records s i = Some (ts, p)} \<and> sorted (map (\<lambda>x. - snd x) xs)"
    and count_law: "wf s \<Longrightarrow> \<exists>latest. c_count c s = (Inr (card (dom (records s)), latest), s)"
    and update_law: "wf s \<Longrightarrow> c_cache_update c = Some up \<Longrightarrow> wf (up i v s) \<and> records (up i v s) = records s"
    and evict_law: "wf s \<Longrightarrow> c_cache_evict c = Some ev \<Longrightarrow> wf (ev i s) \<and> records (ev i s) = records s"
    and key_law: "wf s \<Longrightarrow> records s i \<noteq> None \<Longrightarrow> length i = 16"
begin

lemma store_delete_law:
  assumes "wf s" "length i = 16"
  shows "\<exists>t. store_delete c i s = (None, t) \<and> wf t \<and> records t = (records s)(i := None)"
proof -
  obtain t where t: "c_delete c i s = (None, t)" "wf t" "records t = (records s)(i := None)"
    using delete_law [OF assms] by blast
  then show ?thesis
    using evict_law [OF t(2)] by (cases "c_cache_evict c") (simp_all add: store_delete_def)
qed

lemma delete_all_law:
  assumes "wf s" "\<forall>i \<in> set is. length i = 16"
  shows "\<exists>t. delete_all c is s = (0, t) \<and> wf t \<and> records t = records s |` (- set is)"
  using assms
proof (induction "is" arbitrary: s)
  case (Cons i "is")
  from store_delete_law [OF Cons.prems(1)] Cons.prems(2) obtain t where
    t: "store_delete c i s = (None, t)" "wf t" "records t = (records s)(i := None)" by auto
  from Cons.IH [OF t(2)] Cons.prems(2) obtain u where
    u: "delete_all c is t = (0, u)" "wf u" "records u = records t |` (- set is)" by auto
  have "records t |` (- set is) = records s |` (- set (i # is))"
    by (auto simp: t(3) restrict_map_def fun_eq_iff)
  with t(1) u show ?case by simp
qed (simp add: restrict_map_def)

lemma delete_range_law:
  fixes after before :: int
  assumes "wf s"
  defines "hit \<equiv> {i. \<exists>ts p. records s i = Some (ts, p) \<and> (after = zero_time \<or> after \<le> ts) \<and> ts < before}"
  shows "\<exists>t. delete_range c after before s = ((int (card hit), None), t) \<and> wf t \<and> records t = records s |` (- hit)"
proof -
  obtain ids where ids: "c_range c after before s = (Inr ids, s)" "distinct ids" "set ids = hit"
    using range_law [OF assms(1)] unfolding hit_def by blast
  have "\<forall>i \<in> set ids. length i = 16" using key_law [OF assms(1)] ids(3) by (auto simp: hit_def)
  from delete_all_law [OF assms(1) this] obtain t where
    "delete_all c ids s = (0, t)" "wf t" "records t = records s |` (- set ids)" by blast
  then show ?thesis using ids distinct_card [OF ids(2)] by (simp add: delete_range_def)
qed

lemma store_write_law:
  assumes "lib_ok l" "wf s" "node_safe n" "records s (mn_id n) = None" "length nonce = 12"
  shows "\<exists>t d. store_write l e c (Inr nonce) n s = (None, t) \<and> wf t
     \<and> records t = (records s)(mn_id n \<mapsto> (mn_captured_at n, d))
     \<and> decode_record l e (mn_id n) (d, mn_captured_at n) = Inr (n\<lparr>schema_version := current_schema_version\<rparr>)"
proof -
  let ?n = "n\<lparr>schema_version := current_schema_version\<rparr>"
  have n: "node_safe ?n" "length (mn_id n) = 16" "int64_range (mn_captured_at n)"
    using assms(3) by (simp_all add: node_safe_def current_schema_version_def int64_range_def)
  obtain b where b: "marshal_node (codec l) ?n = Some b" "unmarshal_node (codec l) b = Some ?n"
    using assms(1) n(1) by (auto simp: lib_ok_def codec_ok_def)
  obtain r where r: "seal (crypto l) e (Inr nonce) (mn_id n) (mn_captured_at n) b = Inr r" using seal_ok by blast
  have req: "r = \<lparr>rec_node_id = mn_id n, rec_timestamp = mn_captured_at n, rec_data = rec_data r\<rparr>"
    using r by (auto simp: seal_def Let_def)
  have "open_record (crypto l) e r = Inr b"
    using open_seal [OF _ r] assms(1,5) by (simp add: lib_ok_def gcm_nonce_size_def)
  then have dec: "decode_record l e (mn_id n) (rec_data r, mn_captured_at n) = Inr ?n"
    using b(2) req by (simp add: decode_record_def)
  obtain t where t: "c_write c (mn_id n) (mn_captured_at n) (rec_data r) s = (None, t)" "wf t"
    "records t = (records s)(mn_id n \<mapsto> (mn_captured_at n, rec_data r))"
    using write_law [OF assms(2) n(2,3) assms(4)] by blast
  show ?thesis
    using b r t dec update_law [OF t(2)] by (cases "c_cache_update c") (auto simp: store_write_def Let_def)
qed

lemma store_read_law:
  assumes "wf s" "length i = 16"
  shows "store_read l e c i s = ((case records s i of None \<Rightarrow> Inl (ReadDb (NodeNotFound i))
     | Some (ts, p) \<Rightarrow> decode_record l e i (p, ts)), s)"
  using read_law [OF assms] by (simp add: store_read_def split: option.split)

lemma read_page_law:
  assumes "wf s" "\<forall>x \<in> set xs. length (fst x) = 16" "\<forall>x \<in> set xs. fst (store_read l e c (fst x) s) = Inr (nd x)"
  shows "read_page l e c xs s = (map (\<lambda>x. timeline_entry_of (nd x)) xs, s)"
  using assms(2,3)
proof (induction xs)
  case (Cons x xs)
  then have "store_read l e c (fst x) s = (Inr (nd x), s)"
    using store_read_law [OF assms(1), of "fst x" l e] by simp
  with Cons show ?case by simp
qed simp

text \<open>A page is the slice of the list of all entries, newest first.\<close>

lemma timeline_law:
  assumes "wf s" "\<forall>i. records s i \<noteq> None \<longrightarrow> fst (store_read l e c i s) = Inr (nd i)"
  shows "\<exists>xs. distinct (map fst xs) \<and> set xs = {(i, ts). \<exists>p. records s i = Some (ts, p)} \<and> sorted (map (\<lambda>x. - snd x) xs)
     \<and> (\<forall>limit offset. 0 \<le> limit \<longrightarrow> 0 \<le> offset \<longrightarrow> int64_range (offset + limit) \<longrightarrow>
          timeline l e c limit offset s =
            Some (Inr (map (\<lambda>x. timeline_entry_of (nd (fst x))) (take (nat limit) (drop (nat offset) xs)), int (length xs)), s))"
proof -
  obtain xs where xs: "c_entries c s = (Inr xs, s)" "distinct (map fst xs)"
    "set xs = {(i, ts). \<exists>p. records s i = Some (ts, p)}" "sorted (map (\<lambda>x. - snd x) xs)"
    using entries_law [OF assms(1)] by blast
  have r: "records s (fst x) \<noteq> None" if "x \<in> set xs" for x using that xs(3) by auto
  have page: "read_page l e c ys s = (map (\<lambda>x. timeline_entry_of (nd (fst x))) ys, s)" if "set ys \<subseteq> set xs" for ys
    using read_page_law [OF assms(1), of ys l e "\<lambda>x. nd (fst x)"] key_law [OF assms(1)] r assms(2) that by blast
  have "timeline l e c limit offset s =
      Some (Inr (map (\<lambda>x. timeline_entry_of (nd (fst x))) (take (nat limit) (drop (nat offset) xs)), int (length xs)), s)"
    if "0 \<le> limit" "0 \<le> offset" "int64_range (offset + limit)" for limit offset
  proof (cases "offset \<ge> int (length xs)")
    case True
    then show ?thesis using xs(1) by (simp add: timeline_def Let_def)
  next
    case False
    let ?stop = "min (offset + limit) (int (length xs))"
    have "take (nat (?stop - offset)) (drop (nat offset) xs) = take (nat limit) (drop (nat offset) xs)"
      using that False by (cases "offset + limit \<le> int (length xs)") (simp_all add: min_def nat_diff_distrib)
    moreover have "set (take (nat limit) (drop (nat offset) xs)) \<subseteq> set xs"
      by (meson in_set_dropD in_set_takeD subsetI)
    ultimately show ?thesis using that False xs(1) page by (simp add: timeline_def Let_def)
  qed
  with xs show ?thesis by blast
qed

end

section \<open>The JSON store keeps the contract\<close>

text \<open>
  On a disk without faults: the index and the node files agree, every identifier is listed once.
\<close>

definition json_entries :: "lib \<Rightarrow> encryptor \<Rightarrow> fs \<Rightarrow> index_entry list" where
  "json_entries l e f = (case read_index l e (disk f) of None \<Rightarrow> [] | Some es \<Rightarrow> es)"

definition json_wf :: "lib \<Rightarrow> encryptor \<Rightarrow> json_state \<Rightarrow> bool" where
  "json_wf l e s \<longleftrightarrow>
     (let f = js_fs s; es = json_entries l e f in
        healthy_fs f \<and> read_index l e (disk f) = Some es \<and> index_safe es \<and> distinct (map ie_id es)
        \<and> (\<forall>x \<in> set es. \<exists>i. length i = 16 \<and> ie_id x = hex_encode i)
        \<and> (\<forall>i. length i = 16 \<longrightarrow> (disk f (node_path i) \<noteq> None \<longleftrightarrow> hex_encode i \<in> ie_id ` set es)))"

definition entry_time :: "index_entry list \<Rightarrow> node_id \<Rightarrow> int option" where
  "entry_time es i = map_option ie_timestamp (find (\<lambda>x. ie_id x = hex_encode i) es)"

definition json_records :: "lib \<Rightarrow> encryptor \<Rightarrow> json_state \<Rightarrow> node_id \<Rightarrow> (int \<times> bytes) option" where
  "json_records l e s i =
     (if length i = 16 then
        (case disk (js_fs s) (node_path i) of
           None \<Rightarrow> None
         | Some p \<Rightarrow> map_option (\<lambda>ts. (ts, p)) (entry_time (json_entries l e (js_fs s)) i))
      else None)"

lemma entry_time_None: "entry_time es i = None \<longleftrightarrow> hex_encode i \<notin> ie_id ` set es"
  by (simp add: entry_time_def find_id_None)

lemma entry_time_Some:
  assumes "distinct (map ie_id es)"
  shows "entry_time es i = Some ts \<longleftrightarrow> \<lparr>ie_id = hex_encode i, ie_timestamp = ts\<rparr> \<in> set es"
  using assms
proof (induction es)
  case (Cons x es)
  have "x = \<lparr>ie_id = hex_encode i, ie_timestamp = ts\<rparr> \<longleftrightarrow> ie_id x = hex_encode i \<and> ie_timestamp x = ts" by auto
  then show ?case using Cons by (force simp: entry_time_def)
qed (simp add: entry_time_def)

lemma json_records_eq:
  assumes "json_wf l e s"
  shows "json_records l e s i = Some (ts, p) \<longleftrightarrow> length i = 16 \<and> disk (js_fs s) (node_path i) = Some p
     \<and> \<lparr>ie_id = hex_encode i, ie_timestamp = ts\<rparr> \<in> set (json_entries l e (js_fs s))"
  using assms entry_time_Some [of "json_entries l e (js_fs s)"]
  by (auto simp: json_records_def json_wf_def Let_def split: option.splits)

lemma json_records_None:
  assumes "json_wf l e s" "length i = 16"
  shows "json_records l e s i = None \<longleftrightarrow> disk (js_fs s) (node_path i) = None"
  using assms entry_time_None [of "json_entries l e (js_fs s)" i]
  by (auto simp: json_records_def json_wf_def Let_def split: option.splits)

text \<open>A listed record, from the side of the index.\<close>

lemma json_listed:
  assumes "json_wf l e s"
  shows "(\<exists>p. json_records l e s i = Some (ts, p)) \<longleftrightarrow>
     length i = 16 \<and> \<lparr>ie_id = hex_encode i, ie_timestamp = ts\<rparr> \<in> set (json_entries l e (js_fs s))"
proof -
  have "disk (js_fs s) (node_path i) \<noteq> None"
    if "length i = 16" "\<lparr>ie_id = hex_encode i, ie_timestamp = ts\<rparr> \<in> set (json_entries l e (js_fs s))"
    using assms that by (force simp: json_wf_def Let_def)
  then show ?thesis using json_records_eq [OF assms] by auto
qed

lemma entry_id_hex: "length i = 16 \<Longrightarrow> ie_id x = hex_encode i \<Longrightarrow> entry_id x = Some i"
  by (simp add: entry_id_def)

lemma entry_ids:
  assumes "\<forall>x \<in> set es. \<exists>i. length i = 16 \<and> ie_id x = hex_encode i" "distinct (map ie_id es)"
  shows "distinct (List.map_filter entry_id es)"
    "set (List.map_filter entry_id es) = {i. length i = 16 \<and> hex_encode i \<in> ie_id ` set es}"
  using assms
proof (induction es)
  case (Cons x es)
  case 1
  from 1(1) obtain i where i: "length i = 16" "ie_id x = hex_encode i" by auto
  from Cons(2) 1 have s: "set (List.map_filter entry_id es) = {i. length i = 16 \<and> hex_encode i \<in> ie_id ` set es}" by simp
  from Cons(1) 1 have "distinct (List.map_filter entry_id es)" by simp
  with s i 1(2) entry_id_hex [OF i] show ?case by (simp add: List.map_filter_simps)
next
  case (Cons x es)
  case 2
  from 2(1) obtain i where i: "length i = 16" "ie_id x = hex_encode i" by auto
  from Cons(2) 2 have s: "set (List.map_filter entry_id es) = {i. length i = 16 \<and> hex_encode i \<in> ie_id ` set es}" by simp
  with i entry_id_hex [OF i] show ?case by (auto simp: List.map_filter_simps)
qed (simp_all add: List.map_filter_simps)

lemma json_load:
  assumes "json_wf l e s"
  shows "load_index l e (js_fs s) = (Inr (json_entries l e (js_fs s)), js_fs s)"
  using assms load_index_healthy by (simp add: json_wf_def Let_def)

lemma json_wfI:
  assumes "healthy_fs f" "read_index l e (disk f) = Some es" "index_safe es" "distinct (map ie_id es)"
    "\<forall>x \<in> set es. \<exists>i. length i = 16 \<and> ie_id x = hex_encode i"
    "\<forall>i. length i = 16 \<longrightarrow> (disk f (node_path i) \<noteq> None \<longleftrightarrow> hex_encode i \<in> ie_id ` set es)"
  shows "json_wf l e (s\<lparr>js_fs := f\<rparr>)" "json_entries l e f = es"
proof -
  show "json_entries l e f = es" using assms(2) by (simp add: json_entries_def)
  with assms show "json_wf l e (s\<lparr>js_fs := f\<rparr>)" unfolding json_wf_def Let_def by simp
qed

lemma json_write_law:
  assumes "lib_ok l" "json_wf l e s" "length i = 16" "int64_range ts" "json_records l e s i = None"
  shows "\<exists>t. c_write (json_conn l e ord) i ts p s = (None, t) \<and> json_wf l e t
     \<and> json_records l e t = (json_records l e s)(i \<mapsto> (ts, p))"
proof -
  define f es where "f = js_fs s" and "es = json_entries l e (js_fs s)"
  have w: "healthy_fs f" "read_index l e (disk f) = Some es" "index_safe es" "distinct (map ie_id es)"
    "\<forall>x \<in> set es. \<exists>i. length i = 16 \<and> ie_id x = hex_encode i"
    "\<forall>i. length i = 16 \<longrightarrow> (disk f (node_path i) \<noteq> None \<longleftrightarrow> hex_encode i \<in> ie_id ` set es)"
    using assms(2) by (simp_all add: json_wf_def Let_def f_def es_def)
  have "disk f (node_path i) = None" using json_records_None [OF assms(2,3)] assms(5) by (simp add: f_def)
  then have new: "hex_encode i \<notin> ie_id ` set es" using w(6) assms(3) by auto
  let ?d = "(disk f)(wal_path \<mapsto> old_bytes (disk f) wal_path @ bytes_of (wal_line i ts), node_path i \<mapsto> p)"
  have r2: "read_index l e ?d = Some es" using w(2) assms(3) by (simp add: read_index_def paths)
  have h2: "healthy_fs (f\<lparr>disk := ?d\<rparr>)" using w(1) by simp
  from append_index_healthy [OF assms(1) w(3) h2 _ assms(4), of e i] r2 obtain g where
    g: "append_index l e i ts (f\<lparr>disk := ?d\<rparr>) = (None, g)" "healthy_fs g" "read_index l e (disk g) = Some (add_entry es i ts)"
      "\<And>q. q \<noteq> index_enc_path \<Longrightarrow> q \<noteq> index_tmp_path \<Longrightarrow> disk g q = ?d q" by auto
  have add: "add_entry es i ts = es @ [\<lparr>ie_id = hex_encode i, ie_timestamp = ts\<rparr>]" using new by (simp add: add_entry_def)
  have nodes: "disk g (node_path j) = (if j = i then Some p else disk f (node_path j))" if "length j = 16" for j
    using g(4) [of "node_path j"] that by (simp add: paths)
  have wf: "json_wf l e (s\<lparr>js_fs := g\<rparr>)" "json_entries l e g = add_entry es i ts"
    using json_wfI [OF g(2,3) index_safe_add [OF w(3) assms(4)]] w(4-6) new nodes assms(3) by (auto simp: add)
  have "write_record l e i ts p f = (None, g)"
    using g(1) w(1) by (simp add: write_record_def append_wal_def os_healthy)
  then have c: "c_write (json_conn l e ord) i ts p s = (None, s\<lparr>js_fs := g\<rparr>)"
    by (simp add: json_conn_def on_fs_def f_def)
  have "json_records l e (s\<lparr>js_fs := g\<rparr>) j = ((json_records l e s)(i \<mapsto> (ts, p))) j" for j
  proof (cases "length j = 16")
    case True
    have "entry_time (add_entry es i ts) j = (if j = i then Some ts else entry_time es j)"
      using new find_id_None [of "hex_encode i" es] by (auto simp: add entry_time_def find_append split: option.splits)
    then show ?thesis using True nodes wf(2)
      by (cases "j = i") (simp_all add: json_records_def f_def es_def split: option.split)
  next
    case False
    then show ?thesis using assms(3) by (auto simp: json_records_def)
  qed
  then show ?thesis using c wf(1) by blast
qed

lemma json_read_law:
  assumes "json_wf l e s" "length i = 16"
  shows "c_read (json_conn l e ord) i s =
     ((case json_records l e s i of None \<Rightarrow> Inl (NodeNotFound i) | Some (ts, p) \<Rightarrow> Inr (p, ts)), s)"
proof -
  have h: "healthy_fs (js_fs s)" using assms(1) by (simp add: json_wf_def Let_def)
  show ?thesis
  proof (cases "disk (js_fs s) (node_path i)")
    case None
    then show ?thesis using json_records_None [OF assms] h
      by (simp add: json_conn_def on_fs_def read_record_def os_healthy)
  next
    case (Some p)
    then obtain x where x: "find (\<lambda>x. ie_id x = hex_encode i) (json_entries l e (js_fs s)) = Some x"
      using json_records_None [OF assms] assms(2) by (auto simp: json_records_def entry_time_def)
    then show ?thesis using Some h assms(2) json_load [OF assms(1)]
      by (simp add: json_conn_def on_fs_def read_record_def os_healthy timestamp_from_index_def entries_or_empty_def
          json_records_def entry_time_def)
  qed
qed

lemma json_delete_law:
  assumes "lib_ok l" "json_wf l e s" "length i = 16"
  shows "\<exists>t. c_delete (json_conn l e ord) i s = (None, t) \<and> json_wf l e t
     \<and> json_records l e t = (json_records l e s)(i := None)"
proof -
  define f es where "f = js_fs s" and "es = json_entries l e (js_fs s)"
  have w: "healthy_fs f" "read_index l e (disk f) = Some es" "index_safe es" "distinct (map ie_id es)"
    "\<forall>x \<in> set es. \<exists>i. length i = 16 \<and> ie_id x = hex_encode i"
    "\<forall>i. length i = 16 \<longrightarrow> (disk f (node_path i) \<noteq> None \<longleftrightarrow> hex_encode i \<in> ie_id ` set es)"
    using assms(2) by (simp_all add: json_wf_def Let_def f_def es_def)
  define fl where "fl = filter (\<lambda>x. ie_id x \<noteq> hex_encode i) es"
  let ?f = "f\<lparr>disk := (disk f)(node_path i := None)\<rparr>"
  have h: "healthy_fs ?f" using w(1) by simp
  have r: "read_index l e (disk ?f) = Some es" using w(2) assms(3) by (simp add: read_index_def paths)
  from save_index_healthy [OF assms(1) index_safe_filter [OF w(3)] h, of e "\<lambda>x. ie_id x \<noteq> hex_encode i"] obtain g where
    g: "save_index_entries l e fl ?f = (None, g)" "healthy_fs g" "read_index l e (disk g) = Some fl"
      "\<And>q. q \<noteq> index_enc_path \<Longrightarrow> q \<noteq> index_tmp_path \<Longrightarrow> disk g q = disk ?f q" unfolding fl_def by blast
  have "delete_record l e i f = (None, g)"
    using w(1) load_index_healthy [OF h r] g(1) by (simp add: delete_record_def os_healthy remove_from_index_def fl_def)
  then have c: "c_delete (json_conn l e ord) i s = (None, s\<lparr>js_fs := g\<rparr>)"
    by (simp add: json_conn_def on_fs_def f_def)
  have nodes: "disk g (node_path j) = (if j = i then None else disk f (node_path j))" if "length j = 16" for j
    using g(4) [of "node_path j"] that by (simp add: paths)
  have ids: "hex_encode j \<in> ie_id ` set fl \<longleftrightarrow> j \<noteq> i \<and> hex_encode j \<in> ie_id ` set es" for j
    by (auto simp: fl_def)
  have wf: "json_wf l e (s\<lparr>js_fs := g\<rparr>)" "json_entries l e g = fl"
    using json_wfI [OF g(2,3)] index_safe_filter [OF w(3)] w(4-6) nodes ids
    by (auto simp: fl_def distinct_map_filter)
  have "json_records l e (s\<lparr>js_fs := g\<rparr>) j = ((json_records l e s)(i := None)) j" for j
  proof (cases "length j = 16 \<and> j \<noteq> i")
    case True
    then have "find (\<lambda>x. ie_id x = hex_encode j) fl = find (\<lambda>x. ie_id x = hex_encode j) es"
      unfolding fl_def by (intro find_filter_other) auto
    then show ?thesis using True nodes wf(2) by (simp add: json_records_def entry_time_def f_def es_def split: option.split)
  next
    case False
    then show ?thesis using nodes [OF assms(3)] assms(3) by (cases "j = i") (simp_all add: json_records_def)
  qed
  then show ?thesis using c wf(1) by blast
qed

lemma entry_list_set:
  assumes "\<forall>x \<in> set es. \<exists>i. length i = 16 \<and> ie_id x = hex_encode i" "distinct (map ie_id es)"
  defines "xs \<equiv> List.map_filter (\<lambda>x. map_option (\<lambda>i. (i, ie_timestamp x)) (entry_id x)) es"
  shows "map fst xs = List.map_filter entry_id es"
    "set xs = {(i, ts). length i = 16 \<and> \<lparr>ie_id = hex_encode i, ie_timestamp = ts\<rparr> \<in> set es}"
proof -
  show "map fst xs = List.map_filter entry_id es"
    unfolding xs_def by (induction es) (auto simp: List.map_filter_simps split: option.split)
  show "set xs = {(i, ts). length i = 16 \<and> \<lparr>ie_id = hex_encode i, ie_timestamp = ts\<rparr> \<in> set es}"
    using assms(1) unfolding xs_def
  proof (induction es)
    case (Cons x es)
    then obtain i where i: "length i = 16" "ie_id x = hex_encode i" by auto
    then have "x = \<lparr>ie_id = hex_encode j, ie_timestamp = ts\<rparr> \<longleftrightarrow> j = i \<and> ts = ie_timestamp x" for j ts by auto
    with Cons i entry_id_hex [OF i] show ?case by (auto simp: List.map_filter_simps)
  qed (simp add: List.map_filter_simps)
qed

lemma json_range_law:
  assumes "json_wf l e s"
  shows "\<exists>ids. c_range (json_conn l e ord) t0 t1 s = (Inr ids, s) \<and> distinct ids
      \<and> set ids = {i. \<exists>ts p. json_records l e s i = Some (ts, p) \<and> (t0 = zero_time \<or> t0 \<le> ts) \<and> ts < t1}"
    "\<exists>ids. c_older (json_conn l e ord) t1 s = (Inr ids, s) \<and> distinct ids
      \<and> set ids = {i. \<exists>ts p. json_records l e s i = Some (ts, p) \<and> ts < t1}"
proof -
  define es where "es = json_entries l e (js_fs s)"
  have w: "\<forall>x \<in> set es. \<exists>i. length i = 16 \<and> ie_id x = hex_encode i" "distinct (map ie_id es)"
    using assms by (simp_all add: json_wf_def Let_def es_def)
  have ids: "distinct (List.map_filter entry_id (filter P es))
      \<and> set (List.map_filter entry_id (filter P es)) = {i. length i = 16 \<and> (\<exists>x \<in> set es. P x \<and> ie_id x = hex_encode i)}" for P
  proof -
    have "hex_encode i \<in> ie_id ` set (filter P es) \<longleftrightarrow> (\<exists>x \<in> set es. P x \<and> ie_id x = hex_encode i)" for i
      by (auto simp: image_iff eq_commute [of "hex_encode i"])
    with entry_ids [of "filter P es"] w show ?thesis by (simp add: distinct_map_filter)
  qed
  have listed: "(\<exists>x \<in> set es. P (ie_timestamp x) \<and> ie_id x = hex_encode i)
      \<longleftrightarrow> (\<exists>ts. \<lparr>ie_id = hex_encode i, ie_timestamp = ts\<rparr> \<in> set es \<and> P ts)" for P i
    by (metis (full_types) index_entry.select_convs index_entry.surjective old.unit.exhaust)
  show "\<exists>ids. c_range (json_conn l e ord) t0 t1 s = (Inr ids, s) \<and> distinct ids
      \<and> set ids = {i. \<exists>ts p. json_records l e s i = Some (ts, p) \<and> (t0 = zero_time \<or> t0 \<le> ts) \<and> ts < t1}"
    using ids [of "\<lambda>x. (t0 = zero_time \<or> \<not> ie_timestamp x < t0) \<and> ie_timestamp x < t1"]
      listed [of "\<lambda>ts. (t0 = zero_time \<or> \<not> ts < t0) \<and> ts < t1"] json_load [OF assms] json_listed [OF assms]
    by (auto simp: json_conn_def on_fs_def list_in_range_def es_def not_less)
  show "\<exists>ids. c_older (json_conn l e ord) t1 s = (Inr ids, s) \<and> distinct ids
      \<and> set ids = {i. \<exists>ts p. json_records l e s i = Some (ts, p) \<and> ts < t1}"
    using ids [of "\<lambda>x. ie_timestamp x < t1"]
      listed [of "\<lambda>ts. ts < t1"] json_load [OF assms] json_listed [OF assms]
    by (auto simp: json_conn_def on_fs_def list_older_than_def es_def)
qed

lemma json_entries_law:
  assumes "json_wf l e s"
  shows "\<exists>xs. c_entries (json_conn l e ord) s = (Inr xs, s) \<and> distinct (map fst xs)
      \<and> set xs = {(i, ts). \<exists>p. json_records l e s i = Some (ts, p)} \<and> sorted (map (\<lambda>x. - snd x) xs)"
    "\<exists>latest. c_count (json_conn l e ord) s = (Inr (card (dom (json_records l e s)), latest), s)"
proof -
  define es where "es = json_entries l e (js_fs s)"
  have w: "\<forall>x \<in> set es. \<exists>i. length i = 16 \<and> ie_id x = hex_encode i" "distinct (map ie_id es)"
    using assms by (simp_all add: json_wf_def Let_def es_def)
  define xs where "xs = List.map_filter (\<lambda>x. map_option (\<lambda>i. (i, ie_timestamp x)) (entry_id x)) es"
  have xs: "distinct (map fst xs)" "set xs = {(i, ts). \<exists>p. json_records l e s i = Some (ts, p)}"
    using entry_list_set [OF w] entry_ids(1) [OF w] json_listed [OF assms] unfolding xs_def es_def by auto
  then show "\<exists>xs. c_entries (json_conn l e ord) s = (Inr xs, s) \<and> distinct (map fst xs)
      \<and> set xs = {(i, ts). \<exists>p. json_records l e s i = Some (ts, p)} \<and> sorted (map (\<lambda>x. - snd x) xs)"
    using json_load [OF assms]
    by (intro exI [of _ "sort_key (\<lambda>x. - snd x) xs"])
       (auto simp: json_conn_def on_fs_def list_entries_by_time_def xs_def es_def distinct_map)
  have "length xs = length es"
    using w(1) entry_id_hex unfolding xs_def by (induction es) (force simp: List.map_filter_simps)+
  moreover have "dom (json_records l e s) = fst ` set xs" using xs(2) by (force simp: dom_def)
  then have "card (dom (json_records l e s)) = length xs"
    using xs(1) by (metis distinct_card length_map list.set_map)
  ultimately show "\<exists>latest. c_count (json_conn l e ord) s = (Inr (card (dom (json_records l e s)), latest), s)"
    using json_load [OF assms] by (simp add: json_conn_def on_fs_def count_records_def es_def)
qed

lemma json_cache_irrelevant [simp]:
  "json_wf l e (s\<lparr>js_cache := c\<rparr>) = json_wf l e s" "json_records l e (s\<lparr>js_cache := c\<rparr>) = json_records l e s"
  by (simp_all add: json_wf_def json_records_def fun_eq_iff split: option.split)

text \<open>Without faults the JSON store is a record store.\<close>

interpretation json: record_store "json_conn l e ord" "json_records l e" "\<lambda>s. lib_ok l \<and> json_wf l e s"
proof (unfold_locales, goal_cases)
  case (1 s i ts p)
  then show ?case using json_write_law by blast
next
  case (2 s i)
  then show ?case using json_read_law by blast
next
  case (3 s i)
  then show ?case using json_delete_law by blast
next
  case (4 s t1)
  then show ?case using json_range_law(2) by blast
next
  case (5 s t0 t1)
  then show ?case using json_range_law(1) by blast
next
  case (6 s)
  then show ?case using json_entries_law(1) by blast
next
  case (7 s)
  then show ?case using json_entries_law(2) by blast
next
  case (8 s up i v)
  then have "up i v s = s\<lparr>js_cache := update_embedding_cache i v (js_cache s)\<rparr>"
    by (auto simp: json_conn_def fun_eq_iff)
  with 8 show ?case by simp
next
  case (9 s ev i)
  then have "ev i s = s\<lparr>js_cache := evict_embedding_cache i (js_cache s)\<rparr>"
    by (auto simp: json_conn_def fun_eq_iff)
  with 9 show ?case by simp
next
  case (10 s i)
  then show ?case by (auto simp: json_records_def split: if_splits)
qed

section \<open>Properties\<close>

text \<open>
  C8. Store and recall: a memory node that has been written is read back unchanged but for the schema
  version, and no other node is affected; deleting it makes it unreadable.
\<close>

theorem memory_roundtrip:
  assumes "lib_ok l" and "json_wf l e s" and "node_safe n" and "json_records l e s (mn_id n) = None" and "length nonce = 12"
    and "store_write l e (json_conn l e ord) (Inr nonce) n s = (r, t)"
    and "store_delete (json_conn l e ord) (mn_id n) t = (r2, u)"
  shows "r = None \<and> json_wf l e t
    \<and> store_read l e (json_conn l e ord) (mn_id n) t = (Inr (n\<lparr>schema_version := 1\<rparr>), t)
    \<and> r2 = None \<and> store_read l e (json_conn l e ord) (mn_id n) u = (Inl (ReadDb (NodeNotFound (mn_id n))), u)
    \<and> (\<forall>j \<in> {j. length j = 16} - {mn_id n}.
         fst (store_read l e (json_conn l e ord) j t) = fst (store_read l e (json_conn l e ord) j s)
         \<and> fst (store_read l e (json_conn l e ord) j u) = fst (store_read l e (json_conn l e ord) j s))"
proof -
  have wf: "lib_ok l \<and> json_wf l e s" and len: "length (mn_id n) = 16"
    using assms(1-3) by (simp_all add: node_safe_def)
  obtain d where t: "r = None" "lib_ok l \<and> json_wf l e t"
    "json_records l e t = (json_records l e s)(mn_id n \<mapsto> (mn_captured_at n, d))"
    "decode_record l e (mn_id n) (d, mn_captured_at n) = Inr (n\<lparr>schema_version := current_schema_version\<rparr>)"
    using json.store_write_law [OF assms(1) wf assms(3,4,5), of e ord] assms(6) by auto
  obtain u' where u: "r2 = None" "lib_ok l \<and> json_wf l e u" "json_records l e u = (json_records l e t)(mn_id n := None)"
    using json.store_delete_law [OF t(2) len, of ord] assms(7) by auto
  note rd = json.store_read_law [where l = l and e = e and ord = ord]
  show ?thesis using t u rd [OF t(2) len] rd [OF u(2) len] rd [OF t(2)] rd [OF u(2)] rd [OF wf]
    by (simp add: current_schema_version_def)
qed

text \<open>
  C9. Range deletion is exact: the nodes with a timestamp in the range are removed and counted, all others keep
  timestamp and payload.
\<close>

theorem delete_range_exact:
  assumes "lib_ok l" and "json_wf l e s"
  shows "let hit = {i. \<exists>ts p. json_records l e s i = Some (ts, p) \<and> (after = zero_time \<or> after \<le> ts) \<and> ts < before}
    in \<exists>t. delete_range (json_conn l e ord) after before s = ((int (card hit), None), t) \<and> json_wf l e t
         \<and> json_records l e t = json_records l e s |` (- hit)"
  using json.delete_range_law [of l e s ord after before] assms by (simp add: Let_def)

text \<open>
  The timeline is complete and ordered: there is one list of all stored nodes, newest first and each
  once, and every page the interface asks for is a slice of it, with the true total.
\<close>

theorem timeline_pages:
  assumes "lib_ok l" and "json_wf l e s"
    and "\<forall>i \<in> dom (json_records l e s). fst (store_read l e (json_conn l e ord) i s) = Inr (nd i)"
  shows "\<exists>ids. distinct ids \<and> set ids = dom (json_records l e s)
     \<and> sorted (map (\<lambda>i. - fst (the (json_records l e s i))) ids)
     \<and> (\<forall>limit offset. limit < 0 \<or> offset < 0 \<or> \<not> int64_range (offset + limit) \<or>
          timeline l e (json_conn l e ord) limit offset s =
            Some (Inr (map (\<lambda>i. timeline_entry_of (nd i)) (take (nat limit) (drop (nat offset) ids)), int (length ids)), s))"
proof -
  have rd: "\<forall>i. json_records l e s i \<noteq> None \<longrightarrow> fst (store_read l e (json_conn l e ord) i s) = Inr (nd i)"
    using assms(3) by (auto simp: dom_def)
  from json.timeline_law [OF conjI [OF assms(1,2)] rd] obtain xs where
    xs: "distinct (map fst xs)" "set xs = {(i, ts). \<exists>p. json_records l e s i = Some (ts, p)}"
      "sorted (map (\<lambda>x. - snd x) xs)" and
    pg: "\<And>limit offset. 0 \<le> limit \<Longrightarrow> 0 \<le> offset \<Longrightarrow> int64_range (offset + limit) \<Longrightarrow>
      timeline l e (json_conn l e ord) limit offset s =
        Some (Inr (map (\<lambda>x. timeline_entry_of (nd (fst x))) (take (nat limit) (drop (nat offset) xs)), int (length xs)), s)"
    by blast
  have "\<forall>x \<in> set xs. snd x = fst (the (json_records l e s (fst x)))" using xs(2) by auto
  then have "map (\<lambda>i. - fst (the (json_records l e s i))) (map fst xs) = map (\<lambda>x. - snd x) xs" by simp
  with xs(3) have "sorted (map (\<lambda>i. - fst (the (json_records l e s i))) (map fst xs))" by (simp only:)
  moreover have "set (map fst xs) = dom (json_records l e s)" using xs(2) by (force simp: dom_def)
  moreover have "map (\<lambda>x. timeline_entry_of (nd (fst x))) (take a (drop b xs))
      = map (\<lambda>i. timeline_entry_of (nd i)) (take a (drop b (map fst xs)))" for a b
    by (simp add: take_map drop_map)
  then have "limit < 0 \<or> offset < 0 \<or> \<not> int64_range (offset + limit) \<or>
      timeline l e (json_conn l e ord) limit offset s =
        Some (Inr (map (\<lambda>i. timeline_entry_of (nd i)) (take (nat limit) (drop (nat offset) (map fst xs))), int (length (map fst xs))), s)"
    for limit offset using pg [of limit offset] by (simp add: not_less) linarith
  ultimately show ?thesis using xs(1) by blast
qed

section \<open>Witnesses\<close>

definition sample_state :: json_state where
  "sample_state = \<lparr>js_fs = sample_fs [], js_cache = Map.empty\<rparr>"

definition sample_node :: memory_node where
  "sample_node = \<lparr>schema_version = 0, mn_id = node1, mn_captured_at = 7, description = ''Editing a file'', mn_tags = [''go''],
     mn_process_name = ''code'', mn_window_title = ''main.go'', mn_browser_url = [], embedding = [0],
     mn_engagement_score = 1, mn_view_count = 1\<rparr>"

lemma sample_state_wf: "json_wf sample_lib toy_encryptor sample_state"
  by (simp add: json_wf_def json_entries_def sample_state_def read_index_def index_safe_def)

lemma sample_node_safe: "node_safe sample_node"
proof -
  have "list_all valid_utf8 [''Editing a file'', ''code'', ''main.go'', [], ''go'']" by code_simp
  then show ?thesis
    by (simp add: node_safe_def sample_node_def int64_range_def node1_def f32_finite_def f32_exponent_def)
qed

lemma sample_records: "json_records sample_lib toy_encryptor sample_state = Map.empty"
  by (simp add: json_records_def sample_state_def fun_eq_iff)

definition all_cached :: "cache \<Rightarrow> (node_id \<times> float32 list) list" where
  "all_cached c = []"

theorem memory_roundtrip_witness:
  "\<exists>t. store_write sample_lib toy_encryptor (json_conn sample_lib toy_encryptor all_cached) (Inr toy_nonce) sample_node sample_state = (None, t)
     \<and> store_read sample_lib toy_encryptor (json_conn sample_lib toy_encryptor all_cached) node1 t
         = (Inr (sample_node\<lparr>schema_version := 1\<rparr>), t)"
proof -
  let ?c = "json_conn sample_lib toy_encryptor all_cached"
  obtain r t where w: "store_write sample_lib toy_encryptor ?c (Inr toy_nonce) sample_node sample_state = (r, t)"
    by (cases "store_write sample_lib toy_encryptor ?c (Inr toy_nonce) sample_node sample_state")
  obtain r2 u where d: "store_delete ?c (mn_id sample_node) t = (r2, u)" by (cases "store_delete ?c (mn_id sample_node) t")
  have "json_records sample_lib toy_encryptor sample_state (mn_id sample_node) = None" by (simp add: sample_records)
  from memory_roundtrip [OF sample_lib_ok sample_state_wf sample_node_safe this _ w d] w
  show ?thesis by (auto simp: toy_nonce_def sample_node_def)
qed

theorem delete_range_exact_witness:
  "\<exists>t. delete_range (json_conn sample_lib toy_encryptor all_cached) zero_time 100 sample_state = ((0, None), t)"
  using delete_range_exact [OF sample_lib_ok sample_state_wf, of zero_time 100 all_cached] by (auto simp: sample_records Let_def)

theorem timeline_pages_witness:
  "timeline sample_lib toy_encryptor (json_conn sample_lib toy_encryptor all_cached) 20 0 sample_state
     = Some (Inr ([], 0), sample_state)"
proof -
  have "\<forall>i \<in> dom (json_records sample_lib toy_encryptor sample_state).
      fst (store_read sample_lib toy_encryptor (json_conn sample_lib toy_encryptor all_cached) i sample_state) = Inr sample_node"
    by (simp add: sample_records)
  from timeline_pages [OF sample_lib_ok sample_state_wf this] obtain ids where
    "set ids = {}" and pg: "\<forall>limit offset. limit < 0 \<or> offset < 0 \<or> \<not> int64_range (offset + limit) \<or>
      timeline sample_lib toy_encryptor (json_conn sample_lib toy_encryptor all_cached) limit offset sample_state =
        Some (Inr (map (\<lambda>i. timeline_entry_of sample_node) (take (nat limit) (drop (nat offset) ids)), int (length ids)), sample_state)"
    by (auto simp: sample_records)
  then have "ids = []" by simp
  with spec [OF spec [OF pg, of 20], of 0] show ?thesis by (simp add: int64_range_def)
qed

end
