(* ===== verification/Retention.thy ===== *)
theory Retention
  imports Memory_Store
begin

text \<open>
  \<open>internal/storage/retention.go\<close>: the daily sweep, the wipe command and the overwriting deletion.
  The sweep runs on any connection of theory \<open>Memory_Store\<close>. The wipe works on the tree of files of
  the data directory; its system calls succeed or fail by a schedule, one entry for each, and an empty
  schedule means no more failures. Times are nanoseconds; the calendar is an argument.
\<close>

section \<open>The sweep\<close>

definition sweep :: "'s conn \<Rightarrow> int \<Rightarrow> 's \<Rightarrow> mem_error option \<times> 's" where
  "sweep c cutoff s =
     (case c_older c cutoff s of
        (Inl err, t) \<Rightarrow> (Some (ListDb err), t)
      | (Inr ids, t) \<Rightarrow>
          if ids = [] then (None, t)
          else (case delete_all c ids t of (failed, u) \<Rightarrow>
                  (if failed > 0 then Some (DeletionsFailed failed (length ids)) else None, u)))"

text \<open>\<open>two_am now\<close> is 2:00 local time on the day of \<open>now\<close>.\<close>

definition next_sweep_time :: "(int \<Rightarrow> int) \<Rightarrow> int \<Rightarrow> int" where
  "next_sweep_time two_am now =
     (let next = two_am now in if now > next then next + 24 * 3600 * 1000000000 else next)"

text \<open>\<open>RunScheduled\<close>: a sweep at the start and one at each later time; errors are only logged.\<close>

fun run_scheduled :: "'s conn \<Rightarrow> (int \<Rightarrow> int) \<Rightarrow> int list \<Rightarrow> 's \<Rightarrow> 's" where
  "run_scheduled c cutoff_at [] s = s"
| "run_scheduled c cutoff_at (now # ts) s = run_scheduled c cutoff_at ts (snd (sweep c (cutoff_at now) s))"

section \<open>Overwriting deletion\<close>

datatype file_tree = FileT bytes | DirT "(string \<times> file_tree) list"

type_synonym schedule = "bool list"

definition call_ok :: "schedule \<Rightarrow> bool \<times> schedule" where
  "call_ok xs = (case xs of [] \<Rightarrow> (True, []) | x # ys \<Rightarrow> (x, ys))"

definition overwrite :: "nat \<Rightarrow> bytes \<Rightarrow> bytes \<Rightarrow> bytes" where
  "overwrite pos b c = take pos c @ b @ drop (pos + length b) c"

text \<open>The inner loop of a pass: chunks of at most 4096 bytes until \<open>sz\<close> bytes are written.\<close>

function fill_pass :: "byte \<Rightarrow> nat \<Rightarrow> nat \<Rightarrow> bytes \<Rightarrow> schedule \<Rightarrow> bool \<times> bytes \<times> schedule" where
  "fill_pass b sz written c xs =
     (if written < sz then
        (let k = min (min 4096 sz) (sz - written) in
         case call_ok xs of
           (False, ys) \<Rightarrow> (False, c, ys)
         | (True, ys) \<Rightarrow> fill_pass b sz (written + k) (overwrite written (replicate k b) c) ys)
      else (True, c, xs))"
  by pat_completeness auto
termination by (relation "measure (\<lambda>(b, sz, written, c, xs). sz - written)") auto

declare fill_pass.simps [simp del]

text \<open>The random pass gives up silently; \<open>rnd pos k\<close> are the bytes read from \<open>/dev/urandom\<close>.\<close>

function random_pass :: "(nat \<Rightarrow> nat \<Rightarrow> bytes) \<Rightarrow> nat \<Rightarrow> nat \<Rightarrow> bytes \<Rightarrow> schedule \<Rightarrow> bytes \<times> schedule" where
  "random_pass rnd sz written c xs =
     (if written < sz then
        (let k = min 4096 (sz - written) in
         case call_ok xs of
           (False, ys) \<Rightarrow> (c, ys)
         | (True, ys) \<Rightarrow>
             (case call_ok ys of
                (False, zs) \<Rightarrow> (c, zs)
              | (True, zs) \<Rightarrow> random_pass rnd sz (written + k) (overwrite written (take k (rnd written k)) c) zs))
      else (c, xs))"
  by pat_completeness auto
termination by (relation "measure (\<lambda>(rnd, sz, written, c, xs). sz - written)") auto

declare random_pass.simps [simp del]

text \<open>
  A file after \<open>secureDeleteFile\<close>: whether it reports success, the file that is left, the rest of the
  schedule, and the contents after the passes that were completed.
\<close>

definition shred_file ::
  "(nat \<Rightarrow> nat \<Rightarrow> bytes) \<Rightarrow> bytes \<Rightarrow> schedule \<Rightarrow> bool \<times> file_tree option \<times> schedule \<times> bytes list" where
  "shred_file rnd c xs =
     (let sz = length c;
          remove = (\<lambda>c ys hist. case call_ok ys of
              (False, zs) \<Rightarrow> (False, Some (FileT c), zs, hist) | (True, zs) \<Rightarrow> (True, None, zs, hist))
      in if sz = 0 then remove c xs []
         else (case call_ok xs of
             (False, x1) \<Rightarrow> (False, Some (FileT c), x1, [])
           | (True, x1) \<Rightarrow>
         (case call_ok x1 of
             (False, x2) \<Rightarrow> (False, Some (FileT c), x2, [])
           | (True, x2) \<Rightarrow>
         (case fill_pass 0 sz 0 c x2 of
             (False, c1, x3) \<Rightarrow> (False, Some (FileT c1), x3, [])
           | (True, c1, x3) \<Rightarrow>
         (case call_ok x3 of
             (False, x4) \<Rightarrow> (False, Some (FileT c1), x4, [c1])
           | (True, x4) \<Rightarrow>
         (case fill_pass 255 sz 0 c1 x4 of
             (False, c2, x5) \<Rightarrow> (False, Some (FileT c2), x5, [c1])
           | (True, c2, x5) \<Rightarrow>
         (case call_ok x5 of
             (False, x6) \<Rightarrow> (False, Some (FileT c2), x6, [c1, c2])
           | (True, x6) \<Rightarrow>
         (case call_ok x6 of
             (False, x7) \<Rightarrow> remove c2 x7 [c1, c2]
           | (True, x7) \<Rightarrow>
         (case random_pass rnd sz 0 c2 x7 of (c3, x8) \<Rightarrow> remove c3 x8 [c1, c2, c3])))))))))"

fun secure_delete_file ::
    "(nat \<Rightarrow> nat \<Rightarrow> bytes) \<Rightarrow> file_tree \<Rightarrow> schedule \<Rightarrow> bool \<times> file_tree option \<times> schedule \<times> (bytes \<times> bytes list) list"
  and secure_delete_entries ::
    "(nat \<Rightarrow> nat \<Rightarrow> bytes) \<Rightarrow> (string \<times> file_tree) list \<Rightarrow> schedule
       \<Rightarrow> bool \<times> (string \<times> file_tree) list \<times> schedule \<times> (bytes \<times> bytes list) list" where
  "secure_delete_file rnd (FileT c) xs =
     (case call_ok xs of
        (False, ys) \<Rightarrow> (False, Some (FileT c), ys, [])
      | (True, ys) \<Rightarrow> (case shred_file rnd c ys of (ok, left, zs, hist) \<Rightarrow> (ok, left, zs, [(c, hist)])))"
| "secure_delete_file rnd (DirT es) xs =
     (case call_ok xs of
        (False, x1) \<Rightarrow> (False, Some (DirT es), x1, [])
      | (True, x1) \<Rightarrow>
          (case call_ok x1 of
             (False, x2) \<Rightarrow> (False, Some (DirT es), x2, [])
           | (True, x2) \<Rightarrow>
               (case secure_delete_entries rnd es x2 of
                  (False, left, x3, hist) \<Rightarrow> (False, Some (DirT left), x3, hist)
                | (True, left, x3, hist) \<Rightarrow>
                    (case call_ok x3 of
                       (False, x4) \<Rightarrow> (False, Some (DirT left), x4, hist)
                     | (True, x4) \<Rightarrow> (True, None, x4, hist)))))"
| "secure_delete_entries rnd [] xs = (True, [], xs, [])"
| "secure_delete_entries rnd ((name, t) # es) xs =
     (case secure_delete_file rnd t xs of
        (ok, left, ys, hist) \<Rightarrow>
          (let rest = (case left of None \<Rightarrow> [] | Some u \<Rightarrow> [(name, u)]) in
           if \<not> ok then (False, rest @ es, ys, hist)
           else (case secure_delete_entries rnd es ys of
                   (ok2, left2, zs, hist2) \<Rightarrow> (ok2, rest @ left2, zs, hist @ hist2))))"

section \<open>The wipe\<close>

text \<open>\<open>os.RemoveAll\<close>, whose error is ignored: when it fails the entry stays.\<close>

definition remove_all :: "string \<times> file_tree \<Rightarrow> schedule \<Rightarrow> (string \<times> file_tree) list \<times> schedule" where
  "remove_all e xs = (case call_ok xs of (True, ys) \<Rightarrow> ([], ys) | (False, ys) \<Rightarrow> ([e], ys))"

fun wipe_entries ::
  "(nat \<Rightarrow> nat \<Rightarrow> bytes) \<Rightarrow> bool \<Rightarrow> (string \<times> file_tree) list \<Rightarrow> schedule \<Rightarrow> (string \<times> file_tree) list \<times> schedule" where
  "wipe_entries rnd secure [] xs = ([], xs)"
| "wipe_entries rnd secure ((name, t) # es) xs =
     (case (if secure then
              (case secure_delete_file rnd t xs of
                 (True, _, ys, _) \<Rightarrow> ([], ys)
               | (False, left, ys, _) \<Rightarrow> (case left of None \<Rightarrow> ([], ys) | Some u \<Rightarrow> remove_all (name, u) ys))
            else remove_all (name, t) xs) of
        (rest, ys) \<Rightarrow> (case wipe_entries rnd secure es ys of (rest2, zs) \<Rightarrow> (rest @ rest2, zs)))"

datatype dir_read = DirMissing | DirError | DirEntries "(string \<times> file_tree) list"

datatype wipe_error = ReadDataDir | KeyDeletion key_error

text \<open>
  The steps of \<open>WipeAll\<close>: close the store, which zeroes the key bytes, empty the data directory, remove
  the consent record, delete the key from the keychain. \<open>keychain\<close> is the stored string.
\<close>

record wipe_state =
  ws_dir :: dir_read
  ws_memory :: memory
  ws_keychain :: "string option"

definition remove_entry :: "string \<Rightarrow> (string \<times> file_tree) list \<Rightarrow> schedule \<Rightarrow> (string \<times> file_tree) list" where
  "remove_entry name es xs = (if fst (call_ok xs) then filter (\<lambda>e. fst e \<noteq> name) es else es)"

definition wipe_all ::
  "(nat \<Rightarrow> nat \<Rightarrow> bytes) \<Rightarrow> bool \<Rightarrow> key_manager \<Rightarrow> keyring_answer \<Rightarrow> schedule \<Rightarrow> wipe_state \<Rightarrow> wipe_error option \<times> wipe_state" where
  "wipe_all rnd secure km answer xs s =
     (let s1 = s\<lparr>ws_memory := zero_bytes (km_ref km) (ws_memory s)\<rparr> in
      case ws_dir s1 of
        DirError \<Rightarrow> (Some ReadDataDir, s1)
      | d \<Rightarrow>
          (let es = (case d of DirEntries es \<Rightarrow> es | _ \<Rightarrow> []) in
           case wipe_entries rnd secure es xs of (left, ys) \<Rightarrow>
             (let left2 = remove_entry ''consent.json'' left ys;
                  s2 = s1\<lparr>ws_dir := (case d of DirEntries _ \<Rightarrow> DirEntries left2 | _ \<Rightarrow> d)\<rparr>
              in case delete_key answer km (ws_memory s2) of
                   (Some err, mem) \<Rightarrow> (Some (KeyDeletion err), s2\<lparr>ws_memory := mem\<rparr>)
                 | (None, mem) \<Rightarrow> (None, s2\<lparr>ws_memory := mem, ws_keychain := None\<rparr>))))"

section \<open>Lemmas\<close>

lemma overwrite_prefix:
  "take pos c = replicate pos b \<Longrightarrow> pos + k \<le> length c \<Longrightarrow>
     take (pos + k) (overwrite pos (replicate k b) c) = replicate (pos + k) b \<and> length (overwrite pos (replicate k b) c) = length c"
  by (simp add: overwrite_def replicate_add)

text \<open>A pass that succeeds leaves nothing of the old content, and never changes the length.\<close>

lemma fill_pass_ok:
  "take written c = replicate written b \<Longrightarrow> written \<le> length c \<Longrightarrow> fill_pass b (length c) written c xs = (ok, d, ys) \<Longrightarrow>
     length d = length c \<and> (ok \<longrightarrow> d = replicate (length c) b)"
proof (induction b "length c" written c xs rule: fill_pass.induct)
  case (1 b written c xs)
  show ?case
  proof (cases "written < length c")
    case True
    define k where "k = min (min 4096 (length c)) (length c - written)"
    have k: "written + k \<le> length c" "0 < k" using True by (auto simp: k_def)
    note ow = overwrite_prefix [OF 1(2) k(1)]
    obtain r zs where r: "call_ok xs = (r, zs)" by (cases "call_ok xs")
    show ?thesis
    proof (cases r)
      case False
      then show ?thesis using 1(4) True r by (auto simp: fill_pass.simps [of b "length c" written] k_def Let_def)
    next
      case r': True
      from 1(4) True r r' have "fill_pass b (length c) (written + k) (overwrite written (replicate k b) c) zs = (ok, d, ys)"
        by (simp add: fill_pass.simps [of b "length c" written] k_def Let_def)
      moreover have "r = True" using r' by simp
      ultimately show ?thesis using 1(1) [OF True k_def r [symmetric]] ow k by simp
    qed
  next
    case False
    then have "fill_pass b (length c) written c xs = (True, c, xs)" by (simp add: fill_pass.simps)
    then show ?thesis using 1(2-4) False by simp
  qed
qed

lemma shred_ok:
  assumes "shred_file rnd c xs = (True, left, ys, hist)"
  shows "left = None \<and> (c = [] \<or> prefix [replicate (length c) 0, replicate (length c) 255] hist)"
proof (cases "c = []")
  case True
  then show ?thesis using assms by (auto simp: shred_file_def Let_def split: prod.splits bool.splits)
next
  case False
  have p2: "d = replicate (length c) 255" if "length c1 = length c" "fill_pass 255 (length c) 0 c1 x = (True, d, y)" for c1 x d y
    using fill_pass_ok [of 0 c1 255 x True d y] that by simp
  have p1: "d = replicate (length c) 0" if "fill_pass 0 (length c) 0 c x = (True, d, y)" for x d y
    using fill_pass_ok [of 0 c 0 x True d y] that by simp
  show ?thesis using assms False
    by (auto simp: shred_file_def Let_def split: prod.splits bool.splits dest!: p1 p2 [rotated])
qed

fun tree_files :: "file_tree \<Rightarrow> bytes list" and entry_files :: "(string \<times> file_tree) list \<Rightarrow> bytes list" where
  "tree_files (FileT c) = [c]"
| "tree_files (DirT es) = entry_files es"
| "entry_files [] = []"
| "entry_files (x # es) = tree_files (snd x) @ entry_files es"

definition overwritten :: "bytes \<times> bytes list \<Rightarrow> bool" where
  "overwritten x \<longleftrightarrow> fst x = [] \<or> prefix [replicate (length (fst x)) 0, replicate (length (fst x)) 255] (snd x)"

lemma secure_delete_ok:
  "secure_delete_file rnd t xs = (True, left, ys, hist) \<Longrightarrow>
     left = None \<and> map fst hist = tree_files t \<and> list_all overwritten hist"
  "secure_delete_entries rnd es xs = (True, left_es, ys, hist) \<Longrightarrow>
     left_es = [] \<and> map fst hist = entry_files es \<and> list_all overwritten hist"
proof (induction rnd t xs and rnd es xs arbitrary: left ys hist and left_es ys hist
    rule: secure_delete_file_secure_delete_entries.induct)
  case (1 rnd c xs)
  then show ?case using shred_ok by (fastforce simp: overwritten_def split: prod.splits bool.splits)
next
  case (2 rnd es xs)
  from 2(2) obtain x1 x2 left3 x3 where
    c1: "call_ok xs = (True, x1)" and c2: "call_ok x1 = (True, x2)" and
    d: "secure_delete_entries rnd es x2 = (True, left3, x3, hist)" and l: "left = None"
    by (auto split: prod.splits bool.splits)
  from 2(1) [OF c1 [symmetric] _ c2 [symmetric] _ d] l show ?case by simp
next
  case (3 rnd xs)
  then show ?case by simp
next
  case (4 rnd name t es xs)
  from 4(3) obtain left1 zs h1 left2 us h2 where
    d: "secure_delete_file rnd t xs = (True, left1, zs, h1)" and
    e: "secure_delete_entries rnd es zs = (True, left2, us, h2)" and
    r: "left_es = (case left1 of None \<Rightarrow> [] | Some u \<Rightarrow> [(name, u)]) @ left2" "hist = h1 @ h2"
    by (auto split: prod.splits bool.splits if_splits simp: Let_def)
  from 4(1) [OF d] have a: "left1 = None \<and> map fst h1 = tree_files t \<and> list_all overwritten h1" .
  have "left2 = [] \<and> map fst h2 = entry_files es \<and> list_all overwritten h2"
    using 4(2) [OF d [symmetric] refl refl refl _ e] by simp
  with a r show ?case by simp
qed

text \<open>When no system call fails, everything is deleted.\<close>

lemma call_ok_Nil [simp]: "call_ok [] = (True, [])"
  by (simp add: call_ok_def)

lemma fill_pass_quiet: "\<exists>d. fill_pass b n written c [] = (True, d, [])"
proof (induction "n - written" arbitrary: written c rule: less_induct)
  case less
  show ?case
  proof (cases "written < n")
    case True
    then have "n - (written + min (min 4096 n) (n - written)) < n - written" by simp
    from less [OF this] True show ?thesis by (simp add: fill_pass.simps [of b n written] Let_def)
  qed (simp add: fill_pass.simps)
qed

lemma random_pass_quiet: "\<exists>d. random_pass rnd n written c [] = (d, [])"
proof (induction "n - written" arbitrary: written c rule: less_induct)
  case less
  show ?case
  proof (cases "written < n")
    case True
    then have "n - (written + min 4096 (n - written)) < n - written" by simp
    from less [OF this] True show ?thesis by (simp add: random_pass.simps [of rnd n written] Let_def)
  qed (simp add: random_pass.simps)
qed

lemma shred_quiet: "\<exists>hist. shred_file rnd c [] = (True, None, [], hist)"
proof -
  obtain c1 c2 c3 where "fill_pass 0 (length c) 0 c [] = (True, c1, [])"
    "fill_pass 255 (length c) 0 c1 [] = (True, c2, [])" "random_pass rnd (length c) 0 c2 [] = (c3, [])"
    using fill_pass_quiet random_pass_quiet by metis
  then show ?thesis by (simp add: shred_file_def Let_def)
qed

lemma secure_delete_quiet:
  "\<exists>hist. secure_delete_file rnd t [] = (True, None, [], hist)"
  "\<exists>hist. secure_delete_entries rnd es [] = (True, [], [], hist)"
proof (induction t and es rule: tree_files_entry_files.induct)
  case (1 c)
  then show ?case using shred_quiet [of rnd c] by auto
next
  case (4 x es)
  then show ?case by (cases x) auto
qed auto

lemma wipe_entries_quiet: "wipe_entries rnd secure es [] = ([], [])"
proof (induction es)
  case (Cons x es)
  obtain name t where x: "x = (name, t)" by (cases x)
  obtain hist where "secure_delete_file rnd t [] = (True, None, [], hist)" using secure_delete_quiet(1) by blast
  with Cons x show ?case by (cases secure) (simp_all add: remove_all_def)
qed simp

section \<open>Properties\<close>

text \<open>
  C30. Retention: after any number of sweeps, whatever their times, exactly the records at or after the
  latest of the cutoffs remain, with timestamp and payload untouched.
\<close>

theorem retention_exact:
  assumes "lib_ok l" and "json_wf l e s"
  shows "json_wf l e (run_scheduled (json_conn l e ord) cutoff_at runs s)
     \<and> json_records l e (run_scheduled (json_conn l e ord) cutoff_at runs s)
       = json_records l e s |` {i. \<exists>ts p. json_records l e s i = Some (ts, p) \<and> list_all (\<lambda>now. cutoff_at now \<le> ts) runs}"
  using assms(2)
proof (induction runs arbitrary: s)
  case Nil
  have "x = None" if "\<forall>ts p. x \<noteq> Some (ts, p)" for x :: "(int \<times> bytes) option" using that by (cases x) auto
  then show ?case using Nil by (auto simp: restrict_map_def fun_eq_iff)
next
  case (Cons now runs)
  have wf: "lib_ok l \<and> json_wf l e s" using assms(1) Cons.prems by simp
  from json.older_law [OF wf, of ord "cutoff_at now"] obtain ids where
    ids: "c_older (json_conn l e ord) (cutoff_at now) s = (Inr ids, s)"
      "set ids = {i. \<exists>ts p. json_records l e s i = Some (ts, p) \<and> ts < cutoff_at now}" by blast
  have "\<forall>i \<in> set ids. length i = 16" using json.key_law [OF wf] ids(2) by blast
  from json.delete_all_law [OF wf this, of ord] obtain t where
    t: "delete_all (json_conn l e ord) ids s = (0, t)" "json_wf l e t" "json_records l e t = json_records l e s |` (- set ids)" by blast
  then have "snd (sweep (json_conn l e ord) (cutoff_at now) s) = t" using ids(1) by (auto simp: sweep_def)
  moreover have "json_records l e t |` {i. \<exists>ts p. json_records l e t i = Some (ts, p) \<and> list_all (\<lambda>now. cutoff_at now \<le> ts) runs}
      = json_records l e s |` {i. \<exists>ts p. json_records l e s i = Some (ts, p) \<and> list_all (\<lambda>now. cutoff_at now \<le> ts) (now # runs)}"
    using ids(2) by (auto simp: t(3) restrict_map_def fun_eq_iff)
  ultimately show ?case using Cons.IH [OF t(2)] by simp
qed

theorem retention_exact_witness:
  "json_records sample_lib toy_encryptor (run_scheduled (json_conn sample_lib toy_encryptor all_cached) (\<lambda>t. t - 5) [10, 20] sample_state)
     = Map.empty"
  using retention_exact [OF sample_lib_ok sample_state_wf, of all_cached "\<lambda>t. t - 5" "[10, 20]"] by (simp add: sample_records)

text \<open>
  C31. Overwriting deletion keeps its promise: when it reports success, the file or the whole directory is
  gone, and every non-empty file in it had every byte overwritten with zeros and then with ones.
\<close>

theorem secure_delete_overwrites:
  assumes "secure_delete_file rnd t xs = (True, left, ys, hist)"
  shows "left = None \<and> map fst hist = tree_files t \<and> list_all overwritten hist"
  by (rule secure_delete_ok(1) [OF assms])

theorem secure_delete_overwrites_witness:
  "\<exists>hist. secure_delete_file (\<lambda>_ _. []) (DirT [(''a'', FileT [7, 8]), (''b'', FileT [])]) [] = (True, None, [], hist)
     \<and> map fst hist = [[7, 8], []]"
proof -
  obtain hist where h: "secure_delete_file (\<lambda>_ _. []) (DirT [(''a'', FileT [7, 8]), (''b'', FileT [])]) [] = (True, None, [], hist)"
    using secure_delete_quiet(1) by blast
  from secure_delete_overwrites [OF h] h show ?thesis by simp
qed

text \<open>
  C32. The wipe: whatever happens the key bytes in memory are zero afterwards; success means that the key is
  gone from the keychain, and, when no deletion failed, that the data directory is empty.
\<close>

theorem wipe_destroys_key:
  assumes "wipe_all rnd secure km answer xs s = (r, t)"
  shows "km_key km (ws_memory t) = replicate (length (km_key km (ws_memory s))) 0
     \<and> (r \<noteq> None \<or> ws_keychain t = None \<and> ws_dir t \<noteq> DirError)
     \<and> (r \<noteq> None \<or> xs \<noteq> [] \<or> ws_dir t \<in> {DirMissing, DirEntries []})"
  using assms wipe_entries_quiet [of rnd secure]
  by (auto simp: wipe_all_def Let_def km_key_def zero_bytes_def delete_key_def remove_entry_def
      split: dir_read.splits prod.splits keyring_answer.splits option.splits)

theorem wipe_destroys_key_witness:
  "\<exists>t. wipe_all (\<lambda>_ _. []) False \<lparr>km_ref = 0\<rparr> (KeyFound ''aa'') []
         \<lparr>ws_dir = DirEntries [(''memories'', DirT [])], ws_memory = (\<lambda>_. [1]), ws_keychain = Some ''aa''\<rparr> = (None, t)
     \<and> km_key \<lparr>km_ref = 0\<rparr> (ws_memory t) = [0] \<and> ws_keychain t = None"
proof -
  let ?s = "\<lparr>ws_dir = DirEntries [(''memories'', DirT [])], ws_memory = (\<lambda>_. [1]), ws_keychain = Some ''aa''\<rparr>"
  obtain r t where w: "wipe_all (\<lambda>_ _. []) False \<lparr>km_ref = 0\<rparr> (KeyFound ''aa'') [] ?s = (r, t)"
    by (cases "wipe_all (\<lambda>_ _. []) False \<lparr>km_ref = 0\<rparr> (KeyFound ''aa'') [] ?s")
  have "r = None" using w by (simp add: wipe_all_def Let_def delete_key_def remove_all_def)
  with wipe_destroys_key [OF w] w show ?thesis by (auto simp: km_key_def)
qed

text \<open>
  A wipe can report success and leave data files behind: the results of \<open>os.RemoveAll\<close> are not looked at.
\<close>

theorem wipe_success_leaves_files:
  "\<exists>t. wipe_all (\<lambda>_ _. []) False \<lparr>km_ref = 0\<rparr> (KeyFound ''aa'') [False]
         \<lparr>ws_dir = DirEntries [(''memories'', DirT [(''a.enc'', FileT [1])])], ws_memory = (\<lambda>_. [1]), ws_keychain = Some ''aa''\<rparr> = (None, t)
     \<and> ws_dir t = DirEntries [(''memories'', DirT [(''a.enc'', FileT [1])])]"
  by (simp add: wipe_all_def Let_def delete_key_def remove_all_def call_ok_def remove_entry_def)

end
