(* ===== verification/Http_Client.thy ===== *)
theory Http_Client
  imports Go_Url
begin

text \<open>
  The part of package \<open>net/http\<close> the Ollama client relies on: \<open>http.NewRequestWithContext\<close>, which
  fails exactly when the URL does not parse, and \<open>Client.Do\<close> with the default redirect policy.
  The server, or whatever process answers on the port, is the argument \<open>net\<close>: its answer to the
  request that is sent when \<open>k\<close> requests have been sent before. Every request that leaves the
  process is appended to the list of requests sent, which is the state the operations thread.
  The resolution of a \<open>Location\<close> header against the URL of the request is the argument \<open>resolve\<close>.
  The type variable is the type of request bodies.
\<close>

section \<open>Requests and answers\<close>

record 'b http_request =
  rq_method :: string
  rq_url :: string
  rq_body :: "'b option"

record http_response =
  rs_status :: int
  rs_location :: string
  rs_body :: bytes

type_synonym 'b net = "nat \<Rightarrow> 'b http_request \<Rightarrow> string + http_response"
type_synonym resolver = "string \<Rightarrow> string \<Rightarrow> string option"

definition new_request :: "string \<Rightarrow> string \<Rightarrow> 'b option \<Rightarrow> 'b http_request option" where
  "new_request meth url body =
     (case parse_url url of None \<Rightarrow> None | Some _ \<Rightarrow> Some \<lparr>rq_method = meth, rq_url = url, rq_body = body\<rparr>)"

section \<open>Redirects\<close>

text \<open>
  The method of the next request and whether the body is sent again: 301, 302 and 303 turn every
  method but GET and HEAD into GET without a body, 307 and 308 repeat the request as it was (the
  bodies here are \<open>bytes.Reader\<close>s, which the client can rewind).
\<close>

definition redirect_behavior :: "int \<Rightarrow> string \<Rightarrow> (string \<times> bool) option" where
  "redirect_behavior status meth =
     (if status \<in> {301, 302, 303}
      then Some (if meth \<noteq> ''GET'' \<and> meth \<noteq> ''HEAD'' then ''GET'' else meth, False)
      else if status \<in> {307, 308} then Some (meth, True)
      else None)"

definition next_request :: "resolver \<Rightarrow> 'b http_request \<Rightarrow> http_response \<Rightarrow> (string + 'b http_request) option" where
  "next_request resolve rq rs =
     (case redirect_behavior (rs_status rs) (rq_method rq) of
        None \<Rightarrow> None
      | Some (meth, keep) \<Rightarrow>
          if rs_location rs = [] then None
          else (case resolve (rq_url rq) (rs_location rs) of
                  None \<Rightarrow> Some (Inl ''failed to parse Location header'')
                | Some url \<Rightarrow>
                    Some (Inr \<lparr>rq_method = meth, rq_url = url, rq_body = (if keep then rq_body rq else None)\<rparr>)))"

fun follow ::
  "'b net \<Rightarrow> resolver \<Rightarrow> nat \<Rightarrow> 'b http_request \<Rightarrow> 'b http_request list
     \<Rightarrow> (string + http_response) \<times> 'b http_request list" where
  "follow net resolve n rq sent =
     (case net (length sent) rq of
        Inl e \<Rightarrow> (Inl e, sent @ [rq])
      | Inr rs \<Rightarrow>
          (case next_request resolve rq rs of
             None \<Rightarrow> (Inr rs, sent @ [rq])
           | Some (Inl e) \<Rightarrow> (Inl e, sent @ [rq])
           | Some (Inr rq') \<Rightarrow>
               (case n of
                  0 \<Rightarrow> (Inl ''stopped after 10 redirects'', sent @ [rq])
                | Suc m \<Rightarrow> follow net resolve m rq' (sent @ [rq]))))"

declare follow.simps [simp del]

text \<open>The tenth redirect is refused: at most ten requests are sent.\<close>

definition http_do ::
  "'b net \<Rightarrow> resolver \<Rightarrow> 'b http_request \<Rightarrow> 'b http_request list
     \<Rightarrow> (string + http_response) \<times> 'b http_request list" where
  "http_do net resolve rq sent = follow net resolve 9 rq sent"

section \<open>Lemmas\<close>

definition no_redirects :: "'b net \<Rightarrow> bool" where
  "no_redirects net \<longleftrightarrow> (\<forall>k rq rs. net k rq = Inr rs \<longrightarrow> rs_status rs \<notin> {301, 302, 303, 307, 308})"

lemma follow_sends:
  "\<exists>more. snd (follow net resolve n rq sent) = sent @ rq # more \<and> length more \<le> n"
proof (induction n arbitrary: rq sent)
  case 0
  show ?case
    by (subst follow.simps) (auto split: sum.split option.split)
next
  case (Suc n)
  show ?case
  proof (cases "\<exists>rs rq'. net (length sent) rq = Inr rs \<and> next_request resolve rq rs = Some (Inr rq')")
    case True
    then obtain rs rq' where r: "net (length sent) rq = Inr rs" "next_request resolve rq rs = Some (Inr rq')"
      by blast
    obtain more where "snd (follow net resolve n rq' (sent @ [rq])) = (sent @ [rq]) @ rq' # more" "length more \<le> n"
      using Suc by blast
    with r show ?thesis by (subst follow.simps) simp
  next
    case False
    then show ?thesis by (subst follow.simps) (auto split: sum.split option.split)
  qed
qed

lemma http_do_sends:
  obtains more where "snd (http_do net resolve rq sent) = sent @ rq # more" "length more \<le> 9"
  using follow_sends [of net resolve 9 rq sent] by (auto simp: http_do_def)

lemma http_do_no_redirects:
  assumes "no_redirects net"
  shows "http_do net resolve rq sent = (net (length sent) rq, sent @ [rq])"
proof -
  have "next_request resolve rq rs = None" if "net (length sent) rq = Inr rs" for rs
    using assms that by (simp add: no_redirects_def next_request_def redirect_behavior_def)
  then show ?thesis unfolding http_do_def by (subst follow.simps) (simp split: sum.split)
qed

lemma new_request_Some:
  "new_request meth url body = Some rq \<longleftrightarrow>
     parse_url url \<noteq> None \<and> rq = \<lparr>rq_method = meth, rq_url = url, rq_body = body\<rparr>"
  by (auto simp: new_request_def split: option.splits)

end
