(* ===== verification/Inference_Loop.thy ===== *)
theory Inference_Loop
  imports Ollama Engagement Governor Memory_Store
begin

text \<open>
  The inference goroutine of \<open>cmd/digitalghost/main.go\<close>: one turn of \<open>runInferenceLoop\<close> takes a frame
  from the queue through the cheap gates, the governor, the vision model, the engagement and
  coherence tests into the store. The components are those of the other theories; what the turn
  cannot decide (the frame, the events the governor sees, the answers of the server, random bytes)
  is in the record \<open>turn\<close> and in the dependencies.
\<close>

section \<open>Dependencies and state\<close>

record 's deps =
  d_um :: "string \<Rightarrow> string"
  d_math :: go_math
  d_jpeg :: "image \<Rightarrow> string + bytes"
  d_dec :: decoders
  d_net :: "ollama_body net"
  d_resolve :: resolver
  d_lib :: lib
  d_enc :: encryptor
  d_conn :: "'s conn"
  d_cfg :: config

record 's loop_state =
  ls_gov :: governor
  ls_sent :: "ollama_body http_request list"
  ls_store :: 's
  consecutive_fails :: int

record 'h turn =
  tn_frame :: "'h frame option"
  tn_gov :: "gov_event list"
  tn_interrupted :: "nat \<Rightarrow> bool"
  tn_latency :: "nat \<Rightarrow> int"
  tn_stopped :: bool
  tn_uuid :: "bytes option"
  tn_seal :: "string + bytes"

datatype exit = Continues | ContinuesAfter int | Returns | Panics

section \<open>The steps of a turn\<close>

text \<open>
  \<open>Acquire\<close> over the events the governor goes through meanwhile: \<open>True\<close> when a token was taken,
  \<open>False\<close> when the context ended. \<open>None\<close> when the events are no complete call.
\<close>

definition gov_acquire :: "gov_event list \<Rightarrow> governor \<Rightarrow> (bool \<times> governor) option" where
  "gov_acquire evs g =
     (case gov_run (EvCall # evs) (start_gov g) of
        None \<Rightarrow> None
      | Some s \<Rightarrow> if acq s = AcqDone then Some (True, gov s)
                  else if acq s = AcqErr then Some (False, gov s) else None)"

definition pre_class :: "(string \<Rightarrow> string) \<Rightarrow> 'h frame \<Rightarrow> content_class" where
  "pre_class um f = classify um \<lparr>ci_process_name = cw_process_name (window_ctx f),
     ci_window_title = cw_window_title (window_ctx f), ci_browser_url = cw_browser_url (window_ctx f)\<rparr>"

definition skipped :: "'s deps \<Rightarrow> 'h frame \<Rightarrow> bool" where
  "skipped d f \<longleftrightarrow>
     f64_less (Fin (frame_dwell_seconds f)) (min_dwell_seconds (cfg_semantic_filter (d_cfg d)))
     \<or> pre_class (d_um d) f = ClassEntertainment \<or> pre_class (d_um d) f = ClassSystemUI"

text \<open>
  \<open>time.Duration(1 << consecutiveFails) * time.Second\<close>, capped. Both the shift and the product wrap
  around at 64 bits; the comparison is signed.
\<close>

definition backoff :: "int \<Rightarrow> int" where
  "backoff fails =
     (let b = wrap64 (wrap64 (2 ^ nat fails) * 1000000000)
      in if b > 60000000000 then 60000000000 else b)"

definition signals_of :: "(string \<Rightarrow> string) \<Rightarrow> 'h frame \<Rightarrow> engagement_signals" where
  "signals_of um f = \<lparr>dwell_seconds = frame_dwell_seconds f, typed_within_seconds = seconds_since_input f,
     scrolled_within_seconds = 0, clicked_within_seconds = 0, es_content_class = pre_class um f,
     es_view_count = 1, es_captured_at = captured_at f\<rparr>"

fun str_join :: "string \<Rightarrow> string list \<Rightarrow> string" where
  "str_join sep [] = []"
| "str_join sep [s] = s"
| "str_join sep (s # ss) = s @ sep @ str_join sep ss"

definition embed_text :: "inference_result \<Rightarrow> capture_context \<Rightarrow> string" where
  "embed_text r w =
     ir_description r
     @ (if cw_process_name w \<noteq> [] then nl @ ''App: '' @ cw_process_name w else [])
     @ (if cw_window_title w \<noteq> [] then nl @ ''Window: '' @ cw_window_title w else [])
     @ (if cw_browser_url w \<noteq> [] then nl @ ''URL: '' @ cw_browser_url w else [])
     @ (if ir_tags r \<noteq> [] then nl @ ''Tags: '' @ str_join '', '' (ir_tags r) else [])"

text \<open>The coherence test fails closed: without an embedding the node counts as isolated.\<close>

definition coherent :: "'s deps \<Rightarrow> ollama_error + float32 list \<Rightarrow> 's \<Rightarrow> bool" where
  "coherent d emb st =
     (case emb of
        Inl _ \<Rightarrow> False
      | Inr v \<Rightarrow>
          is_coherent (fst (coherence_check
            (\<lambda>q k. case c_nearest (d_conn d) q k st of None \<Rightarrow> Inl ''panic'' | Some ns \<Rightarrow> Inr ns)
            (new_checker \<lparr>threshold = graph_coherence_threshold (cfg_semantic_filter (d_cfg d)), coh_k = 5\<rparr>) v)))"

definition search_panics :: "'s deps \<Rightarrow> ollama_error + float32 list \<Rightarrow> 's \<Rightarrow> bool" where
  "search_panics d emb st =
     (case emb of Inl _ \<Rightarrow> False | Inr v \<Rightarrow> v \<noteq> [] \<and> c_nearest (d_conn d) v 5 st = None)"

definition set_uuid_bits :: "bytes \<Rightarrow> bytes" where
  "set_uuid_bits bs =
     (let b = bs[6 := or (and (bs ! 6) 0x0F) 0x40] in b[8 := or (and (b ! 8) 0x3F) 0x80])"

definition node_of :: "'h frame \<Rightarrow> inference_result \<Rightarrow> float32 list \<Rightarrow> real \<Rightarrow> bytes \<Rightarrow> memory_node" where
  "node_of f r emb score rnd =
     \<lparr>schema_version = 0, mn_id = set_uuid_bits rnd, mn_captured_at = captured_at f,
      description = ir_description r, mn_tags = ir_tags r,
      mn_process_name = cw_process_name (window_ctx f), mn_window_title = cw_window_title (window_ctx f),
      mn_browser_url = cw_browser_url (window_ctx f), embedding = emb,
      mn_engagement_score = score, mn_view_count = 1\<rparr>"

text \<open>From the score of an inferred frame to the write; the node handed to \<open>Store.Write\<close> is returned.\<close>

definition record_memory ::
  "'s deps \<Rightarrow> 'h turn \<Rightarrow> 'h frame \<Rightarrow> inference_result \<Rightarrow> 's loop_state \<Rightarrow> exit \<times> 's loop_state \<times> memory_node option" where
  "record_memory d t f r s =
     (let sf = cfg_semantic_filter (d_cfg d); score = engagement_score (d_math d) (signals_of (d_um d) f) in
      if f64_less (Fin score) (min_engagement_score sf) then (Continues, s, None)
      else
        (case embed (d_dec d) (d_net d) (d_resolve d) (new_client (cfg_inference (d_cfg d)))
                    (embed_text r (window_ctx f)) (ls_sent s) of
           (emb, sent) \<Rightarrow>
             (let s1 = s\<lparr>ls_sent := sent\<rparr> in
              if search_panics d emb (ls_store s1) then (Panics, s1, None)
              else
                (let required = (if coherent d emb (ls_store s1) then min_engagement_score sf
                                 else isolated_node_score sf) in
                 if f64_less (Fin score) required then (Continues, s1, None)
                 else
                   (case tn_uuid t of
                      None \<Rightarrow> (Continues, s1, None)
                    | Some rnd \<Rightarrow>
                        (let node = node_of f r (case emb of Inl _ \<Rightarrow> [] | Inr v \<Rightarrow> v) score rnd in
                         (Continues,
                          s1\<lparr>ls_store := snd (store_write (d_lib d) (d_enc d) (d_conn d) (tn_seal t) node (ls_store s1))\<rparr>,
                          Some node)))))))"

definition recovered :: "'s loop_state \<Rightarrow> 's loop_state" where
  "recovered s =
     (if consecutive_fails s > 0 then s\<lparr>ls_gov := drain_bucket (ls_gov s), consecutive_fails := 0\<rparr> else s)"

definition inference_turn ::
  "'s deps \<Rightarrow> 'h turn \<Rightarrow> 's loop_state \<Rightarrow> (exit \<times> 's loop_state \<times> memory_node option) option" where
  "inference_turn d t s =
     (case tn_frame t of
        None \<Rightarrow> Some (Returns, s, None)
      | Some f \<Rightarrow>
          if skipped d f then Some (Continues, s, None)
          else
            (case gov_acquire (tn_gov t) (ls_gov s) of
               None \<Rightarrow> None
             | Some (False, g) \<Rightarrow> Some (Returns, s\<lparr>ls_gov := g\<rparr>, None)
             | Some (True, g) \<Rightarrow>
                 (case infer (d_um d) (d_jpeg d) (d_dec d) (d_net d) (d_resolve d) (tn_interrupted t) (tn_latency t)
                             (new_client (cfg_inference (d_cfg d))) f (ls_sent s) of
                    (None, sent) \<Rightarrow> Some (Panics, s\<lparr>ls_gov := g, ls_sent := sent\<rparr>, None)
                  | (Some (Inl e), sent) \<Rightarrow>
                      (let k = wrap64 (consecutive_fails s + 1)
                       in Some (if tn_stopped t then Returns else ContinuesAfter (backoff k),
                                s\<lparr>ls_gov := g, ls_sent := sent, consecutive_fails := k\<rparr>, None))
                  | (Some (Inr r), sent) \<Rightarrow>
                      Some (record_memory d t f r (recovered (s\<lparr>ls_gov := g, ls_sent := sent\<rparr>))))))"

text \<open>The loop over the turns it is given, with the nodes it hands to the store.\<close>

fun run_inference_loop ::
  "'s deps \<Rightarrow> 'h turn list \<Rightarrow> 's loop_state \<Rightarrow> (exit \<times> 's loop_state \<times> memory_node list) option" where
  "run_inference_loop d [] s = Some (Continues, s, [])"
| "run_inference_loop d (t # ts) s =
     (case inference_turn d t s of
        None \<Rightarrow> None
      | Some (x, s', n) \<Rightarrow>
          (let ns = (case n of None \<Rightarrow> [] | Some node \<Rightarrow> [node]) in
           if x = Returns \<or> x = Panics then Some (x, s', ns)
           else (case run_inference_loop d ts s' of
                   None \<Rightarrow> None
                 | Some (y, u, ms) \<Rightarrow> Some (y, u, ns @ ms))))"

section \<open>Lemmas\<close>

lemma embed_nonempty:
  "embed dec net resolve c txt sent = (Inr v, sent') \<Longrightarrow> v \<noteq> []"
  by (auto simp: embed_def call_api_def split: option.splits sum.splits prod.splits if_splits)

text \<open>What the loop lets into the store.\<close>

definition qualifies :: "'s deps \<Rightarrow> 'h frame \<Rightarrow> memory_node \<Rightarrow> bool" where
  "qualifies d f node \<longleftrightarrow>
     \<not> f64_less (Fin (frame_dwell_seconds f)) (min_dwell_seconds (cfg_semantic_filter (d_cfg d)))
     \<and> pre_class (d_um d) f \<notin> {ClassEntertainment, ClassSystemUI}
     \<and> mn_engagement_score node = engagement_score (d_math d) (signals_of (d_um d) f)
     \<and> \<not> f64_less (Fin (mn_engagement_score node)) (min_engagement_score (cfg_semantic_filter (d_cfg d)))
     \<and> (embedding node = [] \<longrightarrow>
          \<not> f64_less (Fin (mn_engagement_score node)) (isolated_node_score (cfg_semantic_filter (d_cfg d))))
     \<and> (\<forall>p\<in>set injection_patterns. \<not> contains (to_lower (d_um d) (description node)) p)
     \<and> mn_process_name node = cw_process_name (window_ctx f) \<and> mn_window_title node = cw_window_title (window_ctx f)
     \<and> mn_browser_url node = cw_browser_url (window_ctx f) \<and> mn_captured_at node = captured_at f"

lemma record_memory_stores:
  assumes "record_memory d t f r s = (x, s', Some node)"
  obtains emb rnd where "node = node_of f r emb (engagement_score (d_math d) (signals_of (d_um d) f)) rnd"
    "tn_uuid t = Some rnd"
    "\<not> f64_less (Fin (engagement_score (d_math d) (signals_of (d_um d) f))) (min_engagement_score (cfg_semantic_filter (d_cfg d)))"
    "emb = [] \<Longrightarrow> \<not> f64_less (Fin (engagement_score (d_math d) (signals_of (d_um d) f))) (isolated_node_score (cfg_semantic_filter (d_cfg d)))"
    "ls_store s' = snd (store_write (d_lib d) (d_enc d) (d_conn d) (tn_seal t) node (ls_store s))" "x = Continues"
proof -
  obtain e sent where e: "embed (d_dec d) (d_net d) (d_resolve d) (new_client (cfg_inference (d_cfg d)))
      (embed_text r (window_ctx f)) (ls_sent s) = (e, sent)" by fastforce
  let ?emb = "case e of Inl _ \<Rightarrow> [] | Inr v \<Rightarrow> v"
  have closed: "\<not> coherent d e (ls_store s)" if "?emb = []"
    using that by (cases e) (auto simp: coherent_def coherence_check_def incoherent_def)
  obtain rnd where rnd: "tn_uuid t = Some rnd" "node = node_of f r ?emb (engagement_score (d_math d) (signals_of (d_um d) f)) rnd"
    "\<not> f64_less (Fin (engagement_score (d_math d) (signals_of (d_um d) f))) (min_engagement_score (cfg_semantic_filter (d_cfg d)))"
    "\<not> f64_less (Fin (engagement_score (d_math d) (signals_of (d_um d) f)))
       (if coherent d e (ls_store s) then min_engagement_score (cfg_semantic_filter (d_cfg d))
        else isolated_node_score (cfg_semantic_filter (d_cfg d)))"
    "ls_store s' = snd (store_write (d_lib d) (d_enc d) (d_conn d) (tn_seal t) node (ls_store s))" "x = Continues"
    using assms unfolding record_memory_def by (auto simp: e Let_def split: if_splits option.splits)
  show thesis
    by (rule that [OF rnd(2,1,3) _ rnd(5,6)]) (use rnd(4) closed in \<open>simp split: if_splits\<close>)
qed

lemma turn_stores:
  assumes "inference_turn d t s = Some (x, s', Some node)"
  obtains f where "tn_frame t = Some f" "qualifies d f node" "x = Continues"
    "\<exists>rnd. tn_uuid t = Some rnd \<and> mn_id node = set_uuid_bits rnd"
    "ls_store s' = snd (store_write (d_lib d) (d_enc d) (d_conn d) (tn_seal t) node (ls_store s))"
proof -
  obtain f g r sent where t: "tn_frame t = Some f" "\<not> skipped d f"
    "infer (d_um d) (d_jpeg d) (d_dec d) (d_net d) (d_resolve d) (tn_interrupted t) (tn_latency t)
       (new_client (cfg_inference (d_cfg d))) f (ls_sent s) = (Some (Inr r), sent)"
    "record_memory d t f r (recovered (s\<lparr>ls_gov := g, ls_sent := sent\<rparr>)) = (x, s', Some node)"
    using assms unfolding inference_turn_def
    by (auto simp: Let_def split: option.splits if_splits prod.splits sum.splits bool.splits)
  have st: "ls_store (recovered (s\<lparr>ls_gov := g, ls_sent := sent\<rparr>)) = ls_store s" by (simp add: recovered_def)
  obtain n response where "parse_description_and_tags (d_um d) response = Some (ir_description r, ir_tags r)"
    using t(3) by (rule infer_success)
  note clean = parse_description_clean [OF this]
  show thesis
    using t(4)
  proof (rule record_memory_stores)
    fix emb rnd
    let ?score = "engagement_score (d_math d) (signals_of (d_um d) f)"
    assume *: "node = node_of f r emb ?score rnd" "tn_uuid t = Some rnd"
      "\<not> f64_less (Fin ?score) (min_engagement_score (cfg_semantic_filter (d_cfg d)))"
      "emb = [] \<Longrightarrow> \<not> f64_less (Fin ?score) (isolated_node_score (cfg_semantic_filter (d_cfg d)))"
      "ls_store s' = snd (store_write (d_lib d) (d_enc d) (d_conn d) (tn_seal t) node
         (ls_store (recovered (s\<lparr>ls_gov := g, ls_sent := sent\<rparr>))))" "x = Continues"
    have "qualifies d f node"
      using t(2) * clean by (simp add: qualifies_def skipped_def node_of_def)
    then show thesis using that [OF t(1)] * st by (simp add: node_of_def)
  qed
qed

lemma turn_keeps_store:
  assumes "inference_turn d t s = Some (x, s', None)"
  shows "ls_store s' = ls_store s"
proof -
  have r: "ls_store (recovered u) = ls_store u" for u :: "'a loop_state" by (simp add: recovered_def)
  have "ls_store v = ls_store u" if "record_memory d t f r u = (x, v, None)" for f r u v
    using that unfolding record_memory_def
    by (auto simp: Let_def split: option.splits if_splits prod.splits)
  then show ?thesis
    using assms unfolding inference_turn_def
    by (fastforce simp: Let_def r split: option.splits if_splits prod.splits sum.splits bool.splits)
qed

text \<open>Without redirects every call of the API is one request.\<close>

lemma http_do_count: "no_redirects net \<Longrightarrow> length (snd (http_do net resolve rq sent)) = length sent + 1"
  by (simp add: http_do_no_redirects)

lemma embed_count:
  "no_redirects net \<Longrightarrow> length (snd (embed dec net resolve c txt sent)) \<le> length sent + 1"
  by (auto simp: embed_def call_api_def http_do_no_redirects split: option.split sum.split prod.split)

lemma infer_count:
  assumes "no_redirects net"
  shows "length (snd (infer um jpeg dec net resolve interrupted latency c f sent))
           \<le> length sent + nat (max_retries (oc_cfg c) + 1)"
proof -
  have one: "\<exists>more. snd (do_request um dec net resolve c url body s) = s @ more \<and> length more \<le> 1" for url body s
  proof (cases "new_request ''POST'' url (Some body)")
    case (Some rq)
    then show ?thesis by (simp add: do_request_sends http_do_no_redirects [OF assms])
  qed (simp add: do_request_def)
  have "\<exists>more. snd (attempts (do_request um dec net resolve c (ollama_url (oc_cfg c) @ ''/api/generate'') (infer_body um c f img))
      interrupted latency (max_retries (oc_cfg c)) 0 None sent) = sent @ more
      \<and> length more \<le> 1 * nat (max_retries (oc_cfg c) + 1 - int 0)" for img
    by (rule attempts_count [OF one])
  then show ?thesis by (auto simp: infer_def split: sum.split) (metis length_append add_left_mono)
qed

lemma record_memory_count:
  assumes "no_redirects (d_net d)" "record_memory d t f r s = (x, s', n)"
  shows "length (ls_sent s') \<le> length (ls_sent s) + 1" "ls_gov s' = ls_gov s"
proof -
  obtain e sent where e: "embed (d_dec d) (d_net d) (d_resolve d) (new_client (cfg_inference (d_cfg d)))
      (embed_text r (window_ctx f)) (ls_sent s) = (e, sent)" by fastforce
  then have "length sent \<le> length (ls_sent s) + 1" using embed_count [OF assms(1)] by (metis snd_conv)
  with assms(2) show "length (ls_sent s') \<le> length (ls_sent s) + 1" "ls_gov s' = ls_gov s"
    unfolding record_memory_def by (auto simp: e Let_def split: if_splits option.splits)
qed

lemma gov_acquire_tokens:
  assumes "gov_acquire evs g = Some (ok, h)" "tokens g \<le> token_cap g"
  shows "tokens h \<le> token_cap h" "tokens h + (if ok then 1 else 0) \<le> tokens g + count_list evs EvTick"
proof -
  obtain s where s: "gov_run (EvCall # evs) (start_gov g) = Some s" "h = gov s"
    "acq s = (if ok then AcqDone else AcqErr)"
    using assms(1) by (auto simp: gov_acquire_def split: option.splits if_splits)
  have "tokens (gov s) \<le> token_cap (gov s)
      \<and> tokens (gov s) + count_list (EvCall # evs) EvTake \<le> tokens g + count_list (EvCall # evs) EvTick"
    using gov_run_tokens [OF s(1)] assms(2) by (simp add: start_gov_def)
  moreover have "acq v = AcqDone \<longrightarrow> EvTake \<in> set es \<or> acq u = AcqDone" if "gov_run es u = Some v" for es u v
    using that
  proof (induction es v rule: governing.runs_trace)
    case (event es w ev x)
    then show ?case by (auto simp: gov_step_def acquire_step_def close_governor_def
          split: gov_event.splits acquire.splits if_splits)
  qed simp
  from this [OF s(1)] have "ok \<longrightarrow> count_list (EvCall # evs) EvTake \<noteq> 0"
    using s(3) by (simp only: count_list_0_iff) (auto simp: start_gov_def)
  ultimately show "tokens h \<le> token_cap h" "tokens h + (if ok then 1 else 0) \<le> tokens g + count_list evs EvTick"
    using s(2) by auto
qed

text \<open>The cost of a turn: at most one token, and the requests it pays for.\<close>

definition per_token :: "'s deps \<Rightarrow> nat" where
  "per_token d = nat (max_retries (cfg_inference (d_cfg d)) + 1) + 1"

lemma turn_cases:
  assumes "inference_turn d t s = Some (x, u, n)" "no_redirects (d_net d)"
  obtains (free) "u = s"
  | (stopped) g where "gov_acquire (tn_gov t) (ls_gov s) = Some (False, g)" "ls_gov u = g" "ls_sent u = ls_sent s"
  | (spent) g where "gov_acquire (tn_gov t) (ls_gov s) = Some (True, g)"
      "length (ls_sent u) \<le> length (ls_sent s) + per_token d" "ls_gov u = g \<or> ls_gov u = drain_bucket g"
proof (cases "tn_frame t = None \<or> (\<exists>f. tn_frame t = Some f \<and> skipped d f)")
  case True
  then show thesis using assms(1) free by (auto simp: inference_turn_def split: option.splits)
next
  case False
  then obtain f where f: "tn_frame t = Some f" "\<not> skipped d f" by auto
  then obtain ok g where a: "gov_acquire (tn_gov t) (ls_gov s) = Some (ok, g)"
    using assms(1) by (auto simp: inference_turn_def split: option.splits)
  show thesis
  proof (cases ok)
    case False
    then show thesis using assms(1) f a stopped [of g] by (auto simp: inference_turn_def)
  next
    case ok: True
    obtain res sent where i: "infer (d_um d) (d_jpeg d) (d_dec d) (d_net d) (d_resolve d) (tn_interrupted t) (tn_latency t)
        (new_client (cfg_inference (d_cfg d))) f (ls_sent s) = (res, sent)" by fastforce
    then have len: "length sent \<le> length (ls_sent s) + nat (max_retries (cfg_inference (d_cfg d)) + 1)"
      using infer_count [OF assms(2)] by (metis new_client_def ollama_client.select_convs(1) snd_conv)
    consider "res = None" | e where "res = Some (Inl e)" | r where "res = Some (Inr r)" by (metis not_None_eq sumE)
    then show thesis
    proof cases
      case 3
      let ?s = "s\<lparr>ls_gov := g, ls_sent := sent\<rparr>"
      have "record_memory d t f r (recovered ?s) = (x, u, n)"
        using assms(1) f a ok i 3 by (simp add: inference_turn_def)
      note record_memory_count [OF assms(2) this]
      moreover have "ls_sent (recovered ?s) = sent" "ls_gov (recovered ?s) = g \<or> ls_gov (recovered ?s) = drain_bucket g"
        by (simp_all add: recovered_def)
      ultimately show thesis using len a ok by (intro spent [of g]) (simp_all add: per_token_def)
    qed (use assms(1) f a ok i len in \<open>auto simp: inference_turn_def Let_def per_token_def intro!: spent [of g]\<close>)
  qed
qed

lemma turn_cost:
  assumes "inference_turn d t s = Some (x, u, n)" "no_redirects (d_net d)" "tokens (ls_gov s) \<le> token_cap (ls_gov s)"
  shows "tokens (ls_gov u) \<le> token_cap (ls_gov u)
     \<and> length (ls_sent u) + per_token d * tokens (ls_gov u)
       \<le> length (ls_sent s) + per_token d * (tokens (ls_gov s) + count_list (tn_gov t) EvTick)"
  using assms(1,2)
proof (cases rule: turn_cases)
  case free
  then show ?thesis using assms(3) by (simp add: add_mult_distrib2)
next
  case (stopped g)
  then show ?thesis using gov_acquire_tokens [OF stopped(1) assms(3)] by (simp add: mult_le_mono2)
next
  case (spent g)
  note t = gov_acquire_tokens [OF spent(1) assms(3)]
  have g: "tokens (ls_gov u) \<le> tokens g" "tokens (ls_gov u) \<le> token_cap (ls_gov u)"
    using spent(3) t(1) by (auto simp: drain_bucket_def)
  have "per_token d * (tokens g + 1) \<le> per_token d * (tokens (ls_gov s) + count_list (tn_gov t) EvTick)"
    using t(2) by (intro mult_le_mono2) simp
  then have "per_token d + per_token d * tokens g \<le> per_token d * (tokens (ls_gov s) + count_list (tn_gov t) EvTick)"
    by simp
  moreover have "per_token d * tokens (ls_gov u) \<le> per_token d * tokens g"
    using g(1) by (intro mult_le_mono2)
  ultimately show ?thesis using spent(2) g(2) by (intro conjI) linarith+
qed

lemma wrap64_mult: "wrap64 (wrap64 a * b) = wrap64 (a * b)"
proof -
  have idem: "signed_take_bit 63 (signed_take_bit 63 a) = signed_take_bit 63 a" for a :: int by simp
  have "wrap64 (wrap64 a * b) = signed_take_bit 63 (signed_take_bit 63 (signed_take_bit 63 a) * signed_take_bit 63 b)"
    unfolding wrap64_def by (rule signed_take_bit_mult [symmetric])
  also have "\<dots> = wrap64 (a * b)" unfolding idem wrap64_def by (rule signed_take_bit_mult)
  finally show ?thesis .
qed

lemma run_stores:
  assumes "run_inference_loop d ts s = Some (x, s', nodes)" and "node \<in> set nodes"
  shows "\<exists>t\<in>set ts. \<exists>f. tn_frame t = Some f \<and> qualifies d f node"
  using assms
proof (induction ts arbitrary: s x s' nodes)
  case (Cons t ts)
  obtain y s1 n where step: "inference_turn d t s = Some (y, s1, n)"
    using Cons.prems(1) by (auto split: option.splits)
  show ?case
  proof (cases "n = Some node")
    case True
    obtain f where "tn_frame t = Some f" "qualifies d f node"
      using step unfolding True by (rule turn_stores)
    then show ?thesis by auto
  next
    case False
    then have "node \<notin> set (case n of None \<Rightarrow> [] | Some m \<Rightarrow> [m])" by (auto split: option.splits)
    then obtain z u ms where "run_inference_loop d ts s1 = Some (z, u, ms)" "node \<in> set ms"
      using Cons.prems step by (auto simp: Let_def split: option.splits if_splits)
    then show ?thesis using Cons.IH by fastforce
  qed
qed simp

section \<open>Properties\<close>

text \<open>
  What the daemon remembers. Over any run of the inference loop, whatever the frames, the model's
  answers and the load of the machine, every node handed to the store comes from a frame of the run
  that passed the dwell and content gates; its score reaches the engagement threshold, and the
  stricter threshold for isolated nodes when it has no embedding; its description contains no
  injection pattern; and it carries the window data and the capture time of that frame.
\<close>

theorem only_qualifying_memories:
  assumes "run_inference_loop d ts s = Some (x, s', nodes)" and "node \<in> set nodes"
  shows "\<exists>t\<in>set ts. \<exists>f. tn_frame t = Some f \<and> qualifies d f node"
  by (rule run_stores [OF assms])

text \<open>
  The store after a run is the store before it with exactly those nodes written, in order.
\<close>

theorem loop_writes_in_order:
  assumes "run_inference_loop d ts s = Some (x, s', nodes)"
  shows "\<exists>rnds. length rnds = length nodes \<and>
     ls_store s' = fold (\<lambda>(rnd, node) st. snd (store_write (d_lib d) (d_enc d) (d_conn d) rnd node st)) (zip rnds nodes) (ls_store s)"
  using assms
proof (induction ts arbitrary: s x s' nodes)
  case (Cons t ts)
  obtain y s1 n where step: "inference_turn d t s = Some (y, s1, n)"
    using Cons.prems(1) by (auto split: option.splits)
  show ?case
  proof (cases n)
    case None
    then have "ls_store s1 = ls_store s" using step turn_keeps_store by blast
    moreover have "nodes = [] \<and> s' = s1 \<or> run_inference_loop d ts s1 = Some (x, s', nodes)"
      using Cons.prems step None by (auto simp: Let_def split: option.splits if_splits)
    ultimately show ?thesis using Cons.IH [of s1 x s' nodes] by (elim disjE) auto
  next
    case (Some node)
    have w: "y = Continues" "ls_store s1 = snd (store_write (d_lib d) (d_enc d) (d_conn d) (tn_seal t) node (ls_store s))"
      using step unfolding Some by (auto elim: turn_stores)
    obtain ms where ms: "run_inference_loop d ts s1 = Some (x, s', ms)" "nodes = node # ms"
      using Cons.prems step Some w(1) by (auto simp: Let_def split: option.splits if_splits)
    obtain rnds where "length rnds = length ms"
      "ls_store s' = fold (\<lambda>(rnd, node) st. snd (store_write (d_lib d) (d_enc d) (d_conn d) rnd node st)) (zip rnds ms) (ls_store s1)"
      using Cons.IH [OF ms(1)] by blast
    then show ?thesis using w(2) ms(2) by (intro exI [of _ "tn_seal t # rnds"]) simp
  qed
qed simp

text \<open>
  C15. The load the daemon puts on Ollama. Over any run of the loop with a server that does not redirect,
  the requests it sends are bounded by the tokens: each token, and there are no more than the bucket
  held and the ticks added, pays for one inference with its retries and one embedding. Frames that
  the cheap gates discard send nothing and cost nothing.
\<close>

theorem requests_bounded_by_tokens:
  assumes "run_inference_loop d ts s = Some (x, s', nodes)" and "no_redirects (d_net d)"
    and "tokens (ls_gov s) \<le> token_cap (ls_gov s)"
  shows "length (ls_sent s') \<le> length (ls_sent s)
     + (nat (max_retries (cfg_inference (d_cfg d)) + 1) + 1)
       * (tokens (ls_gov s) + count_list (concat (map tn_gov ts)) EvTick)"
proof -
  have "length (ls_sent s') + per_token d * tokens (ls_gov s')
      \<le> length (ls_sent s) + per_token d * (tokens (ls_gov s) + count_list (concat (map tn_gov ts)) EvTick)"
    using assms(1,3)
  proof (induction ts arbitrary: s x s' nodes)
    case (Cons t ts)
    obtain y u n where step: "inference_turn d t s = Some (y, u, n)"
      using Cons.prems(1) by (auto split: option.splits)
    note c = turn_cost [OF step assms(2) Cons.prems(2)]
    have "s' = u \<or> (\<exists>z ms. run_inference_loop d ts u = Some (z, s', ms))"
      using Cons.prems(1) step by (auto simp: Let_def split: option.splits if_splits)
    then show ?case
    proof (elim disjE exE)
      assume "s' = u"
      then show ?thesis using c by (simp add: count_list_append add_mult_distrib2)
    next
      fix z ms assume "run_inference_loop d ts u = Some (z, s', ms)"
      from Cons.IH [OF this] c show ?thesis by (simp add: count_list_append add_mult_distrib2)
    qed
  qed (simp add: add_mult_distrib2)
  then show ?thesis by (simp add: per_token_def)
qed

text \<open>A turn in which a frame of source code is described and stored, without an embedding.\<close>

definition sample_deps :: "json_state deps" where
  "sample_deps = \<lparr>d_um = (\<lambda>s. s), d_math = rounded_math, d_jpeg = (\<lambda>_. Inr []),
     d_dec = \<lparr>dec_generate = (\<lambda>_. Inr \<lparr>gs_response = ''Go code. TAGS: go'', gs_error = []\<rparr>),
              dec_embed = (\<lambda>_. Inl []), dec_tags = (\<lambda>_. Inl [])\<rparr>,
     d_net = (\<lambda>k rq. Inr \<lparr>rs_status = 200, rs_location = [], rs_body = []\<rparr>), d_resolve = (\<lambda>_ l. Some l),
     d_lib = sample_lib, d_enc = toy_encryptor, d_conn = json_conn sample_lib toy_encryptor all_cached,
     d_cfg = config_defaults\<rparr>"

definition sample_frame :: "int frame" where
  "sample_frame = full_hd_frame\<lparr>frame_dwell_seconds := 30\<rparr>"

definition sample_turn :: "int turn" where
  "sample_turn = \<lparr>tn_frame = Some sample_frame, tn_gov = [EvLoadCPU, EvLoadGPU, EvCheck, EvTake],
     tn_interrupted = (\<lambda>_. False), tn_latency = (\<lambda>_. 5), tn_stopped = False, tn_uuid = Some (replicate 16 0),
     tn_seal = Inr toy_nonce\<rparr>"

definition sample_governor :: governor where
  "sample_governor = \<lparr>g_cfg = cfg_resource_budget config_defaults, cpu_percent = 0, gpu_percent = 0, prev_cpu_total = 0,
     prev_cpu_idle = 0, tokens = 1, token_cap = 6, g_closed = False,
     metrics_pc = LoopStart, refill_pc = LoopStart\<rparr>"

definition sample_loop :: "json_state loop_state" where
  "sample_loop = \<lparr>ls_gov = sample_governor, ls_sent = [], ls_store = sample_state, consecutive_fails = 0\<rparr>"

lemma sample_class: "pre_class (\<lambda>s. s) sample_frame = ClassWorkCode"
  by (simp add: pre_class_def sample_frame_def full_hd_frame_def) code_simp

lemma sample_score: "engagement_score rounded_math (signals_of (\<lambda>s. s) sample_frame) = 3"
proof -
  have "dwell_weight rounded_math 30 = 1" using rounded_log1p_30 tenth_bounds by (simp add: dwell_weight_def Let_def)
  moreover have "fl64 3 = 3" using fl64_of_int [of 3] by simp
  ultimately show ?thesis
    using sample_class by (simp add: engagement_score_def signals_of_def sample_frame_def full_hd_frame_def
        interaction_weight_def recent_def content_class_weight_def class_weights_def view_count_boost_def)
qed

lemma sample_turn_of:
  assumes d: "d_um d = (\<lambda>s. s)" "d_math d = rounded_math" "d_jpeg d = d_jpeg sample_deps" "d_dec d = d_dec sample_deps" "d_net d = d_net sample_deps"
    "d_resolve d = d_resolve sample_deps"
    and cfg: "cfg_inference (d_cfg d) = cfg_inference config_defaults"
    "cfg_semantic_filter (d_cfg d) = cfg_semantic_filter config_defaults"
    and f: "frame_image f = Some im" "frame_dwell_seconds f \<ge> 3"
      "pre_class (\<lambda>s. s) f \<notin> {ClassEntertainment, ClassSystemUI}"
      "engagement_score rounded_math (signals_of (\<lambda>s. s) f) \<ge> 1"
    and g: "gov_acquire (tn_gov sample_turn) (ls_gov s) = Some (True, g)"
  shows "\<exists>u r. inference_turn d (sample_turn\<lparr>tn_frame := Some f\<rparr>) s
      = Some (Continues, u, Some (node_of f r [] (engagement_score rounded_math (signals_of (\<lambda>s. s) f)) (replicate 16 0)))
    \<and> ir_description r = ''Go code.'' \<and> ir_tags r = [''go'']"
proof -
  let ?t = "sample_turn\<lparr>tn_frame := Some f\<rparr>"
  let ?c = "new_client (cfg_inference config_defaults)"
  have p: "parse_url ''http://127.0.0.1:11434/api/generate'' = Some \<lparr>u_scheme = ''http'', u_host = ''127.0.0.1:11434''\<rparr>"
    "parse_url ''http://127.0.0.1:11434/api/embeddings'' = Some \<lparr>u_scheme = ''http'', u_host = ''127.0.0.1:11434''\<rparr>"
    by code_simp+
  have net: "no_redirects (d_net d)" by (simp add: d sample_deps_def no_redirects_def)
  have desc: "parse_description_and_tags (\<lambda>s. s) ''Go code. TAGS: go'' = Some (''Go code.'', [''go''])" by code_simp
  have c: "ollama_url (oc_cfg ?c) = ''http://127.0.0.1:11434''" "max_retries (oc_cfg ?c) = 2"
    by (simp_all add: new_client_def config_defaults_def)
  have t: "tn_frame ?t = Some f" "tn_uuid ?t = Some (replicate 16 0)" "tn_gov ?t = tn_gov sample_turn" by (simp_all add: sample_turn_def)
  have "\<exists>r sent. infer (d_um d) (d_jpeg d) (d_dec d) (d_net d) (d_resolve d) (tn_interrupted ?t) (tn_latency ?t) ?c f (ls_sent s)
      = (Some (Inr r), sent) \<and> ir_description r = ''Go code.'' \<and> ir_tags r = [''go'']"
    using p desc by (simp add: d infer_def encode_frame_for_vlm_def sample_deps_def f(1)
        sample_turn_def c attempts_step do_request_def new_request_def http_do_no_redirects no_redirects_def)
  then obtain r sent where i: "infer (d_um d) (d_jpeg d) (d_dec d) (d_net d) (d_resolve d) (tn_interrupted ?t) (tn_latency ?t)
      ?c f (ls_sent s) = (Some (Inr r), sent)" "ir_description r = ''Go code.''" "ir_tags r = [''go'']" by blast
  have e: "\<exists>er sent2. embed (d_dec d) (d_net d) (d_resolve d) ?c te sent = (Inl er, sent2)" for te sent
    using p by (simp add: embed_def call_api_def new_request_def c http_do_no_redirects [OF net])
      (simp add: d sample_deps_def)
  have "fl64 (3/10) \<le> 1" "fl64 (8/10) \<le> 1" using fl64_mono [of "3/10" 1] fl64_mono [of "8/10" 1] by simp_all
  then have th: "fl64 (3/10) \<le> engagement_score rounded_math (signals_of (\<lambda>s. s) f)"
    "fl64 (8/10) \<le> engagement_score rounded_math (signals_of (\<lambda>s. s) f)" using f(4) by linarith+
  have sf: "min_dwell_seconds (cfg_semantic_filter config_defaults) = Fin 3"
    "min_engagement_score (cfg_semantic_filter config_defaults) = Fin (fl64 (3/10))"
    "isolated_node_score (cfg_semantic_filter config_defaults) = Fin (fl64 (8/10))"
    by (simp_all add: config_defaults_def)
  have "\<not> skipped d f" using f(2,3) by (simp add: skipped_def d cfg sf)
  moreover have "\<exists>v. record_memory d ?t f r u
      = (Continues, v, Some (node_of f r [] (engagement_score rounded_math (signals_of (\<lambda>s. s) f)) (replicate 16 0)))" for u
  proof -
    obtain er sent2 where "embed (d_dec d) (d_net d) (d_resolve d) ?c
        (embed_text r (window_ctx f)) (ls_sent u) = (Inl er, sent2)" using e by blast
    then show ?thesis
      using th by (simp add: record_memory_def d(1,2) cfg sf search_panics_def coherent_def t(2) Let_def)
  qed
  then obtain v where "record_memory d ?t f r (recovered (s\<lparr>ls_gov := g, ls_sent := sent\<rparr>))
      = (Continues, v, Some (node_of f r [] (engagement_score rounded_math (signals_of (\<lambda>s. s) f)) (replicate 16 0)))" by blast
  ultimately show ?thesis
    using i g t cfg(1) by (auto simp: inference_turn_def)
qed

lemma sample_run_of:
  assumes cfg: "cfg_inference cfg = cfg_inference config_defaults"
    "cfg_semantic_filter cfg = cfg_semantic_filter config_defaults"
    and f: "frame_image f = Some im" "frame_dwell_seconds f \<ge> 3"
      "pre_class (\<lambda>s. s) f \<notin> {ClassEntertainment, ClassSystemUI}"
      "engagement_score rounded_math (signals_of (\<lambda>s. s) f) \<ge> 1"
  shows "\<exists>s node. run_inference_loop (sample_deps\<lparr>d_cfg := cfg\<rparr>) [sample_turn\<lparr>tn_frame := Some f\<rparr>] sample_loop
            = Some (Continues, s, [node])"
proof -
  have "\<exists>g. gov_acquire (tn_gov sample_turn) (ls_gov sample_loop) = Some (True, g)"
    by (simp add: gov_acquire_def sample_turn_def sample_loop_def sample_governor_def start_gov_def gov_step_def
        acquire_step_def config_defaults_def)
  moreover have "d_um (sample_deps\<lparr>d_cfg := cfg\<rparr>) = (\<lambda>s. s)" "d_math (sample_deps\<lparr>d_cfg := cfg\<rparr>) = rounded_math"
    by (simp_all add: sample_deps_def)
  ultimately show ?thesis
    using sample_turn_of [of "sample_deps\<lparr>d_cfg := cfg\<rparr>" f im sample_loop] cfg f by fastforce
qed

lemma sample_run:
  "\<exists>s node. run_inference_loop sample_deps [sample_turn] sample_loop = Some (Continues, s, [node])"
proof -
  have "sample_deps\<lparr>d_cfg := config_defaults\<rparr> = sample_deps" "sample_turn\<lparr>tn_frame := Some sample_frame\<rparr> = sample_turn"
    by (simp_all add: sample_deps_def sample_turn_def)
  then show ?thesis
    using sample_run_of [of config_defaults sample_frame] sample_class sample_score
    by (simp add: sample_frame_def full_hd_frame_def)
qed

theorem only_qualifying_memories_witness:
  "\<exists>s node. run_inference_loop sample_deps [sample_turn] sample_loop = Some (Continues, s, [node])
     \<and> qualifies sample_deps sample_frame node"
proof -
  obtain s node where r: "run_inference_loop sample_deps [sample_turn] sample_loop = Some (Continues, s, [node])"
    using sample_run by blast
  from only_qualifying_memories [OF r, of node] have "qualifies sample_deps sample_frame node"
    by (auto simp: sample_turn_def)
  with r show ?thesis by blast
qed

theorem loop_writes_in_order_witness:
  "\<exists>s node rnd. run_inference_loop sample_deps [sample_turn] sample_loop = Some (Continues, s, [node])
     \<and> ls_store s = snd (store_write sample_lib toy_encryptor (d_conn sample_deps) rnd node sample_state)"
proof -
  obtain s node where r: "run_inference_loop sample_deps [sample_turn] sample_loop = Some (Continues, s, [node])"
    using sample_run by blast
  obtain rnds where "length rnds = 1"
    "ls_store s = fold (\<lambda>(rnd, node) st. snd (store_write (d_lib sample_deps) (d_enc sample_deps) (d_conn sample_deps) rnd node st))
       (zip rnds [node]) (ls_store sample_loop)"
    using loop_writes_in_order [OF r] by auto
  moreover from this(1) obtain rnd where "rnds = [rnd]" by (auto simp: length_Suc_conv)
  moreover have "d_lib sample_deps = sample_lib" "d_enc sample_deps = toy_encryptor" "ls_store sample_loop = sample_state"
    by (simp_all add: sample_deps_def sample_loop_def)
  ultimately have "ls_store s = snd (store_write sample_lib toy_encryptor (d_conn sample_deps) rnd node sample_state)" by simp
  with r show ?thesis by blast
qed

theorem requests_bounded_by_tokens_witness:
  "\<exists>s node. run_inference_loop sample_deps [sample_turn] sample_loop = Some (Continues, s, [node])
     \<and> length (ls_sent s) \<le> 4"
proof -
  obtain s node where r: "run_inference_loop sample_deps [sample_turn] sample_loop = Some (Continues, s, [node])"
    using sample_run by blast
  have net: "no_redirects (d_net sample_deps)" by (simp add: sample_deps_def no_redirects_def)
  have tok: "tokens (ls_gov sample_loop) \<le> token_cap (ls_gov sample_loop)"
    by (simp add: sample_loop_def sample_governor_def)
  have "max_retries (cfg_inference (d_cfg sample_deps)) = 2" "count_list (concat (map tn_gov [sample_turn])) EvTick = 0"
    "tokens (ls_gov sample_loop) = 1" "ls_sent sample_loop = []"
    by (simp_all add: sample_deps_def config_defaults_def sample_turn_def sample_loop_def sample_governor_def)
  with requests_bounded_by_tokens [OF r net tok] r show ?thesis by auto
qed

text \<open>
  A busy machine ends the recording. When the processor stays above the threshold until the
  deadline of one frame, \<open>Acquire\<close> returns the deadline error and the loop takes it for a
  shutdown: it returns, whatever frames follow, while the capture side goes on.
\<close>

theorem busy_machine_ends_loop:
  assumes "tn_frame t = Some f" "\<not> skipped d f"
    and "tn_gov t = [EvLoadCPU, EvLoadGPU, EvCheck, EvCtxDone]"
    and "cpu_percent (ls_gov s) > cpu_idle_threshold (g_cfg (ls_gov s))"
  shows "\<exists>s'. run_inference_loop d (t # ts) s = Some (Returns, s', []) \<and> ls_sent s' = ls_sent s \<and> ls_store s' = ls_store s"
  using assms
  by (simp add: inference_turn_def gov_acquire_def start_gov_def gov_step_def acquire_step_def)

theorem busy_machine_ends_loop_witness:
  "\<exists>s'. run_inference_loop sample_deps
      (sample_turn\<lparr>tn_gov := [EvLoadCPU, EvLoadGPU, EvCheck, EvCtxDone]\<rparr> # replicate 100 sample_turn)
      (sample_loop\<lparr>ls_gov := sample_governor\<lparr>cpu_percent := 55\<rparr>\<rparr>) = Some (Returns, s', [])"
proof -
  have "\<not> skipped sample_deps sample_frame"
    using sample_class by (simp add: skipped_def sample_deps_def config_defaults_def) (simp add: sample_frame_def)
  then show ?thesis
    using busy_machine_ends_loop [of "sample_turn\<lparr>tn_gov := [EvLoadCPU, EvLoadGPU, EvCheck, EvCtxDone]\<rparr>" sample_frame
        sample_deps "sample_loop\<lparr>ls_gov := sample_governor\<lparr>cpu_percent := 55\<rparr>\<rparr>" "replicate 100 sample_turn"]
    by (auto simp: sample_turn_def sample_governor_def config_defaults_def)
qed

text \<open>
  The pause after failures doubles from two seconds and stays at a minute from the sixth failure on,
  until the 34th: there the product wraps around, the pause is negative and the timer fires at
  once. From the 55th on the pause is zero.
\<close>

theorem backoff_doubles_then_wraps:
  "(\<forall>k. 1 \<le> k \<and> k \<le> 5 \<longrightarrow> backoff k = 2 ^ nat k * 1000000000)
   \<and> (\<forall>k. 6 \<le> k \<and> k \<le> 33 \<longrightarrow> backoff k = 60000000000)
   \<and> backoff 34 < 0 \<and> (\<forall>k. 55 \<le> k \<longrightarrow> backoff k = 0)"
proof -
  have small: "backoff k = min 60000000000 (2 ^ nat k * 1000000000)" if "k \<le> 33" for k
  proof -
    have "(2::int) ^ nat k \<le> 2 ^ 33" using that by (intro power_increasing) auto
    moreover have "(0::int) \<le> 2 ^ nat k" by simp
    moreover have "int64_range m \<and> int64_range (m * 1000000000)" if "0 \<le> m" "m \<le> 2 ^ 33" for m :: int
      using that by (simp add: int64_range_def)
    ultimately have "int64_range (2 ^ nat k)" "int64_range (2 ^ nat k * 1000000000)" by blast+
    then show ?thesis by (simp add: backoff_def Let_def min_def)
  qed
  have up: "2 ^ 1 \<le> (2::int) ^ nat k" if "1 \<le> k" for k :: int
    using that by (intro power_increasing) auto
  have a: "backoff k = 2 ^ nat k * 1000000000" if "1 \<le> k" "k \<le> 5" for k
  proof -
    have "(2::int) ^ nat k \<le> 2 ^ 5" using that by (intro power_increasing) auto
    then show ?thesis using small [of k] that by simp
  qed
  have b: "backoff k = 60000000000" if "6 \<le> k" "k \<le> 33" for k
  proof -
    have "(2::int) ^ 6 \<le> 2 ^ nat k" using that by (intro power_increasing) auto
    then show ?thesis using small [of k] that by simp
  qed
  have c: "backoff 34 < 0" by (simp add: backoff_def wrap64_def Let_def)
  have z: "backoff k = 0" if "55 \<le> k" for k
  proof -
    have "wrap64 (wrap64 (2 ^ nat k) * 1000000000) = wrap64 (2 ^ nat k * 1000000000)"
      by (rule wrap64_mult)
    also have "(2::int) ^ nat k * 1000000000 = 2 ^ 64 * (2 ^ (nat k - 55) * 1953125)"
    proof -
      have "nat k = 55 + (nat k - 55)" using that by simp
      then have "(2::int) ^ nat k = 2 ^ 55 * 2 ^ (nat k - 55)" by (metis power_add)
      then show ?thesis by simp
    qed
    also have "wrap64 (2 ^ 64 * m) = 0" for m
    proof -
      have "take_bit 64 (2 ^ 64 * m) = take_bit 64 0" by (simp add: take_bit_eq_mod)
      then have "signed_take_bit 63 (2 ^ 64 * m) = signed_take_bit 63 0"
        by (subst signed_take_bit_eq_iff_take_bit_eq) simp
      then show ?thesis by (simp add: wrap64_def)
    qed
    finally show ?thesis by (simp add: backoff_def)
  qed
  show ?thesis using a b c z by blast
qed

end
