(* ===== verification/Key_Pages.thy ===== *)
theory Key_Pages
  imports Encryptor
begin

text \<open>
  \<open>internal/storage/mlock_unix.go\<close> and \<open>mlock_windows.go\<close>: the pages of the key are locked in memory
  while it is in use, so that it is not swapped to disk. A function is given by the states the pages
  go through; the operating system may page out whatever is unlocked between two steps.
\<close>

section \<open>Pages\<close>

record pages =
  pg_bytes :: bytes
  pg_locked :: bool

text \<open>
  \<open>mlockKey\<close>: the answer of the system call; a failure is only logged. On Windows an empty key is
  not locked at all.
\<close>

definition mlock_key_unix :: "bool \<Rightarrow> pages \<Rightarrow> pages" where
  "mlock_key_unix ok p = (if ok then p\<lparr>pg_locked := True\<rparr> else p)"

definition mlock_key_windows :: "bool \<Rightarrow> pages \<Rightarrow> pages" where
  "mlock_key_windows ok p = (if pg_bytes p = [] then p else if ok then p\<lparr>pg_locked := True\<rparr> else p)"

definition munlock_key_unix :: "bool \<Rightarrow> pages \<Rightarrow> string option \<times> pages" where
  "munlock_key_unix ok p = (if ok then (None, p\<lparr>pg_locked := False\<rparr>) else (Some ''munlock'', p))"

definition munlock_key_windows :: "bool \<Rightarrow> pages \<Rightarrow> string option \<times> pages" where
  "munlock_key_windows ok p =
     (if pg_bytes p = [] then (None, p)
      else if ok then (None, p\<lparr>pg_locked := False\<rparr>) else (Some ''VirtualUnlock'', p))"

definition zero_pages :: "pages \<Rightarrow> pages" where
  "zero_pages p = p\<lparr>pg_bytes := replicate (length (pg_bytes p)) 0\<rparr>"

text \<open>The states of \<open>Close\<close> and of \<open>DeleteKey\<close>, in order.\<close>

definition close_trace :: "(pages \<Rightarrow> string option \<times> pages) \<Rightarrow> pages \<Rightarrow> pages list" where
  "close_trace munlock p = [p, snd (munlock p), zero_pages (snd (munlock p))]"

definition delete_trace :: "pages \<Rightarrow> pages list" where
  "delete_trace p = [p, zero_pages p]"

text \<open>A state in which the key can reach the swap file.\<close>

definition swappable :: "bytes \<Rightarrow> pages \<Rightarrow> bool" where
  "swappable key p \<longleftrightarrow> \<not> pg_locked p \<and> pg_bytes p = key"

section \<open>Properties\<close>

text \<open>
  A key that was locked can never be swapped out while it is used or deleted, but \<open>Close\<close> unlocks
  the pages before it zeroes them, so there is one moment at which it can.
\<close>

theorem close_unlocks_before_zeroing:
  assumes "pg_locked p" "pg_bytes p = key" "key \<noteq> []"
  shows "(\<forall>q \<in> set (delete_trace p). \<not> swappable key q)
     \<and> (\<exists>q \<in> set (close_trace (munlock_key_unix True) p). swappable key q)
     \<and> (\<exists>q \<in> set (close_trace (munlock_key_windows True) p). swappable key q)
     \<and> pg_bytes (last (close_trace (munlock_key_unix True) p)) = replicate (length key) 0
     \<and> pg_bytes (last (close_trace (munlock_key_windows True) p)) = replicate (length key) 0"
  using assms
  by (auto simp: delete_trace_def close_trace_def swappable_def zero_pages_def munlock_key_unix_def munlock_key_windows_def)

theorem close_unlocks_before_zeroing_witness:
  "swappable [1, 2] (snd (munlock_key_unix True (mlock_key_unix True \<lparr>pg_bytes = [1, 2], pg_locked = False\<rparr>)))
   \<and> (\<exists>q \<in> set (close_trace (munlock_key_unix True) \<lparr>pg_bytes = [1, 2], pg_locked = True\<rparr>). swappable [1, 2] q)"
  using close_unlocks_before_zeroing [of "\<lparr>pg_bytes = [1, 2], pg_locked = True\<rparr>" "[1, 2]"]
  by (simp add: munlock_key_unix_def mlock_key_unix_def swappable_def)

end
