(* ===== verification/Com.thy ===== *)
theory Com
  imports Prelude "HOL-Library.Multiset"
begin

text \<open>
  The discipline of the raw COM calls in \<open>uia_windows.go\<close> and \<open>dxgi_windows.go\<close>. Each function of
  these files is modelled together with the log of what it acquires, calls and gives back; deferred
  calls come at the end of the log, last one first. \<open>run_log\<close> plays a log against the resources
  held: a pointer must be held when a method is called on it and when it is released, and the same
  pointer obtained twice has to be released twice. A call that returns 0 has handed over every pointer it
  delivers that is not null; one that fails has handed over nothing, as COM prescribes.
\<close>

section \<open>Logs\<close>

type_synonym ptr = "64 word"

datatype com_resource = ComInit | Ref ptr | Bstr ptr | Variant ptr nat | FrameOf ptr | Mapping ptr

datatype com_event = Opens com_resource | Closes com_resource | Calls ptr nat

text \<open>\<open>uiaRelease\<close> and \<open>dxgiRelease\<close>: method 2 of the object, for a pointer that is not null.\<close>

definition com_release :: "ptr \<Rightarrow> com_event list" where
  "com_release p = (if p = 0 then [] else [Closes (Ref p)])"

fun run_log :: "com_event list \<Rightarrow> com_resource multiset \<Rightarrow> com_resource multiset option" where
  "run_log [] h = Some h"
| "run_log (Opens r # es) h = run_log es (add_mset r h)"
| "run_log (Closes r # es) h = (if r \<in># h then run_log es (h - {#r#}) else None)"
| "run_log (Calls p n # es) h = (if Ref p \<in># h then run_log es h else None)"

section \<open>Lemmas\<close>

lemma run_log_append: "run_log (xs @ ys) h = Option.bind (run_log xs h) (run_log ys)"
  by (induction xs h rule: run_log.induct) simp_all

text \<open>A log that is clean for some holding is clean for every larger one and leaves the rest alone.\<close>

lemma run_log_frame: "run_log es h = Some h' \<Longrightarrow> run_log es (h + k) = Some (h' + k)"
  by (induction es h rule: run_log.induct) (auto split: if_splits)

definition clean :: "com_resource multiset \<Rightarrow> com_event list \<Rightarrow> bool" where
  "clean h es \<longleftrightarrow> run_log es h = Some h"

lemma clean_Nil [simp]: "clean h []"
  by (simp add: clean_def)

lemma clean_append: "clean h xs \<Longrightarrow> clean h ys \<Longrightarrow> clean h (xs @ ys)"
  by (simp add: clean_def run_log_append)

lemma clean_Calls [simp]: "clean h (Calls p n # es) \<longleftrightarrow> Ref p \<in># h \<and> clean h es"
  by (simp add: clean_def)

text \<open>Opening a resource, working with it and closing it at the end is clean when the work is.\<close>

lemma clean_bracket: "clean (add_mset r h) es \<Longrightarrow> clean h (Opens r # es @ [Closes r])"
  by (simp add: clean_def run_log_append)

lemma clean_ref: "p \<noteq> 0 \<Longrightarrow> clean (add_mset (Ref p) h) es \<Longrightarrow> clean h (Opens (Ref p) # es @ com_release p)"
  using clean_bracket by (simp add: com_release_def)

text \<open>A log that gives everything back but resources of a set.\<close>

definition leaves :: "com_resource set \<Rightarrow> com_resource multiset \<Rightarrow> com_event list \<Rightarrow> bool" where
  "leaves L h es \<longleftrightarrow> (\<exists>k. run_log es h = Some (h + k) \<and> set_mset k \<subseteq> L)"

lemma leaves_Nil [simp]: "leaves L h []"
  by (simp add: leaves_def)

lemma leaves_Calls [simp]: "leaves L h (Calls p n # es) \<longleftrightarrow> Ref p \<in># h \<and> leaves L h es"
  by (auto simp: leaves_def)

lemma leaves_append:
  assumes "leaves L h xs" "leaves L h ys" shows "leaves L h (xs @ ys)"
proof -
  obtain k j where k: "run_log xs h = Some (h + k)" "set_mset k \<subseteq> L" and j: "run_log ys h = Some (h + j)" "set_mset j \<subseteq> L"
    using assms by (auto simp: leaves_def)
  have "run_log (xs @ ys) h = Some (h + (j + k))"
    using k(1) run_log_frame [OF j(1), of k] by (simp add: run_log_append add.assoc)
  then show ?thesis using k(2) j(2) by (auto simp: leaves_def)
qed

lemma leaves_opened: "r \<in> L \<Longrightarrow> leaves L h [Opens r]"
  unfolding leaves_def by (intro exI [of _ "{#r#}"]) simp

lemma leaves_bracket: "leaves L (add_mset r h) es \<Longrightarrow> leaves L h (Opens r # es @ [Closes r])"
  by (auto simp: leaves_def run_log_append)

lemma leaves_ref: "p \<noteq> 0 \<Longrightarrow> leaves L (add_mset (Ref p) h) es \<Longrightarrow> leaves L h (Opens (Ref p) # es @ com_release p)"
  using leaves_bracket by (simp add: com_release_def)

end
