(* ===== verification/Ui_Automation.thy ===== *)
theory Ui_Automation
  imports Com Privacy_Gate Float64
begin

text \<open>
  \<open>internal/capture/uia_windows.go\<close>: the browser URL and the password field, asked of Windows UI
  Automation. The answers of the COM methods are the record \<open>uia_env\<close>; an answer is an HRESULT with
  the pointer or value it returns. \<open>word_at\<close>, \<open>double_at\<close> and \<open>utf16_at\<close> are reads of memory; reading
  unmapped memory is \<open>None\<close>, a crash of the program.
\<close>

section \<open>Answers\<close>

record variant =
  vt :: nat
  vdata :: ptr

record uia_env =
  co_initialize :: "64 word"
  co_create_instance :: "64 word \<times> ptr"
  element_from_handle :: "nat \<Rightarrow> 64 word \<times> ptr"
  get_focused_element :: "64 word \<times> ptr"
  current_property :: "ptr \<Rightarrow> nat \<Rightarrow> 64 word \<times> variant"
  sys_alloc_string :: "string \<Rightarrow> ptr"
  create_property_condition :: "nat \<Rightarrow> ptr \<Rightarrow> 64 word \<times> ptr"
  find_first :: "ptr \<Rightarrow> nat \<Rightarrow> ptr \<Rightarrow> 64 word \<times> ptr"
  utf16_at :: "ptr \<Rightarrow> string"
  word_at :: "ptr \<Rightarrow> ptr"
  double_at :: "ptr \<Rightarrow> real option"

text \<open>The constants of the file.\<close>

definition slot_element_from_handle :: nat where "slot_element_from_handle = 6"
definition slot_get_focused_element :: nat where "slot_get_focused_element = 8"
definition slot_create_property_condition :: nat where "slot_create_property_condition = 23"
definition slot_find_first :: nat where "slot_find_first = 5"
definition slot_get_current_property :: nat where "slot_get_current_property = 10"

definition automation_id_property :: nat where "automation_id_property = 10011"
definition value_property :: nat where "value_property = 30045"
definition bounding_rectangle_property :: nat where "bounding_rectangle_property = 30001"
definition is_password_property :: nat where "is_password_property = 30003"
definition tree_scope_descendants :: nat where "tree_scope_descendants = 4"

definition vt_bstr :: nat where "vt_bstr = 8"
definition vt_bool :: nat where "vt_bool = 11"
definition vt_r8 :: nat where "vt_r8 = 5"
definition vt_array :: nat where "vt_array = 0x2000"

section \<open>The shared prologue and property reads\<close>

text \<open>
  Every query initialises COM on the thread, creates the automation object and gives both back at the
  end. An initialisation that answers 1 (\<open>S_FALSE\<close>) counts as well, but is never undone.
\<close>

definition with_automation :: "uia_env \<Rightarrow> 'a \<Rightarrow> (ptr \<Rightarrow> 'a \<times> com_event list) \<Rightarrow> 'a \<times> com_event list" where
  "with_automation e failed body =
     (let hr = co_initialize e in
      if hr \<noteq> 0 \<and> hr \<noteq> 1 then (failed, [])
      else
        (let uninit = (if hr = 0 then [Closes ComInit] else []) in
         case co_create_instance e of (hr, p) \<Rightarrow>
           if hr \<noteq> 0 \<or> p = 0 then (failed, Opens ComInit # uninit)
           else (case body p of (r, es) \<Rightarrow> (r, Opens ComInit # (Opens (Ref p) # es @ com_release p) @ uninit))))"

text \<open>An object returned by a call of method \<open>slot\<close> of \<open>owner\<close>, released when the rest is done.\<close>

definition with_object ::
  "ptr \<Rightarrow> nat \<Rightarrow> 64 word \<times> ptr \<Rightarrow> 'a \<Rightarrow> (ptr \<Rightarrow> 'a \<times> com_event list) \<Rightarrow> 'a \<times> com_event list" where
  "with_object owner slot answer failed body =
     (case answer of (hr, p) \<Rightarrow>
        if hr \<noteq> 0 \<or> p = 0 then (failed, [Calls owner slot])
        else (case body p of (r, es) \<Rightarrow> (r, Calls owner slot # Opens (Ref p) # es @ com_release p)))"

definition with_property ::
  "uia_env \<Rightarrow> ptr \<Rightarrow> nat \<Rightarrow> 'a \<Rightarrow> (variant \<Rightarrow> 'a \<times> com_event list) \<Rightarrow> 'a \<times> com_event list" where
  "with_property e p prop failed body =
     (case current_property e p prop of (hr, v) \<Rightarrow>
        if hr \<noteq> 0 then (failed, [Calls p slot_get_current_property])
        else (case body v of (r, es) \<Rightarrow>
                (r, Calls p slot_get_current_property # Opens (Variant p prop) # es @ [Closes (Variant p prop)])))"

section \<open>The queries\<close>

definition uia_find_value_by_auto_id :: "uia_env \<Rightarrow> ptr \<Rightarrow> ptr \<Rightarrow> string \<Rightarrow> string \<times> com_event list" where
  "uia_find_value_by_auto_id e uia proot auto_id =
     (let bstr = sys_alloc_string e auto_id in
      if bstr = 0 then ([], [])
      else
        (case with_object uia slot_create_property_condition (create_property_condition e automation_id_property bstr) []
                (\<lambda>cond. with_object proot slot_find_first (find_first e proot tree_scope_descendants cond) []
                  (\<lambda>found. with_property e found value_property []
                    (\<lambda>v. (if vt v \<noteq> vt_bstr \<or> vdata v = 0 then [] else utf16_at e (vdata v), [])))) of
           (r, es) \<Rightarrow> (r, Opens (Bstr bstr) # es @ [Closes (Bstr bstr)])))"

definition address_bar_ids :: "string list" where
  "address_bar_ids = [''urlbar-input'', ''addressEditBox'']"

fun first_value :: "uia_env \<Rightarrow> ptr \<Rightarrow> ptr \<Rightarrow> string list \<Rightarrow> string \<times> com_event list" where
  "first_value e uia proot [] = ([], [])"
| "first_value e uia proot (i # is) =
     (case uia_find_value_by_auto_id e uia proot i of
        (url, es) \<Rightarrow> if url \<noteq> [] then (url, es) else (case first_value e uia proot is of (r, fs) \<Rightarrow> (r, es @ fs)))"

definition query_browser_url_via_uia :: "uia_env \<Rightarrow> nat \<Rightarrow> string \<times> com_event list" where
  "query_browser_url_via_uia e win =
     with_automation e []
       (\<lambda>uia. with_object uia slot_element_from_handle (element_from_handle e win) []
         (\<lambda>proot. first_value e uia proot address_bar_ids))"

text \<open>\<open>int16(val.data) == -1\<close> on a variant that holds a \<open>VARIANT_BOOL\<close>.\<close>

definition variant_true :: "variant \<Rightarrow> bool" where
  "variant_true v \<longleftrightarrow> vt v = vt_bool \<and> (ucast (vdata v) :: 16 word) = - 1"

definition query_focused_is_password :: "uia_env \<Rightarrow> bool \<times> com_event list" where
  "query_focused_is_password e =
     with_automation e False
       (\<lambda>uia. with_object uia slot_get_focused_element (get_focused_element e) False
         (\<lambda>focused. with_property e focused is_password_property False (\<lambda>v. (variant_true v, []))))"

text \<open>
  The rectangle of a focused password field: \<open>None\<close> when no password field has the focus. The four
  numbers are read through the pointer at offset 24 of the array; the outer \<open>None\<close> is a read of
  unmapped memory.
\<close>

definition read_rect :: "uia_env \<Rightarrow> variant \<Rightarrow> (real \<times> real \<times> real \<times> real) option" where
  "read_rect e v =
     (if vt v = vt_array + vt_r8 \<and> vdata v \<noteq> 0 then
        (let d = word_at e (vdata v + 24) in
         if d \<noteq> 0 then
           (case (double_at e d, double_at e (d + 8), double_at e (d + 16), double_at e (d + 24)) of
              (Some l, Some t, Some w, Some h) \<Rightarrow> Some (l, t, w, h)
            | _ \<Rightarrow> None)
         else Some (0, 0, 0, 0))
      else Some (0, 0, 0, 0))"

definition query_focused_password_rect :: "uia_env \<Rightarrow> (real \<times> real \<times> real \<times> real) option option \<times> com_event list" where
  "query_focused_password_rect e =
     with_automation e (Some None)
       (\<lambda>uia. with_object uia slot_get_focused_element (get_focused_element e) (Some None)
         (\<lambda>focused. with_property e focused is_password_property (Some None)
           (\<lambda>v. if \<not> variant_true v then (Some None, [])
                else with_property e focused bounding_rectangle_property (Some (Some (0, 0, 0, 0)))
                       (\<lambda>r. (map_option Some (read_rect e r), [])))))"

section \<open>The desktop the gate sees\<close>

definition observed :: "uia_env \<Rightarrow> windows_desktop \<Rightarrow> windows_desktop" where
  "observed e w = w\<lparr>uia_url := fst (query_browser_url_via_uia e (foreground w)),
                    focused_is_password := fst (query_focused_is_password e)\<rparr>"

section \<open>Lemmas\<close>

lemma with_object_clean:
  assumes "Ref owner \<in># h" "\<And>p. p \<noteq> 0 \<Longrightarrow> clean (add_mset (Ref p) h) (snd (body p))"
  shows "clean h (snd (with_object owner slot answer failed body))"
  using assms clean_ref by (simp add: with_object_def case_prod_beta)

lemma with_property_clean:
  assumes "Ref p \<in># h" "\<And>v. clean (add_mset (Variant p prop) h) (snd (body v))"
  shows "clean h (snd (with_property e p prop failed body))"
  using assms clean_bracket by (simp add: with_property_def case_prod_beta)

lemma with_automation_log:
  assumes "\<And>p. p \<noteq> 0 \<Longrightarrow> clean {#Ref p, ComInit#} (snd (body p))"
  shows "run_log (snd (with_automation e failed body)) {#} = Some (if co_initialize e = 1 then {#ComInit#} else {#})"
proof -
  have "run_log ((Opens (Ref p) # snd (body p) @ com_release p) @ es) {#ComInit#} = run_log es {#ComInit#}"
    if "p \<noteq> 0" for p es
  proof -
    have a: "run_log (Opens (Ref p) # snd (body p) @ com_release p) {#ComInit#} = Some {#ComInit#}"
      using clean_ref [OF that assms [OF that]] by (simp add: clean_def)
    show ?thesis unfolding run_log_append a by simp
  qed
  from this this [of _ "[]"] show ?thesis by (simp add: with_automation_def Let_def case_prod_beta)
qed

lemma first_value_clean:
  assumes "Ref uia \<in># h" "Ref proot \<in># h"
  shows "clean h (snd (first_value e uia proot is))"
proof (induction "is")
  case (Cons i "is")
  have "clean h (snd (uia_find_value_by_auto_id e uia proot i))"
  proof -
    have "clean (add_mset (Bstr b) h) (snd (with_object uia slot_create_property_condition (create_property_condition e automation_id_property b) []
        (\<lambda>cond. with_object proot slot_find_first (find_first e proot tree_scope_descendants cond) []
          (\<lambda>found. with_property e found value_property []
            (\<lambda>v. (if vt v \<noteq> vt_bstr \<or> vdata v = 0 then [] else utf16_at e (vdata v), []))))))" for b
      using assms by (intro with_object_clean with_property_clean) auto
    from clean_bracket [OF this] show ?thesis
      by (simp add: uia_find_value_by_auto_id_def Let_def case_prod_beta)
  qed
  then show ?case using Cons clean_append by (simp add: case_prod_beta)
qed simp


lemma query_logs:
  fixes e :: uia_env
  defines "left \<equiv> (if co_initialize e = 1 then {#ComInit#} else {#})"
  shows "run_log (snd (query_browser_url_via_uia e win)) {#} = Some left"
    "run_log (snd (query_focused_is_password e)) {#} = Some left"
    "run_log (snd (query_focused_password_rect e)) {#} = Some left"
  unfolding left_def query_browser_url_via_uia_def query_focused_is_password_def query_focused_password_rect_def
  by (intro with_automation_log with_object_clean first_value_clean; simp)
    (intro with_automation_log with_object_clean with_property_clean; auto intro: with_property_clean)+

section \<open>Properties\<close>

text \<open>
  C37. The COM pointers: whatever Windows answers, each of the three queries calls methods only on objects
  it holds, and has released every object, string and variant it got when it returns. What is left is the
  initialisation of the thread when \<open>CoInitializeEx\<close> answers \<open>S_FALSE\<close>, which is never undone, and nothing otherwise.
\<close>

theorem uia_queries_release_all:
  "let left = (if co_initialize e = 1 then {#ComInit#} else {#})
   in run_log (snd (query_browser_url_via_uia e win)) {#} = Some left
     \<and> run_log (snd (query_focused_is_password e)) {#} = Some left
     \<and> run_log (snd (query_focused_password_rect e)) {#} = Some left"
  unfolding Let_def using query_logs [of e] by simp

text \<open>An automation that finds a focused element and answers the control type of an edit field for it.\<close>

definition edit_field :: uia_env where
  "edit_field = \<lparr>co_initialize = 0, co_create_instance = (0, 64), element_from_handle = (\<lambda>_. (0, 72)),
     get_focused_element = (0, 80), current_property = (\<lambda>p i. (0, \<lparr>vt = 3, vdata = 50004\<rparr>)),
     sys_alloc_string = (\<lambda>_. 96), create_property_condition = (\<lambda>i b. (0, 104)), find_first = (\<lambda>p i c. (0, 112)),
     utf16_at = (\<lambda>_. []), word_at = (\<lambda>_. 4), double_at = (\<lambda>_. None)\<rparr>"

theorem uia_queries_release_all_witness:
  "run_log (snd (query_browser_url_via_uia edit_field 1)) {#} = Some {#}
   \<and> Calls 80 slot_get_current_property \<in> set (snd (query_focused_is_password edit_field))"
proof -
  have "co_initialize edit_field \<noteq> 1" by (simp add: edit_field_def)
  then have "run_log (snd (query_browser_url_via_uia edit_field 1)) {#} = Some {#}"
    using uia_queries_release_all [of edit_field 1] by simp
  then show ?thesis
    by (simp add: query_focused_is_password_def with_automation_def with_object_def with_property_def edit_field_def)
qed

text \<open>
  A thread that was initialised before answers \<open>S_FALSE\<close>, which counts as an initialisation; the
  queries do not undo it.
\<close>

theorem s_false_never_undone:
  assumes "co_initialize e = 1"
  shows "run_log (snd (query_focused_is_password e)) {#} = Some {#ComInit#}"
  using assms query_logs(2) [of e] by simp

text \<open>
  C38. The password field is never seen. Property 30003, which the code asks for, is the control type in
  \<open>UIAutomationClient.h\<close> (\<open>UIA_IsPasswordPropertyId\<close> is 30019), an integer and never a Boolean.
  So the focused field never counts as a password field: the gate decides as if nothing had the
  focus, and no rectangle is masked.
\<close>

theorem password_never_detected:
  assumes "\<forall>p v. current_property e p 30003 = (0, v) \<longrightarrow> vt v = 3"
  shows "\<not> fst (query_focused_is_password e) \<and> fst (query_focused_password_rect e) = Some None
     \<and> check_windows um g (observed e w) = check_windows um g ((observed e w)\<lparr>focused_is_password := False\<rparr>)"
proof -
  have v: "\<not> variant_true (snd (current_property e p 30003))" if "fst (current_property e p 30003) = 0" for p
    using assms that by (cases "current_property e p 30003") (auto simp: variant_true_def vt_bool_def)
  have "\<not> fst (query_focused_is_password e)"
    using v by (simp add: query_focused_is_password_def with_automation_def with_object_def with_property_def
        is_password_property_def Let_def case_prod_beta)
  moreover have "fst (query_focused_password_rect e) = Some None"
    using v by (simp add: query_focused_password_rect_def with_automation_def with_object_def with_property_def
        is_password_property_def Let_def case_prod_beta)
  ultimately show ?thesis by (simp add: observed_def)
qed

theorem password_never_detected_witness:
  "\<not> fst (query_focused_is_password edit_field)
   \<and> \<not> gr_blocked (check_windows id (new_gate (default_blocklist id)) (observed edit_field notes_desktop))"
proof -
  have h: "\<forall>p v. current_property edit_field p 30003 = (0, v) \<longrightarrow> vt v = 3" by (simp add: edit_field_def)
  let ?g = "new_gate (default_blocklist id)"
  have url: "fst (query_browser_url_via_uia edit_field n) = []" for n
    by (simp add: query_browser_url_via_uia_def with_automation_def with_object_def with_property_def
        uia_find_value_by_auto_id_def address_bar_ids_def edit_field_def vt_bstr_def Let_def)
  have "\<not> fst (query_focused_is_password edit_field)"
    and same: "check_windows id ?g (observed edit_field notes_desktop)
      = check_windows id ?g ((observed edit_field notes_desktop)\<lparr>focused_is_password := False\<rparr>)"
    using password_never_detected [OF h] by blast+
  moreover have "(observed edit_field notes_desktop)\<lparr>focused_is_password := False\<rparr> = notes_desktop"
    by (simp add: observed_def url notes_desktop_def)
  moreover have "query_visible_background_processes_windows id notes_desktop = []"
    by (simp add: query_visible_background_processes_windows_def notes_desktop_def)
  ultimately show ?thesis using notepad_passes
    by (simp add: check_windows_def check_gate_def gate_check_def new_gate_def notepad_md Let_def)
qed

text \<open>
  Were it seen, the rectangle would not be read: in a 64-bit \<open>SAFEARRAY\<close> the data pointer is at offset
  16 and the bounds are at offset 24, so the code follows the bounds, the number 4, as a pointer
  into the first page, which is never mapped.
\<close>

theorem password_rect_read_crashes:
  assumes "vt r = vt_array + vt_r8" "vdata r \<noteq> 0" "word_at e (vdata r + 24) = 4" "\<forall>a < 65536. double_at e a = None"
  shows "read_rect e r = None"
  using assms by (simp add: read_rect_def)

end
