(* ===== verification/Dxgi.thy ===== *)
theory Dxgi
  imports Com Capture
begin

text \<open>
  \<open>internal/capture/dxgi_windows.go\<close>: a duplication session on the first output, from the COM calls
  that open it to those of one frame, and the capturer around it. The answers of the methods are
  the record \<open>dxgi_env\<close>. The lemmas show what is released on every path and what is lost when Windows hands
  over less than its documentation says, that the code classifies the answers of a frame as
  documented and so implements the session of the capture loop of \<open>Capture\<close>, and where the
  copied pixels come from.
\<close>

section \<open>Answers and sessions\<close>

datatype iid = IDXGIDevice | IDXGIOutput1 | ID3D11Texture2D

record dxgi_env =
  create_device :: "64 word \<times> ptr \<times> ptr"
  query_interface :: "ptr \<Rightarrow> iid \<Rightarrow> 64 word \<times> ptr"
  get_adapter :: "ptr \<Rightarrow> 64 word \<times> ptr"
  enum_outputs :: "ptr \<Rightarrow> nat \<Rightarrow> 64 word \<times> ptr"
  duplicate_output :: "ptr \<Rightarrow> ptr \<Rightarrow> 64 word \<times> ptr"
  screen_size :: "int \<times> int"
  acquire_next_frame :: "ptr \<Rightarrow> 64 word \<times> ptr"
  create_texture :: "ptr \<Rightarrow> int \<Rightarrow> int \<Rightarrow> 64 word \<times> ptr"
  map_texture :: "ptr \<Rightarrow> ptr \<Rightarrow> 64 word \<times> ptr \<times> 32 word"
  byte_at :: "ptr \<Rightarrow> byte"

record session =
  p_device :: ptr
  p_ctx :: ptr
  p_dupl :: ptr
  s_width :: int
  s_height :: int

definition slot_query_interface :: nat where "slot_query_interface = 0"
definition slot_create_texture :: nat where "slot_create_texture = 5"
definition slot_map :: nat where "slot_map = 14"
definition slot_unmap :: nat where "slot_unmap = 15"
definition slot_copy_resource :: nat where "slot_copy_resource = 36"
definition slot_get_adapter :: nat where "slot_get_adapter = 7"
definition slot_enum_outputs :: nat where "slot_enum_outputs = 7"
definition slot_duplicate_output :: nat where "slot_duplicate_output = 22"
definition slot_acquire_next_frame :: nat where "slot_acquire_next_frame = 8"
definition slot_release_frame :: nat where "slot_release_frame = 14"

definition error_access_lost :: "64 word" where "error_access_lost = 0x887A0026"
definition error_wait_timeout :: "64 word" where "error_wait_timeout = 0x887A0027"

section \<open>Opening a session\<close>

text \<open>
  One step of the opening sequence: the answer of a method, a failure that releases the device and
  its context before the deferred releases run, or the rest of the sequence and the deferred
  release of the object.
\<close>

definition open_step ::
  "ptr \<Rightarrow> ptr \<Rightarrow> ptr \<Rightarrow> nat \<Rightarrow> string \<Rightarrow> 64 word \<times> ptr \<Rightarrow> (ptr \<Rightarrow> (string + session) \<times> com_event list)
     \<Rightarrow> (string + session) \<times> com_event list" where
  "open_step dev ctx owner meth what answer body =
     (case answer of (hr, p) \<Rightarrow>
        if hr \<noteq> 0 \<or> p = 0 then (Inl what, Calls owner meth # com_release ctx @ com_release dev)
        else (case body p of (r, es) \<Rightarrow> (r, Calls owner meth # Opens (Ref p) # es @ com_release p)))"

text \<open>What \<open>D3D11CreateDevice\<close> hands over; with one pointer alone the function returns and keeps it.\<close>

definition device_refs :: "64 word \<Rightarrow> ptr \<Rightarrow> ptr \<Rightarrow> com_event list" where
  "device_refs hr dev ctx =
     (if hr = 0 then (if dev = 0 then [] else [Opens (Ref dev)]) @ (if ctx = 0 then [] else [Opens (Ref ctx)]) else [])"

definition open_session :: "dxgi_env \<Rightarrow> nat \<Rightarrow> (string + session) \<times> com_event list" where
  "open_session e idx =
     (case create_device e of (hr, dev, ctx) \<Rightarrow>
        if hr \<noteq> 0 \<or> dev = 0 \<or> ctx = 0 then (Inl ''D3D11CreateDevice failed'', device_refs hr dev ctx)
        else
          (case open_step dev ctx dev slot_query_interface ''QueryInterface(IDXGIDevice) failed'' (query_interface e dev IDXGIDevice)
             (\<lambda>dxgi. open_step dev ctx dxgi slot_get_adapter ''IDXGIDevice.GetAdapter failed'' (get_adapter e dxgi)
               (\<lambda>adapter. open_step dev ctx adapter slot_enum_outputs ''IDXGIAdapter.EnumOutputs failed'' (enum_outputs e adapter idx)
                 (\<lambda>output. open_step dev ctx output slot_query_interface ''QueryInterface(IDXGIOutput1) failed'' (query_interface e output IDXGIOutput1)
                   (\<lambda>output1.
                      (case duplicate_output e output1 dev of (hr, dupl) \<Rightarrow>
                         if hr \<noteq> 0 \<or> dupl = 0
                         then (Inl ''IDXGIOutput1.DuplicateOutput failed'',
                               Calls output1 slot_duplicate_output # com_release ctx @ com_release dev)
                         else (Inr \<lparr>p_device = dev, p_ctx = ctx, p_dupl = dupl,
                                    s_width = fst (screen_size e), s_height = snd (screen_size e)\<rparr>,
                               [Calls output1 slot_duplicate_output, Opens (Ref dupl)])))))) of
             (r, es) \<Rightarrow> (r, device_refs hr dev ctx @ es)))"

definition close_session :: "session \<Rightarrow> session \<times> com_event list" where
  "close_session s = (s\<lparr>p_dupl := 0, p_ctx := 0, p_device := 0\<rparr>,
     com_release (p_dupl s) @ com_release (p_ctx s) @ com_release (p_device s))"

section \<open>One frame\<close>

text \<open>The rows of the mapped texture, BGRA; addresses wrap around at 64 bits.\<close>

definition mapped_image :: "dxgi_env \<Rightarrow> ptr \<Rightarrow> 32 word \<Rightarrow> session \<Rightarrow> image" where
  "mapped_image e d pitch s =
     \<lparr>bounds = image_rect 0 0 (s_width s) (s_height s),
      pix = (\<lambda>x y. let a = d + of_int (y * int (unat pitch)) + of_int (4 * x)
                   in \<lparr>red = byte_at e (a + 2), green = byte_at e (a + 1), blue = byte_at e a, alpha = 255\<rparr>)\<rparr>"

definition with_ref :: "ptr \<Rightarrow> nat \<Rightarrow> string \<Rightarrow> 64 word \<times> ptr \<Rightarrow> (ptr \<Rightarrow> dxgi_answer \<times> com_event list)
    \<Rightarrow> dxgi_answer \<times> com_event list" where
  "with_ref owner meth what answer body =
     (case answer of (hr, p) \<Rightarrow>
        if hr \<noteq> 0 \<or> p = 0 then (DxgiError what, [Calls owner meth])
        else (case body p of (r, es) \<Rightarrow> (r, Calls owner meth # Opens (Ref p) # es @ com_release p)))"

text \<open>
  \<open>CaptureFrame\<close>; \<open>None\<close> is the read through the null pointer of a closed session. A frame acquired
  without its resource, and a texture mapped to the null address, are not given back.
\<close>

definition session_frame :: "dxgi_env \<Rightarrow> session \<Rightarrow> (dxgi_answer \<times> com_event list) option" where
  "session_frame e s =
     (if p_dupl s = 0 then None
      else
        (case acquire_next_frame e (p_dupl s) of (hr, res) \<Rightarrow>
           let call = Calls (p_dupl s) slot_acquire_next_frame in
           if hr = error_wait_timeout then Some (WaitTimeout, [call])
           else if hr = error_access_lost then Some (AccessLost, [call])
           else if hr \<noteq> 0 \<or> res = 0
           then Some (DxgiError ''AcquireNextFrame failed'', call # (if hr = 0 then [Opens (FrameOf (p_dupl s))] else []))
           else
             (case with_ref res slot_query_interface ''QueryInterface(ID3D11Texture2D) failed'' (query_interface e res ID3D11Texture2D)
                (\<lambda>src. with_ref (p_device s) slot_create_texture ''CreateTexture2D(staging) failed''
                  (create_texture e (p_device s) (s_width s) (s_height s))
                  (\<lambda>staging.
                     (case map_texture e (p_ctx s) staging of (hr, d, pitch) \<Rightarrow>
                        let copy = [Calls (p_ctx s) slot_copy_resource, Calls (p_ctx s) slot_map] in
                        if hr \<noteq> 0 \<or> d = 0
                        then (DxgiError ''ID3D11DeviceContext.Map failed'', copy @ (if hr = 0 then [Opens (Mapping staging)] else []))
                        else (DxgiImage (mapped_image e d pitch s),
                              copy @ [Opens (Mapping staging), Calls (p_ctx s) slot_unmap, Closes (Mapping staging)])))) of
                (r, es) \<Rightarrow>
                  Some (r, call # Opens (Ref res) # (Opens (FrameOf (p_dupl s)) # es
                             @ [Calls (p_dupl s) slot_release_frame, Closes (FrameOf (p_dupl s))]) @ com_release res))))"

section \<open>The capturer\<close>

definition capturer_frame :: "dxgi_env \<Rightarrow> dxgi_env \<Rightarrow> session \<Rightarrow> (session \<times> (string + image option) \<times> com_event list) option" where
  "capturer_frame e reopen s =
     (case session_frame e s of
        None \<Rightarrow> None
      | Some (AccessLost, es) \<Rightarrow>
          (case close_session s of (s1, fs) \<Rightarrow>
             (case open_session reopen 0 of
                (Inl err, gs) \<Rightarrow> Some (s1, Inl ''DXGI reinit failed'', es @ fs @ gs)
              | (Inr s2, gs) \<Rightarrow> Some (s2, Inr None, es @ fs @ gs)))
      | Some (WaitTimeout, es) \<Rightarrow> Some (s, Inr None, es)
      | Some (DxgiError err, es) \<Rightarrow> Some (s, Inl err, es)
      | Some (DxgiImage im, es) \<Rightarrow> Some (s, Inr (Some im), es))"

text \<open>
  The frames of a session, one pair of environments for each tick; without a session at the end the
  process has crashed. A session's life is its opening, its frames, and \<open>Close\<close> when the capturer is stopped.
\<close>

fun capturer_run :: "(dxgi_env \<times> dxgi_env) list \<Rightarrow> session \<Rightarrow> session option \<times> com_event list" where
  "capturer_run [] s = (Some s, [])"
| "capturer_run ((e, r) # ts) s =
     (case capturer_frame e r s of
        None \<Rightarrow> (None, [])
      | Some (s1, _, es) \<Rightarrow> (case capturer_run ts s1 of (x, fs) \<Rightarrow> (x, es @ fs)))"

definition session_life :: "dxgi_env \<Rightarrow> nat \<Rightarrow> (dxgi_env \<times> dxgi_env) list \<Rightarrow> com_event list" where
  "session_life e0 i ts =
     (case open_session e0 i of
        (Inl _, es) \<Rightarrow> es
      | (Inr s, es) \<Rightarrow>
          (case capturer_run ts s of
             (None, fs) \<Rightarrow> es @ fs
           | (Some s1, fs) \<Rightarrow> es @ fs @ snd (close_session s1)))"

section \<open>What the answers mean\<close>

text \<open>
  The outcome of a frame as the documentation of \<open>AcquireNextFrame\<close> and the comment of
  \<open>CaptureFrame\<close> have it: the two error codes by their numbers, otherwise the first of the four calls
  that fails or delivers nothing, otherwise the image, whose pixel (x, y) is the four bytes of the
  texture, blue first, at its place in row y.
\<close>

definition abs_session :: "session \<Rightarrow> dxgi_session" where
  "abs_session s = (if p_dupl s = 0 then DxgiClosed else DxgiOpen)"

definition first_failure :: "(string \<times> 64 word \<times> ptr) list \<Rightarrow> string option" where
  "first_failure calls = map_option fst (List.find (\<lambda>(what, hr, p). hr \<noteq> 0 \<or> p = 0) calls)"

definition bgra_at :: "dxgi_env \<Rightarrow> ptr \<Rightarrow> int \<Rightarrow> rgba" where
  "bgra_at e base off =
     (let cell = (\<lambda>k. byte_at e (base + of_int (off + k)))
      in \<lparr>red = cell 2, green = cell 1, blue = cell 0, alpha = 255\<rparr>)"

definition dxgi_outcome :: "dxgi_env \<Rightarrow> session \<Rightarrow> dxgi_answer" where
  "dxgi_outcome e s =
     (let acquired = acquire_next_frame e (p_dupl s);
          texture = query_interface e (snd acquired) ID3D11Texture2D;
          staging = create_texture e (p_device s) (s_width s) (s_height s);
          mapped = map_texture e (p_ctx s) (snd staging)
      in if fst acquired = 0x887A0027 then WaitTimeout
         else if fst acquired = 0x887A0026 then AccessLost
         else (case first_failure
                 [(''AcquireNextFrame failed'', acquired), (''QueryInterface(ID3D11Texture2D) failed'', texture),
                  (''CreateTexture2D(staging) failed'', staging),
                  (''ID3D11DeviceContext.Map failed'', fst mapped, fst (snd mapped))] of
                 Some what \<Rightarrow> DxgiError what
               | None \<Rightarrow> DxgiImage
                   \<lparr>bounds = image_rect 0 0 (s_width s) (s_height s),
                    pix = (\<lambda>x y. bgra_at e (fst (snd mapped)) (y * int (unat (snd (snd mapped))) + 4 * x))\<rparr>))"

text \<open>A session can be opened when each of the six calls delivers what it is asked for.\<close>

definition dxgi_opens :: "dxgi_env \<Rightarrow> nat \<Rightarrow> bool" where
  "dxgi_opens e i =
     (case create_device e of (hr, dev, ctx) \<Rightarrow>
        let dxgi = query_interface e dev IDXGIDevice;
            adapter = get_adapter e (snd dxgi);
            out = enum_outputs e (snd adapter) i;
            out1 = query_interface e (snd out) IDXGIOutput1;
            dupl = duplicate_output e (snd out1) dev
        in list_all (\<lambda>(hr, p). hr = 0 \<and> p \<noteq> 0) [(hr, dev), (hr, ctx), dxgi, adapter, out, out1, dupl])"

text \<open>
  What a call that returned 0 handed over without the rest it was asked for: one of device and
  context alone, a frame without its resource, a mapping without an address.
\<close>

definition incomplete_answers :: "dxgi_env \<Rightarrow> com_resource set" where
  "incomplete_answers e =
     (case create_device e of (hr, dev, ctx) \<Rightarrow> if hr = 0 \<and> (dev = 0 \<or> ctx = 0) then {Ref dev, Ref ctx} else {})
     \<union> {FrameOf p | p. acquire_next_frame e p = (0, 0)}
     \<union> {Mapping t | t. \<exists>c pitch. map_texture e c t = (0, 0, pitch)}"

text \<open>What a session holds: its three interfaces, or nothing once it is closed.\<close>

definition session_refs :: "session \<Rightarrow> com_resource multiset" where
  "session_refs s = (if p_dupl s = 0 then {#} else {#Ref (p_device s), Ref (p_ctx s), Ref (p_dupl s)#})"

definition session_ok :: "session \<Rightarrow> bool" where
  "session_ok s \<longleftrightarrow> (p_dupl s = 0 \<longleftrightarrow> p_device s = 0) \<and> (p_dupl s = 0 \<longleftrightarrow> p_ctx s = 0)"

section \<open>Lemmas\<close>

lemma with_ref_leaves:
  assumes "Ref owner \<in># h" "\<And>p. p \<noteq> 0 \<Longrightarrow> leaves L (add_mset (Ref p) h) (snd (body p))"
  shows "leaves L h (snd (with_ref owner meth what answer body))"
  using assms leaves_ref by (simp add: with_ref_def case_prod_beta)

text \<open>
  A step of the opening sequence holds the device, its context and the objects \<open>k\<close> before it; at its
  end \<open>k\<close> is left, with the references of the session when one was opened.
\<close>

definition step_ok :: "ptr \<Rightarrow> ptr \<Rightarrow> com_resource multiset \<Rightarrow> (string + session) \<times> com_event list \<Rightarrow> bool" where
  "step_ok dev ctx k x \<longleftrightarrow> run_log (snd x) (k + {#Ref dev, Ref ctx#})
      = Some (k + (case fst x of Inl _ \<Rightarrow> {#} | Inr s \<Rightarrow> session_refs s))"

lemma open_step_ok:
  assumes "dev \<noteq> 0" "ctx \<noteq> 0" "Ref owner \<in># k + {#Ref dev, Ref ctx#}"
    and body: "\<And>p. p \<noteq> 0 \<Longrightarrow> step_ok dev ctx (add_mset (Ref p) k) (body p)"
  shows "step_ok dev ctx k (open_step dev ctx owner meth what answer body)"
proof -
  have "run_log (snd (body p) @ com_release p) (add_mset (Ref p) (k + {#Ref dev, Ref ctx#}))
      = Some (k + (case fst (body p) of Inl _ \<Rightarrow> {#} | Inr s \<Rightarrow> session_refs s))" if "p \<noteq> 0" for p
    using body [OF that] that by (simp add: step_ok_def run_log_append com_release_def add_mset_commute)
  then show ?thesis using assms(1-3) by (simp add: step_ok_def open_step_def case_prod_beta com_release_def)
qed

lemma open_session_log:
  obtains k where "run_log (snd (open_session e i)) {#} = Some ((case fst (open_session e i) of Inl _ \<Rightarrow> {#} | Inr s \<Rightarrow> session_refs s) + k)"
    "set_mset k \<subseteq> incomplete_answers e"
proof -
  obtain hr dev ctx where d: "create_device e = (hr, dev, ctx)" by (cases "create_device e") auto
  show thesis
  proof (cases "hr \<noteq> 0 \<or> dev = 0 \<or> ctx = 0")
    case True
    let ?k = "if hr = 0 then (if dev = 0 then {#} else {#Ref dev#}) + (if ctx = 0 then {#} else {#Ref ctx#}) else {#}"
    have "set_mset ?k \<subseteq> incomplete_answers e" using True by (auto simp: incomplete_answers_def d)
    moreover have "run_log (snd (open_session e i)) {#} = Some ((case fst (open_session e i) of Inl _ \<Rightarrow> {#} | Inr s \<Rightarrow> session_refs s) + ?k)"
      using True by (auto simp: open_session_def d device_refs_def add_mset_commute)
    ultimately show thesis by (rule that [rotated])
  next
    case False
    let ?dup = "\<lambda>output1.
       (case duplicate_output e output1 dev of (hr, dupl) \<Rightarrow>
          if hr \<noteq> 0 \<or> dupl = 0
          then (Inl ''IDXGIOutput1.DuplicateOutput failed'', Calls output1 slot_duplicate_output # com_release ctx @ com_release dev)
          else (Inr \<lparr>p_device = dev, p_ctx = ctx, p_dupl = dupl, s_width = fst (screen_size e), s_height = snd (screen_size e)\<rparr>,
                [Calls output1 slot_duplicate_output, Opens (Ref dupl)]))"
    have dup: "step_ok dev ctx (add_mset (Ref p) k) (?dup p)" for p k
      using False by (simp add: step_ok_def case_prod_beta com_release_def session_refs_def)
    have "step_ok dev ctx {#} (open_step dev ctx dev slot_query_interface ''QueryInterface(IDXGIDevice) failed'' (query_interface e dev IDXGIDevice)
             (\<lambda>dxgi. open_step dev ctx dxgi slot_get_adapter ''IDXGIDevice.GetAdapter failed'' (get_adapter e dxgi)
               (\<lambda>adapter. open_step dev ctx adapter slot_enum_outputs ''IDXGIAdapter.EnumOutputs failed'' (enum_outputs e adapter i)
                 (\<lambda>output. open_step dev ctx output slot_query_interface ''QueryInterface(IDXGIOutput1) failed'' (query_interface e output IDXGIOutput1) ?dup))))"
      (is "step_ok dev ctx {#} ?x")
      using False by (intro open_step_ok dup) auto
    moreover have "open_session e i = (fst ?x, device_refs hr dev ctx @ snd ?x)"
      using False unfolding open_session_def d by (simp only: prod.case if_False simp_thms) (simp only: case_prod_beta)
    moreover have "device_refs hr dev ctx = [Opens (Ref dev), Opens (Ref ctx)]" using False by (simp add: device_refs_def)
    ultimately show thesis by (intro that [of "{#}"]) (simp_all add: step_ok_def add_mset_commute)
  qed
qed

lemma session_frame_leaves:
  assumes "session_frame e s = Some (a, es)"
  shows "leaves (incomplete_answers e) (session_refs s) es"
proof -
  let ?h = "session_refs s" and ?L = "incomplete_answers e"
  have held: "p_dupl s \<noteq> 0" "Ref (p_dupl s) \<in># ?h" "Ref (p_device s) \<in># ?h" "Ref (p_ctx s) \<in># ?h"
    using assms by (auto simp: session_frame_def session_refs_def split: if_splits)
  let ?grab = "\<lambda>staging. (case map_texture e (p_ctx s) staging of (hr, d, pitch) \<Rightarrow>
      let copy = [Calls (p_ctx s) slot_copy_resource, Calls (p_ctx s) slot_map] in
      if hr \<noteq> 0 \<or> d = 0
      then (DxgiError ''ID3D11DeviceContext.Map failed'', copy @ (if hr = 0 then [Opens (Mapping staging)] else []))
      else (DxgiImage (mapped_image e d pitch s),
            copy @ [Opens (Mapping staging), Calls (p_ctx s) slot_unmap, Closes (Mapping staging)]))"
  have grab: "leaves ?L k (snd (?grab staging))" if c: "Ref (p_ctx s) \<in># k" for k staging
  proof -
    obtain hr d pitch where m: "map_texture e (p_ctx s) staging = (hr, d, pitch)" by (cases "map_texture e (p_ctx s) staging") auto
    have "Mapping staging \<in> ?L" if "hr = 0" "d = 0" using that m by (auto simp: incomplete_answers_def)
    then show ?thesis using c m leaves_bracket [of ?L "Mapping staging" k "[Calls (p_ctx s) slot_unmap]"]
      leaves_opened [of "Mapping staging" ?L k] by (simp add: Let_def)
  qed
  let ?body = "\<lambda>res. with_ref res slot_query_interface ''QueryInterface(ID3D11Texture2D) failed'' (query_interface e res ID3D11Texture2D)
      (\<lambda>src. with_ref (p_device s) slot_create_texture ''CreateTexture2D(staging) failed''
        (create_texture e (p_device s) (s_width s) (s_height s)) ?grab)"
  have body: "leaves ?L (add_mset (FrameOf (p_dupl s)) (add_mset (Ref res) ?h)) (snd (?body res))" for res
    using held by (intro with_ref_leaves grab) auto
  have frame: "leaves ?L ?h (Opens (Ref res) # (Opens (FrameOf (p_dupl s)) # snd (?body res)
      @ [Calls (p_dupl s) slot_release_frame, Closes (FrameOf (p_dupl s))]) @ com_release res)" if "res \<noteq> 0" for res
  proof (rule leaves_ref [OF that])
    have "leaves ?L (add_mset (FrameOf (p_dupl s)) (add_mset (Ref res) ?h)) (snd (?body res) @ [Calls (p_dupl s) slot_release_frame])"
      using held by (intro leaves_append body) simp
    from leaves_bracket [OF this]
    show "leaves ?L (add_mset (Ref res) ?h) (Opens (FrameOf (p_dupl s)) # snd (?body res)
      @ [Calls (p_dupl s) slot_release_frame, Closes (FrameOf (p_dupl s))])" by simp
  qed
  obtain hr res where acq: "acquire_next_frame e (p_dupl s) = (hr, res)" by fastforce
  let ?call = "Calls (p_dupl s) slot_acquire_next_frame"
  consider "hr \<in> {error_wait_timeout, error_access_lost}" | "hr \<notin> {error_wait_timeout, error_access_lost}" "hr \<noteq> 0 \<or> res = 0"
    | "hr \<notin> {error_wait_timeout, error_access_lost}" "hr = 0" "res \<noteq> 0" by blast
  then show ?thesis
  proof cases
    case 1
    then have "es = [?call]" using assms held(1) acq by (auto simp: session_frame_def Let_def split: if_splits)
    then show ?thesis using held(2) by simp
  next
    case 2
    then have "es = ?call # (if hr = 0 then [Opens (FrameOf (p_dupl s))] else [])"
      using assms held(1) acq by (simp add: session_frame_def)
    then show ?thesis
      using 2(2) held(2) acq leaves_opened [of "FrameOf (p_dupl s)" ?L ?h] by (auto simp: incomplete_answers_def)
  next
    case 3
    then have "es = ?call # Opens (Ref res) # (Opens (FrameOf (p_dupl s)) # snd (?body res)
        @ [Calls (p_dupl s) slot_release_frame, Closes (FrameOf (p_dupl s))]) @ com_release res"
      using assms held(1) acq by (simp add: session_frame_def Let_def split: prod.splits)
    then show ?thesis using held(2) frame [OF 3(3)] by (simp only: leaves_Calls)
  qed
qed

lemma open_session_ok: "fst (open_session e i) = Inr s \<Longrightarrow> session_ok s \<and> p_dupl s \<noteq> 0"
  by (auto simp: open_session_def open_step_def session_ok_def case_prod_beta split: if_splits)

lemma close_session_log: "session_ok s \<Longrightarrow> run_log (snd (close_session s)) (session_refs s) = Some {#}"
  by (cases "p_dupl s = 0") (auto simp: close_session_def session_refs_def session_ok_def com_release_def)

lemma close_session_refs: "session_refs (fst (close_session s)) = {#}" "session_ok (fst (close_session s))"
  by (simp_all add: close_session_def session_refs_def session_ok_def)

lemma capturer_frame_log:
  assumes "capturer_frame e r s = Some (s1, x, es)" "session_ok s" "incomplete_answers e \<union> incomplete_answers r \<subseteq> L"
  shows "session_ok s1 \<and> (\<exists>k. run_log es (session_refs s) = Some (session_refs s1 + k) \<and> set_mset k \<subseteq> L)"
proof -
  obtain a fs where f: "session_frame e s = Some (a, fs)"
    using assms(1) by (auto simp: capturer_frame_def split: option.splits)
  obtain k where k: "run_log fs (session_refs s) = Some (session_refs s + k)" "set_mset k \<subseteq> L"
    using session_frame_leaves [OF f] assms(3) by (auto simp: leaves_def)
  show ?thesis
  proof (cases a)
    case AccessLost
    obtain j where j: "run_log (snd (open_session r 0)) {#}
        = Some ((case fst (open_session r 0) of Inl _ \<Rightarrow> {#} | Inr s2 \<Rightarrow> session_refs s2) + j)" "set_mset j \<subseteq> incomplete_answers r"
      by (rule open_session_log)
    have "run_log (fs @ snd (close_session s) @ snd (open_session r 0)) (session_refs s)
        = Some ((case fst (open_session r 0) of Inl _ \<Rightarrow> {#} | Inr s2 \<Rightarrow> session_refs s2) + (j + k))"
      using k(1) run_log_frame [OF close_session_log [OF assms(2)], of k] run_log_frame [OF j(1), of k]
      by (simp add: run_log_append add.assoc)
    moreover have "set_mset (j + k) \<subseteq> L" using j(2) k(2) assms(3) by auto
    ultimately show ?thesis using assms(1) f AccessLost close_session_refs [of s] open_session_ok [of r 0]
      by (auto simp: capturer_frame_def split: prod.splits sum.splits)
  qed (use assms f k in \<open>auto simp: capturer_frame_def\<close>)
qed

lemma crash_holds_nothing: "capturer_frame e r s = None \<Longrightarrow> session_refs s = {#}"
  by (auto simp: capturer_frame_def session_refs_def session_frame_def Let_def
      split: option.splits prod.splits if_splits dxgi_answer.splits sum.splits)

lemma capturer_run_log:
  assumes "session_ok s" "(\<Union>x\<in>set ts. incomplete_answers (fst x) \<union> incomplete_answers (snd x)) \<subseteq> L"
    and "capturer_run ts s = (x, es)"
  shows "\<exists>k. run_log es (session_refs s) = Some ((case x of None \<Rightarrow> {#} | Some s1 \<Rightarrow> session_refs s1) + k) \<and> set_mset k \<subseteq> L"
    and "x = Some s1 \<Longrightarrow> session_ok s1"
proof -
  have "(\<exists>k. run_log es (session_refs s) = Some ((case x of None \<Rightarrow> {#} | Some s1 \<Rightarrow> session_refs s1) + k) \<and> set_mset k \<subseteq> L)
      \<and> (\<forall>s1. x = Some s1 \<longrightarrow> session_ok s1)"
    using assms
  proof (induction ts arbitrary: s es)
    case (Cons t ts)
    obtain e r where t: "t = (e, r)" by fastforce
    show ?case
    proof (cases "capturer_frame e r s")
      case None
      then have "session_refs s = {#}" by (rule crash_holds_nothing)
      then show ?thesis using Cons.prems(3) t None by auto
    next
      case (Some y)
      obtain s2 z fs where y: "y = (s2, z, fs)" by (cases y) auto
      obtain gs where g: "capturer_run ts s2 = (x, gs)" "es = fs @ gs"
        using Cons.prems(3) t Some y by (auto split: prod.splits)
      have L: "incomplete_answers e \<union> incomplete_answers r \<subseteq> L" using Cons.prems(2) t by auto
      obtain k where k: "session_ok s2" "run_log fs (session_refs s) = Some (session_refs s2 + k)" "set_mset k \<subseteq> L"
        using capturer_frame_log [OF Some [unfolded y] Cons.prems(1) L] by blast
      obtain j where j: "run_log gs (session_refs s2) = Some ((case x of None \<Rightarrow> {#} | Some s1 \<Rightarrow> session_refs s1) + j)"
        "set_mset j \<subseteq> L" "\<forall>s1. x = Some s1 \<longrightarrow> session_ok s1"
        using Cons.IH [OF k(1) _ g(1)] Cons.prems(2) by auto
      have "run_log es (session_refs s) = Some ((case x of None \<Rightarrow> {#} | Some s1 \<Rightarrow> session_refs s1) + (j + k))"
        using k(2) run_log_frame [OF j(1), of k] g(2) by (simp add: run_log_append add.assoc)
      moreover have "set_mset (j + k) \<subseteq> L" using j(2) k(3) by simp
      ultimately show ?thesis using j(3) by blast
    qed
  qed auto
  then show "\<exists>k. run_log es (session_refs s) = Some ((case x of None \<Rightarrow> {#} | Some s1 \<Rightarrow> session_refs s1) + k) \<and> set_mset k \<subseteq> L"
    "x = Some s1 \<Longrightarrow> session_ok s1" by simp_all
qed

text \<open>The code classifies the answers as the specification does.\<close>

lemma mapped_image_bgra:
  "mapped_image e d pitch s = \<lparr>bounds = image_rect 0 0 (s_width s) (s_height s),
     pix = (\<lambda>x y. bgra_at e d (y * int (unat pitch) + 4 * x))\<rparr>"
  by (simp add: mapped_image_def bgra_at_def Let_def fun_eq_iff add.assoc)

lemma session_frame_outcome:
  "map_option fst (session_frame e s) = (if p_dupl s = 0 then None else Some (dxgi_outcome e s))"
  by (simp add: session_frame_def dxgi_outcome_def first_failure_def with_ref_def mapped_image_bgra case_prod_beta
      error_wait_timeout_def error_access_lost_def Let_def)

definition opened :: "string + session \<Rightarrow> bool" where
  "opened r = (case r of Inl _ \<Rightarrow> False | Inr _ \<Rightarrow> True)"

lemma open_step_opened:
  "opened (fst (open_step dev ctx owner meth what answer body)) \<longleftrightarrow>
     fst answer = 0 \<and> snd answer \<noteq> 0 \<and> opened (fst (body (snd answer)))"
  by (simp add: open_step_def opened_def case_prod_beta)

lemma open_session_opens: "opened (fst (open_session e i)) = dxgi_opens e i"
proof -
  have n: "\<not> opened (Inl x)" "opened (Inr y)" for x y by (simp_all add: opened_def)
  show ?thesis
    by (cases "create_device e") (auto simp: open_session_def dxgi_opens_def open_step_opened n case_prod_beta Let_def)
qed

section \<open>Properties\<close>

text \<open>
  C20. No reference is lost: over the whole life of a session, from its opening, failed or not, to \<open>Close\<close>
  or to the crash on a session that could not be reopened, with every method of every tick failing in any
  way, methods are called only on objects that are held, and at the end everything that was
  obtained has been released. The only exceptions are resources Windows delivered in part against
  its documentation, returning 0: a device without its context or the reverse, a frame without its resource, a mapping
  without an address.
\<close>

theorem dxgi_releases_all:
  "\<exists>k. run_log (session_life e0 i ts) {#} = Some k
     \<and> set_mset k \<subseteq> (\<Union>e\<in>set (e0 # map fst ts @ map snd ts). incomplete_answers e)"
proof -
  let ?L = "\<Union>e\<in>set (e0 # map fst ts @ map snd ts). incomplete_answers e"
  obtain r es where o: "open_session e0 i = (r, es)" by fastforce
  obtain k where k: "run_log es {#} = Some ((case r of Inl _ \<Rightarrow> {#} | Inr s \<Rightarrow> session_refs s) + k)" "set_mset k \<subseteq> ?L"
  proof -
    obtain j where "run_log (snd (open_session e0 i)) {#}
        = Some ((case fst (open_session e0 i) of Inl _ \<Rightarrow> {#} | Inr s \<Rightarrow> session_refs s) + j)" "set_mset j \<subseteq> incomplete_answers e0"
      by (rule open_session_log)
    then show thesis using o by (intro that [of j]) auto
  qed
  show ?thesis
  proof (cases r)
    case (Inl err)
    then show ?thesis using k o by (auto simp: session_life_def)
  next
    case (Inr s)
    have ok: "session_ok s" using open_session_ok [of e0 i s] o Inr by simp
    have L: "(\<Union>x\<in>set ts. incomplete_answers (fst x) \<union> incomplete_answers (snd x)) \<subseteq> ?L" by auto
    obtain x fs where c: "capturer_run ts s = (x, fs)" by fastforce
    obtain j where j: "run_log fs (session_refs s) = Some ((case x of None \<Rightarrow> {#} | Some s1 \<Rightarrow> session_refs s1) + j)" "set_mset j \<subseteq> ?L"
      using capturer_run_log(1) [OF ok L c] by blast
    have run: "run_log (es @ fs) {#} = Some ((case x of None \<Rightarrow> {#} | Some s1 \<Rightarrow> session_refs s1) + (j + k))"
      using k(1) run_log_frame [OF j(1), of k] Inr by (simp add: run_log_append add.assoc)
    have jk: "set_mset (j + k) \<subseteq> ?L" using j(2) k(2) by simp
    show ?thesis
    proof (cases x)
      case None
      then show ?thesis using run jk o Inr c by (simp add: session_life_def)
    next
      case (Some s1)
      have "run_log (snd (close_session s1)) (session_refs s1) = Some {#}"
        using close_session_log capturer_run_log(2) [OF ok L c] Some by blast
      from run_log_frame [OF this, of "j + k"] have "run_log ((es @ fs) @ snd (close_session s1)) {#} = Some (j + k)"
        unfolding run_log_append [of "es @ fs"] run using Some by simp
      then show ?thesis using jk o Inr c Some by (simp add: session_life_def)
    qed
  qed
qed

text \<open>
  A device without its context is never given back: the function returns before its releases.
\<close>

theorem partial_device_leaks:
  assumes "create_device e = (0, dev, 0)" "dev \<noteq> 0"
  shows "run_log (session_life e i ts) {#} = Some {#Ref dev#}"
  using assms by (simp add: session_life_def open_session_def device_refs_def)

text \<open>
  C13. The capture loop of \<open>Capture\<close> abstracts this code: what a tick does to the session and what it
  returns are what \<open>dxgi_capture_frame\<close> says for the documented meaning of the answers, the wait
  that timed out (0x887A0027), the lost access (0x887A0026), the first call that failed or the image, blue
  first in memory, and for whether every call of a reopening succeeds.
\<close>

theorem capturer_refines_capture:
  "map_option (\<lambda>(s1, res, _). (abs_session s1, res)) (capturer_frame e r s)
     = dxgi_capture_frame (abs_session s) (dxgi_outcome e s) (dxgi_opens r 0)"
proof (cases "session_frame e s")
  case None
  then have "p_dupl s = 0" using session_frame_outcome [of e s] by (auto split: if_splits)
  then show ?thesis using None by (simp add: capturer_frame_def dxgi_capture_frame_def abs_session_def)
next
  case (Some x)
  obtain a es where x: "x = (a, es)" by fastforce
  have ans: "dxgi_outcome e s = a" "abs_session s = DxgiOpen"
    using session_frame_outcome [of e s] Some x by (auto simp: abs_session_def split: if_splits)
  show ?thesis
  proof (cases a)
    case AccessLost
    obtain y gs where y: "open_session r 0 = (y, gs)" by fastforce
    have "abs_session (fst (close_session s)) = DxgiClosed" by (simp add: close_session_def abs_session_def)
    moreover have "abs_session s2 = DxgiOpen" if "y = Inr s2" for s2
      using open_session_ok [of r 0 s2] y that by (simp add: abs_session_def)
    ultimately show ?thesis using Some x AccessLost y ans open_session_opens [of r 0]
      by (cases y) (auto simp: capturer_frame_def dxgi_capture_frame_def opened_def split: prod.split)
  qed (use Some x ans in \<open>simp_all add: capturer_frame_def dxgi_capture_frame_def\<close>)
qed

text \<open>
  The staging texture is never filled: in \<open>d3d11.h\<close> method 36 of the device context is
  \<open>OMSetDepthStencilState\<close> and \<open>CopyResource\<close> is method 47. A frame that is captured has called the
  former and never the latter, so its pixels are whatever the new texture holds.
\<close>

theorem staging_texture_not_copied:
  assumes "session_frame e s = Some (DxgiImage im, es)"
  shows "Calls (p_ctx s) 36 \<in> set es \<and> (\<forall>p. Calls p 47 \<notin> set es)"
proof -
  have r: "Calls p 47 \<notin> set (com_release q)" for p q by (simp add: com_release_def)
  show ?thesis using assms
    by (auto simp: session_frame_def with_ref_def case_prod_beta Let_def r slot_acquire_next_frame_def slot_query_interface_def
        slot_create_texture_def slot_copy_resource_def slot_map_def slot_unmap_def slot_release_frame_def split: if_splits)
qed

text \<open>A machine on which every call succeeds, and one that has lost access to the desktop.\<close>

definition good_dxgi :: dxgi_env where
  "good_dxgi = \<lparr>create_device = (0, 8, 16), query_interface = (\<lambda>p i. (0, 24)), get_adapter = (\<lambda>p. (0, 32)),
     enum_outputs = (\<lambda>p i. (0, 40)), duplicate_output = (\<lambda>p d. (0, 48)), screen_size = (1, 1),
     acquire_next_frame = (\<lambda>p. (0, 56)), create_texture = (\<lambda>p w h. (0, 64)), map_texture = (\<lambda>p t. (0, 72, 4)),
     byte_at = (\<lambda>a. ucast a)\<rparr>"

definition locked_dxgi :: dxgi_env where
  "locked_dxgi = good_dxgi\<lparr>acquire_next_frame := (\<lambda>p. (error_access_lost, 0))\<rparr>"

lemmas good_dxgi_run = good_dxgi_def locked_dxgi_def session_life_def open_session_def open_step_def device_refs_def capturer_frame_def session_frame_def with_ref_def
  close_session_def error_access_lost_def error_wait_timeout_def

text \<open>The desktop is lost in the second tick and the session cannot be reopened: the third tick crashes.\<close>

definition gone_dxgi :: dxgi_env where
  "gone_dxgi = good_dxgi\<lparr>create_device := (0x80070005, 0, 0)\<rparr>"

lemma good_answers: "incomplete_answers good_dxgi = {}" "incomplete_answers locked_dxgi = {}" "incomplete_answers gone_dxgi = {}"
  by (simp_all add: incomplete_answers_def good_dxgi_def locked_dxgi_def gone_dxgi_def error_access_lost_def)

theorem dxgi_releases_all_witness:
  "run_log (session_life good_dxgi 0 [(good_dxgi, good_dxgi), (locked_dxgi, gone_dxgi), (good_dxgi, good_dxgi)]) {#} = Some {#}"
    (is "run_log (session_life _ _ ?ts) _ = _")
proof -
  have none: "(\<Union>e\<in>set (good_dxgi # map fst ?ts @ map snd ?ts). incomplete_answers e) = {}"
    by (simp add: good_answers)
  from dxgi_releases_all [of good_dxgi 0 ?ts, unfolded none] show ?thesis
    by (elim exE conjE) (simp only: subset_empty set_mset_eq_empty_iff)
qed

theorem partial_device_leaks_witness:
  "run_log (session_life (good_dxgi\<lparr>create_device := (0, 8, 0)\<rparr>) 0 []) {#} = Some {#Ref 8#}"
  by (rule partial_device_leaks) (simp_all add: good_dxgi_def)

theorem staging_texture_not_copied_witness:
  "\<exists>im es. session_frame good_dxgi \<lparr>p_device = 8, p_ctx = 16, p_dupl = 48, s_width = 1, s_height = 1\<rparr> = Some (DxgiImage im, es)
     \<and> Calls 16 36 \<in> set es \<and> Calls 16 47 \<notin> set es"
proof -
  let ?s = "\<lparr>p_device = 8, p_ctx = 16, p_dupl = 48, s_width = 1, s_height = 1\<rparr>"
  obtain im es where f: "session_frame good_dxgi ?s = Some (DxgiImage im, es)" by (simp add: good_dxgi_run Let_def)
  from staging_texture_not_copied [OF f] f show ?thesis by auto
qed

end
