(* ===== verification/Windows_Capturer.thy ===== *)
theory Windows_Capturer
  imports Dxgi Machines
begin

text \<open>
  The rest of \<open>capture_windows.go\<close>: the capturer with its optional DXGI session, the enumeration of
  the displays, and \<open>Run\<close> with one loop per display. The loops are goroutines over one shared
  session and one shared frame channel; a run is a sequence of their ticks and of the receives
  from the channel, in any order.
\<close>

section \<open>Displays and windows\<close>

type_synonym win_rect = "32 word \<times> 32 word \<times> 32 word \<times> 32 word"

definition rect_of :: "win_rect \<Rightarrow> rect" where
  "rect_of r = (case r of (l, t, ri, b) \<Rightarrow> image_rect (sint l) (sint t) (sint ri) (sint b))"

text \<open>The rectangle of the foreground window: 0 for no window, \<open>None\<close> when \<open>GetWindowRect\<close> fails.\<close>

definition query_active_window_rect :: "nat \<Rightarrow> win_rect option \<Rightarrow> rect" where
  "query_active_window_rect fg answer =
     (if fg = 0 then zero_rect else (case answer of None \<Rightarrow> zero_rect | Some r \<Rightarrow> rect_of r))"

record monitor_info =
  h_monitor :: nat
  mi_rect :: rect

definition enum_monitor_proc :: "nat \<times> win_rect \<Rightarrow> monitor_info list \<Rightarrow> monitor_info list" where
  "enum_monitor_proc x monitors = monitors @ [\<lparr>h_monitor = fst x, mi_rect = rect_of (snd x)\<rparr>]"

definition enumerate_monitors :: "(nat \<times> win_rect) list \<Rightarrow> monitor_info list" where
  "enumerate_monitors displays = fold enum_monitor_proc displays []"

section \<open>The capturer\<close>

record capturer =
  wc_cfg :: config
  wc_dxgi :: "session option"

definition new_windows_capturer :: "config \<Rightarrow> dxgi_env \<Rightarrow> capturer \<times> com_event list" where
  "new_windows_capturer cfg e =
     (if backend (cfg_capture cfg) = ''dxgi'' then
        (case open_session e 0 of
           (Inl _, es) \<Rightarrow> (\<lparr>wc_cfg = cfg, wc_dxgi = None\<rparr>, es)
         | (Inr s, es) \<Rightarrow> (\<lparr>wc_cfg = cfg, wc_dxgi = Some s\<rparr>, es))
      else (\<lparr>wc_cfg = cfg, wc_dxgi = None\<rparr>, []))"

definition close_capturer :: "capturer \<Rightarrow> capturer \<times> com_event list" where
  "close_capturer c =
     (case wc_dxgi c of None \<Rightarrow> (c, []) | Some s \<Rightarrow> (c\<lparr>wc_dxgi := None\<rparr>, snd (close_session s)))"

text \<open>The loops \<open>Run\<close> starts: one for each display, or one of the size of the screen.\<close>

definition monitor_loops :: "(nat \<times> win_rect) list \<Rightarrow> int \<times> int \<Rightarrow> 'h monitor_loop list" where
  "monitor_loops displays metrics =
     (let found = enumerate_monitors displays;
          monitors = (if found = [] then [\<lparr>h_monitor = 0, mi_rect = image_rect 0 0 (fst metrics) (snd metrics)\<rparr>] else found)
      in map (\<lambda>(i, m). new_monitor_loop (mi_rect m) i) (List.enumerate 0 monitors))"

section \<open>Concurrent loops\<close>

text \<open>
  The loops share the session and the frame channel of capacity one, from which the bridge receives. The
  goroutines interleave: an event is a tick of one display, whose send finds the channel empty or
  drops the frame, or a receive. \<open>None\<close> is a crash or an event that cannot happen.
\<close>

record 'h displays =
  ds_loops :: "'h monitor_loop list"
  ds_session :: "dxgi_session option"
  ds_channel :: "(nat \<times> 'h frame) option"
  ds_received :: "(nat \<times> 'h frame) list"

datatype 'h display_step = MonitorTick nat "'h tick_env" | BridgeReceives

definition displays_step ::
  "capture_config \<Rightarrow> ('h \<Rightarrow> 'h \<Rightarrow> string + int) \<Rightarrow> 'h display_step \<Rightarrow> 'h displays \<Rightarrow> 'h displays option" where
  "displays_step c hdist ev w =
     (case ev of
        MonitorTick i e \<Rightarrow>
          if i < length (ds_loops w)
          then map_option (\<lambda>(ml, d, r). w\<lparr>ds_loops := (ds_loops w)[i := ml], ds_session := d,
                 ds_channel := (case r of None \<Rightarrow> ds_channel w | Some f \<Rightarrow> Some (i, f))\<rparr>)
                 (capture_tick c hdist e (Option.is_none (ds_channel w)) (ds_loops w ! i) (ds_session w))
          else None
      | BridgeReceives \<Rightarrow>
          map_option (\<lambda>x. w\<lparr>ds_channel := None, ds_received := ds_received w @ [x]\<rparr>) (ds_channel w))"

fun run_monitors ::
  "capture_config \<Rightarrow> ('h \<Rightarrow> 'h \<Rightarrow> string + int) \<Rightarrow> 'h display_step list \<Rightarrow> 'h displays \<Rightarrow> 'h displays option" where
  "run_monitors c hdist [] w = Some w"
| "run_monitors c hdist (ev # evs) w = Option.bind (displays_step c hdist ev w) (run_monitors c hdist evs)"

text \<open>What went through the channel or is in it.\<close>

definition ds_sent :: "'h displays \<Rightarrow> (nat \<times> 'h frame) list" where
  "ds_sent w = ds_received w @ (case ds_channel w of None \<Rightarrow> [] | Some x \<Rightarrow> [x])"

text \<open>
  One display by itself, without any channel: its ticks' idle switches and captures, and the frames
  it captured. The frame last sent is the only part of a loop that is not its own.
\<close>

fun display_alone ::
  "capture_config \<Rightarrow> 'h tick_env list \<Rightarrow> 'h monitor_loop \<Rightarrow> dxgi_session option
     \<Rightarrow> ('h monitor_loop \<times> dxgi_session option \<times> 'h frame list) option" where
  "display_alone c [] ml d = Some (ml, d, [])"
| "display_alone c (e # es) ml d =
     (case capture_frame e (fst (switch_idle c e ml)) d of
        None \<Rightarrow> None
      | Some (ml2, d2, r) \<Rightarrow>
          map_option (\<lambda>(m, k, fs). (m, k, (case r of Inr (Some f) \<Rightarrow> f # fs | _ \<Rightarrow> fs))) (display_alone c es ml2 d2))"

definition own_state :: "'h monitor_loop \<Rightarrow> 'h monitor_loop" where
  "own_state ml = ml\<lparr>prev_frame := None\<rparr>"

fun ticks_of :: "nat \<Rightarrow> 'h display_step list \<Rightarrow> 'h tick_env list" where
  "ticks_of i [] = []"
| "ticks_of i (MonitorTick j e # evs) = (if j = i then e # ticks_of i evs else ticks_of i evs)"
| "ticks_of i (BridgeReceives # evs) = ticks_of i evs"

definition frames_of :: "nat \<Rightarrow> (nat \<times> 'h frame) list \<Rightarrow> 'h frame list" where
  "frames_of i fs = map snd (filter (\<lambda>x. fst x = i) fs)"

text \<open>One loop against a channel of which only the room at each tick is known.\<close>

fun loop_ticks ::
  "capture_config \<Rightarrow> ('h \<Rightarrow> 'h \<Rightarrow> string + int) \<Rightarrow> ('h tick_env \<times> bool) list \<Rightarrow> 'h monitor_loop
     \<Rightarrow> dxgi_session option \<Rightarrow> ('h monitor_loop \<times> dxgi_session option \<times> 'h frame list) option" where
  "loop_ticks c hdist [] ml dxgi = Some (ml, dxgi, [])"
| "loop_ticks c hdist ((e, room) # es) ml dxgi =
     (case capture_tick c hdist e room ml dxgi of
        None \<Rightarrow> None
      | Some (ml2, dxgi2, r) \<Rightarrow>
          map_option (\<lambda>(m, d, fs). (m, d, (case r of None \<Rightarrow> fs | Some f \<Rightarrow> f # fs))) (loop_ticks c hdist es ml2 dxgi2))"

section \<open>Lemmas\<close>

lemma enumerate_monitors_map:
  "enumerate_monitors displays = map (\<lambda>x. \<lparr>h_monitor = fst x, mi_rect = rect_of (snd x)\<rparr>) displays"
proof -
  have "fold enum_monitor_proc displays acc = acc @ map (\<lambda>x. \<lparr>h_monitor = fst x, mi_rect = rect_of (snd x)\<rparr>) displays" for acc
    by (induction displays arbitrary: acc) (simp_all add: enum_monitor_proc_def)
  then show ?thesis by (simp add: enumerate_monitors_def)
qed

lemma monitor_loops_index: "i < length (monitor_loops displays metrics) \<Longrightarrow> display_idx (monitor_loops displays metrics ! i) = i"
  by (simp add: monitor_loops_def Let_def nth_enumerate_eq new_monitor_loop_def case_prod_beta)

lemma track_dwell_index [simp]: "display_idx (track_dwell n k ml) = display_idx ml"
  by (simp add: track_dwell_def)

lemma switch_idle_index [simp]: "display_idx (fst (switch_idle c e ml)) = display_idx ml"
  by (simp add: switch_idle_def Let_def)

lemma grab_pixels_index: "grab_pixels e ml d = Some (ml2, d2, r) \<Longrightarrow> display_idx ml2 = display_idx ml"
  by (auto simp: grab_pixels_def split: option.splits sum.splits prod.splits if_splits)

lemma capture_frame_index: "capture_frame e ml d = Some (ml2, d2, r) \<Longrightarrow> display_idx ml2 = display_idx ml"
  using grab_pixels_index by (fastforce simp: capture_frame_def Let_def split: option.splits sum.splits if_splits)

lemma capture_tick_index:
  assumes "capture_tick c hdist e room ml dxgi = Some (ml2, d2, r)" shows "display_idx ml2 = display_idx ml"
proof -
  obtain m3 d3 r3 where f: "capture_frame e (fst (switch_idle c e ml)) dxgi = Some (m3, d3, r3)"
    and m2: "ml2 = m3 \<or> (\<exists>p. ml2 = m3\<lparr>prev_frame := p\<rparr>)"
    using assms by (auto simp: capture_tick_def Let_def split: option.splits sum.splits prod.splits if_splits)
  show ?thesis using capture_frame_index [OF f] m2 by auto
qed

text \<open>The session is the business of the first display only.\<close>

lemma grab_pixels_other:
  "display_idx ml \<noteq> 0 \<Longrightarrow> grab_pixels e ml d = map_option (\<lambda>(m, _, r). (m, d, r)) (grab_pixels e ml None)"
  by (simp add: grab_pixels_def case_prod_beta)

lemma capture_frame_other:
  "display_idx ml \<noteq> 0 \<Longrightarrow> capture_frame e ml d = map_option (\<lambda>(m, _, r). (m, d, r)) (capture_frame e ml None)"
  using grab_pixels_other [of "track_dwell (te_now e) (window_key (gr_window_ctx (te_gate e))) ml" e d]
  by (auto simp: capture_frame_def Let_def split: option.split sum.split)

text \<open>A capture neither reads nor changes the frame last sent.\<close>

lemma grab_pixels_prev:
  "grab_pixels e (ml\<lparr>prev_frame := p\<rparr>) d = map_option (\<lambda>(m, k, r). (m\<lparr>prev_frame := p\<rparr>, k, r)) (grab_pixels e ml d)"
  by (auto simp: grab_pixels_def split: option.splits sum.splits prod.splits)

lemma capture_frame_prev_free:
  "capture_frame e (ml\<lparr>prev_frame := p\<rparr>) d = map_option (\<lambda>(m, k, r). (m\<lparr>prev_frame := p\<rparr>, k, r)) (capture_frame e ml d)"
proof -
  let ?n = "te_now e" and ?k = "window_key (gr_window_ctx (te_gate e))"
  have t: "track_dwell ?n ?k (ml\<lparr>prev_frame := p\<rparr>) = (track_dwell ?n ?k ml)\<lparr>prev_frame := p\<rparr>"
    by (simp add: track_dwell_def)
  have b: "build_frame e (m\<lparr>prev_frame := p\<rparr>) im = build_frame e m im" for m im by (simp add: build_frame_def Let_def)
  show ?thesis unfolding capture_frame_def Let_def t grab_pixels_prev
    by (cases "grab_pixels e (track_dwell ?n ?k ml) d") (auto simp: b split: sum.split)
qed

lemma switch_idle_prev_free: "fst (switch_idle c e (ml\<lparr>prev_frame := p\<rparr>)) = (fst (switch_idle c e ml))\<lparr>prev_frame := p\<rparr>"
  by (simp add: switch_idle_def Let_def)

lemma display_alone_prev:
  "display_alone c es (ml\<lparr>prev_frame := p\<rparr>) d = map_option (\<lambda>(m, k, fs). (m\<lparr>prev_frame := p\<rparr>, k, fs)) (display_alone c es ml d)"
proof (induction es arbitrary: ml d)
  case (Cons e es)
  show ?case
  proof (cases "capture_frame e (fst (switch_idle c e ml)) d")
    case None
    then show ?thesis by (simp add: switch_idle_prev_free capture_frame_prev_free)
  next
    case (Some x)
    obtain m k r where x: "x = (m, k, r)" by (cases x) auto
    show ?thesis using Some x Cons.IH [of m k]
      by (cases "display_alone c es m k") (auto simp: switch_idle_prev_free capture_frame_prev_free)
  qed
qed simp

lemma display_alone_other:
  "display_idx ml \<noteq> 0 \<Longrightarrow> display_alone c es ml d = map_option (\<lambda>(m, _, fs). (m, d, fs)) (display_alone c es ml None)"
proof (induction es arbitrary: ml d)
  case (Cons e es)
  have i: "display_idx (fst (switch_idle c e ml)) \<noteq> 0" using Cons.prems by simp
  show ?case
  proof (cases "capture_frame e (fst (switch_idle c e ml)) None")
    case None
    then show ?thesis using capture_frame_other [OF i, of e d] by simp
  next
    case (Some x)
    obtain m k r where x: "x = (m, k, r)" by (cases x) auto
    have "display_idx m \<noteq> 0" using capture_frame_index Some x i by metis
    from Cons.IH [OF this, of d] Cons.IH [OF this, of k] show ?thesis
      using capture_frame_other [OF i, of e d] Some x by (cases "display_alone c es m None") auto
  qed
qed simp

text \<open>A tick is a capture, after which the frame may be sent when the channel is empty.\<close>

lemma capture_tick_captures:
  assumes "capture_tick c hdist e room ml d = Some (ml2, d2, r)"
  obtains m x where "capture_frame e (fst (switch_idle c e ml)) d = Some (m, d2, x)" "\<exists>p. ml2 = m\<lparr>prev_frame := p\<rparr>"
    "r = None \<or> room \<and> (\<exists>f. r = Some f \<and> x = Inr (Some f))"
proof -
  obtain m k x where f: "capture_frame e (fst (switch_idle c e ml)) d = Some (m, k, x)"
    using assms by (auto simp: capture_tick_def split: option.splits)
  have same: "m = m\<lparr>prev_frame := prev_frame m\<rparr>" by simp
  have "k = d2" "\<exists>p. ml2 = m\<lparr>prev_frame := p\<rparr>" "r = None \<or> room \<and> (\<exists>f. r = Some f \<and> x = Inr (Some f))"
    using assms f same by (auto simp: capture_tick_def Let_def split: sum.splits option.splits if_splits; metis)+
  with f that show thesis by blast
qed

lemma displays_tick:
  assumes "displays_step c hdist (MonitorTick j e) w = Some u" "\<forall>i < length (ds_loops w). display_idx (ds_loops w ! i) = i"
  obtains m x p r where "j < length (ds_loops w)" "capture_frame e (fst (switch_idle c e (ds_loops w ! j))) (ds_session w) = Some (m, ds_session u, x)"
    "ds_loops u = (ds_loops w)[j := m\<lparr>prev_frame := p\<rparr>]" "j \<noteq> 0 \<Longrightarrow> ds_session u = ds_session w"
    "ds_sent u = ds_sent w @ (case r of None \<Rightarrow> [] | Some f \<Rightarrow> [(j, f)])" "r = None \<or> (\<exists>f. r = Some f \<and> x = Inr (Some f))"
    "\<forall>i < length (ds_loops u). display_idx (ds_loops u ! i) = i"
proof -
  obtain ml d r where t: "j < length (ds_loops w)"
    "capture_tick c hdist e (Option.is_none (ds_channel w)) (ds_loops w ! j) (ds_session w) = Some (ml, d, r)"
    and u: "u = w\<lparr>ds_loops := (ds_loops w)[j := ml], ds_session := d,
                 ds_channel := (case r of None \<Rightarrow> ds_channel w | Some f \<Rightarrow> Some (j, f))\<rparr>"
    using assms(1) by (auto simp: displays_step_def split: if_splits)
  obtain m x p where m: "capture_frame e (fst (switch_idle c e (ds_loops w ! j))) (ds_session w) = Some (m, d, x)"
    "ml = m\<lparr>prev_frame := p\<rparr>" "r = None \<or> Option.is_none (ds_channel w) \<and> (\<exists>f. r = Some f \<and> x = Inr (Some f))"
    using capture_tick_captures [OF t(2)] by metis
  have j: "display_idx (ds_loops w ! j) = j" using assms(2) t(1) by blast
  have "display_idx ml = j" using capture_tick_index [OF t(2)] j by simp
  then have idx: "\<forall>i < length (ds_loops u). display_idx (ds_loops u ! i) = i"
    using assms(2) u t(1) by (auto simp: nth_list_update)
  have d: "d = ds_session w" if "j \<noteq> 0"
    using capture_frame_other [of "fst (switch_idle c e (ds_loops w ! j))" e "ds_session w"] m(1) j that
    by (cases "capture_frame e (fst (switch_idle c e (ds_loops w ! j))) None") auto
  have "ds_sent u = ds_sent w @ (case r of None \<Rightarrow> [] | Some f \<Rightarrow> [(j, f)])"
    using u m(3) by (auto simp: ds_sent_def Option.is_none_def split: option.split)
  then show thesis using that [of m x p r] t(1) m idx d u by auto
qed

text \<open>
  From any moment on: what a display goes through and captures is what it would alone, and what is
  sent for it is part of what it captures.
\<close>

lemma display_undisturbed:
  assumes "run_monitors c hdist es w = Some w'" "\<forall>i < length (ds_loops w). display_idx (ds_loops w ! i) = i"
    and "i < length (ds_loops w)"
  shows "\<exists>ml d fs new. display_alone c (ticks_of i es) (ds_loops w ! i) (ds_session w) = Some (ml, d, fs)
     \<and> own_state (ds_loops w' ! i) = own_state ml \<and> (if i = 0 then d = ds_session w' else d = ds_session w)
     \<and> ds_sent w' = ds_sent w @ new \<and> subseq (frames_of i new) fs"
  using assms
proof (induction es arbitrary: w)
  case Nil
  then show ?case by (auto simp: frames_of_def)
next
  case (Cons ev es)
  obtain u where u: "displays_step c hdist ev w = Some u" "run_monitors c hdist es u = Some w'"
    using Cons.prems(1) by (auto simp: bind_eq_Some_conv)
  show ?case
  proof (cases ev)
    case BridgeReceives
    then obtain x where x: "ds_channel w = Some x" "u = w\<lparr>ds_channel := None, ds_received := ds_received w @ [x]\<rparr>"
      using u(1) by (auto simp: displays_step_def)
    have same: "ds_sent u = ds_sent w" "ds_loops u = ds_loops w" "ds_session u = ds_session w" "ticks_of i (ev # es) = ticks_of i es"
      using x BridgeReceives by (simp_all add: ds_sent_def)
    show ?thesis using Cons.IH [OF u(2), unfolded same] Cons.prems(2,3) unfolding same by blast
  next
    case (MonitorTick j e)
    obtain m x p r where t: "j < length (ds_loops w)" "capture_frame e (fst (switch_idle c e (ds_loops w ! j))) (ds_session w) = Some (m, ds_session u, x)"
      "ds_loops u = (ds_loops w)[j := m\<lparr>prev_frame := p\<rparr>]" "j \<noteq> 0 \<Longrightarrow> ds_session u = ds_session w"
      "ds_sent u = ds_sent w @ (case r of None \<Rightarrow> [] | Some f \<Rightarrow> [(j, f)])" "r = None \<or> (\<exists>f. r = Some f \<and> x = Inr (Some f))"
      "\<forall>i < length (ds_loops u). display_idx (ds_loops u ! i) = i"
      using displays_tick [OF u(1) [unfolded MonitorTick] Cons.prems(2)] by metis
    have "i < length (ds_loops u)" using Cons.prems(3) t(3) by simp
    from Cons.IH [OF u(2) t(7) this] obtain ml d fs new where
      a: "display_alone c (ticks_of i es) (ds_loops u ! i) (ds_session u) = Some (ml, d, fs)"
      and s: "own_state (ds_loops w' ! i) = own_state ml" "if i = 0 then d = ds_session w' else d = ds_session u"
      and n: "ds_sent w' = ds_sent u @ new" "subseq (frames_of i new) fs" by blast
    let ?new = "(case r of None \<Rightarrow> [] | Some f \<Rightarrow> [(j, f)]) @ new"
    have sent: "ds_sent w' = ds_sent w @ ?new" using n(1) t(5) by simp
    show ?thesis
    proof (cases "i = j")
      case True
      have "display_alone c (ticks_of i es) (m\<lparr>prev_frame := p\<rparr>) (ds_session u) = Some (ml, d, fs)"
        using a t(1,3) True by simp
      then obtain ml0 where b: "display_alone c (ticks_of i es) m (ds_session u) = Some (ml0, d, fs)" "ml = ml0\<lparr>prev_frame := p\<rparr>"
        unfolding display_alone_prev by auto
      let ?fs = "case x of Inr (Some f) \<Rightarrow> f # fs | _ \<Rightarrow> fs"
      have "display_alone c (ticks_of i (ev # es)) (ds_loops w ! i) (ds_session w) = Some (ml0, d, ?fs)"
        using MonitorTick True t(2) b(1) by simp
      moreover have "own_state ml = own_state ml0" using b(2) by (simp add: own_state_def)
      moreover have "subseq (frames_of i ?new) ?fs"
        using n(2) t(6) True by (auto simp: frames_of_def split: option.splits sum.splits)
      moreover have "if i = 0 then d = ds_session w' else d = ds_session w" using s(2) t(4) True by (auto split: if_splits)
      ultimately show ?thesis using s(1) sent by metis
    next
      case False
      have fr: "frames_of i ?new = frames_of i new" using False by (simp add: frames_of_def split: option.split)
      have tk: "ticks_of i (ev # es) = ticks_of i es" using False MonitorTick by simp
      have st: "ds_loops u ! i = ds_loops w ! i" using False t(3) by simp
      show ?thesis
      proof (cases "i = 0")
        case True
        then have "ds_session u = ds_session w" using t(4) False by simp
        then show ?thesis using a s n(2) sent fr tk st True by metis
      next
        case nz: False
        have i: "display_idx (ds_loops w ! i) \<noteq> 0" using Cons.prems(2,3) nz by simp
        obtain d0 where "display_alone c (ticks_of i es) (ds_loops w ! i) None = Some (ml, d0, fs)"
          using a st display_alone_other [OF i, of c "ticks_of i es" "ds_session u"] by auto
        then have "display_alone c (ticks_of i es) (ds_loops w ! i) (ds_session w) = Some (ml, ds_session w, fs)"
          using display_alone_other [OF i, of c "ticks_of i es" "ds_session w"] by simp
        then show ?thesis using s(1) n(2) sent fr tk nz by metis
      qed
    qed
  qed
qed

text \<open>The frame last sent changes with a send only, and a frame that looks like it is not sent.\<close>

definition looks_like :: "int \<Rightarrow> ('h \<Rightarrow> 'h \<Rightarrow> string + int) \<Rightarrow> 'h frame \<Rightarrow> 'h frame \<Rightarrow> bool" where
  "looks_like threshold hdist f p \<longleftrightarrow> is_duplicate hdist f p threshold = Inr True"

lemma capture_frame_prev:
  "capture_frame e ml dxgi = Some (ml2, d2, r) \<Longrightarrow> prev_frame ml2 = prev_frame ml"
  by (auto simp: capture_frame_def grab_pixels_def track_dwell_def Let_def
      split: if_splits option.splits sum.splits prod.splits)

lemma switch_idle_prev: "prev_frame (fst (switch_idle c e ml)) = prev_frame ml"
  by (simp add: switch_idle_def Let_def)

lemma capture_tick_prev:
  assumes "capture_tick c hdist e room ml dxgi = Some (ml2, d2, r)"
  shows "(case r of
            None \<Rightarrow> prev_frame ml2 = prev_frame ml
          | Some f \<Rightarrow> prev_frame ml2 = Some f \<and> (\<forall>p. prev_frame ml = Some p \<longrightarrow> \<not> looks_like (hash_threshold c) hdist f p))"
proof -
  obtain ml1 d1 x where f: "capture_frame e (fst (switch_idle c e ml)) dxgi = Some (ml1, d1, x)"
    using assms by (auto simp: capture_tick_def split: option.splits)
  have "prev_frame ml1 = prev_frame ml" using capture_frame_prev [OF f] switch_idle_prev by metis
  then show ?thesis using assms f
    by (auto simp: capture_tick_def looks_like_def Let_def split: option.splits sum.splits if_splits)
qed

definition sent_differ :: "capture_config \<Rightarrow> ('h \<Rightarrow> 'h \<Rightarrow> string + int) \<Rightarrow> 'h displays \<Rightarrow> bool" where
  "sent_differ c hdist w \<longleftrightarrow>
     (\<forall>i < length (ds_loops w).
        successively (\<lambda>p f. \<not> looks_like (hash_threshold c) hdist f p) (frames_of i (ds_sent w))
        \<and> (frames_of i (ds_sent w) \<noteq> [] \<longrightarrow> prev_frame (ds_loops w ! i) = Some (last (frames_of i (ds_sent w)))))"

lemma frames_of_simps [simp]:
  "frames_of i [] = []" "frames_of i (fs @ gs) = frames_of i fs @ frames_of i gs"
  "frames_of i [(j, f)] = (if j = i then [f] else [])"
  by (simp_all add: frames_of_def)

lemma displays_step_differ:
  assumes "displays_step c hdist ev w = Some u" "sent_differ c hdist w"
  shows "sent_differ c hdist u"
proof (cases ev)
  case BridgeReceives
  then have "ds_sent u = ds_sent w" "ds_loops u = ds_loops w"
    using assms(1) by (auto simp: displays_step_def ds_sent_def)
  then show ?thesis using assms(2) by (simp add: sent_differ_def)
next
  case (MonitorTick j e)
  then obtain ml d r where t: "j < length (ds_loops w)"
    "capture_tick c hdist e (Option.is_none (ds_channel w)) (ds_loops w ! j) (ds_session w) = Some (ml, d, r)"
    and u: "u = w\<lparr>ds_loops := (ds_loops w)[j := ml], ds_session := d,
                 ds_channel := (case r of None \<Rightarrow> ds_channel w | Some f \<Rightarrow> Some (j, f))\<rparr>"
    using assms(1) by (auto simp: displays_step_def split: if_splits)
  note p = capture_tick_prev [OF t(2)]
  show ?thesis
  proof (cases r)
    case None
    then show ?thesis using p assms(2) t(1) u by (auto simp: sent_differ_def ds_sent_def nth_list_update)
  next
    case (Some f)
    have room: "r = None \<or> Option.is_none (ds_channel w)" using capture_tick_captures [OF t(2)] by metis
    have sent: "ds_sent u = ds_sent w @ [(j, f)]"
      using u Some room by (auto simp: ds_sent_def Option.is_none_def)
    have "ds_loops u = (ds_loops w)[j := ml]" using u by simp
    then show ?thesis using p assms(2) t(1) Some
      by (auto simp: sent_differ_def sent successively_append_iff nth_list_update)
  qed
qed

lemma run_monitors_length: "run_monitors c hdist es w = Some w' \<Longrightarrow> length (ds_loops w') = length (ds_loops w)"
  by (induction es arbitrary: w)
    (auto simp: bind_eq_Some_conv displays_step_def split: display_step.splits if_splits)

interpretation display_channel: invariant_machine "displays_step c hdist" "run_monitors c hdist" "sent_differ c hdist"
  by unfold_locales (auto intro: displays_step_differ)

section \<open>Properties\<close>

text \<open>
  C12. The displays compete for the channel and for nothing else: in every interleaving of their ticks with
  each other and with the receives of the bridge, each display goes through the states (handles,
  dwell, idle rate) and captures the frames it would on its own, whatever the others do and however
  full the channel is; only the first one touches the shared session; and what reaches the bridge or
  waits in the channel for a display are some of the frames it captured, each once and in order, and no
  two of them in a row that the perceptual hash takes for the same.
\<close>

theorem monitors_independent:
  assumes "run_monitors c hdist es w = Some w'" and "\<forall>i < length (ds_loops w). display_idx (ds_loops w ! i) = i"
    and "ds_sent w = []" and "i < length (ds_loops w)"
  shows "\<exists>ml d fs. display_alone c (ticks_of i es) (ds_loops w ! i) (ds_session w) = Some (ml, d, fs)
     \<and> own_state (ds_loops w' ! i) = own_state ml \<and> (if i = 0 then d = ds_session w' else d = ds_session w)
     \<and> subseq (frames_of i (ds_sent w')) fs
     \<and> successively (\<lambda>p f. is_duplicate hdist f p (hash_threshold c) \<noteq> Inr True) (frames_of i (ds_sent w'))"
proof -
  have "sent_differ c hdist w'"
    using display_channel.runs_keep [OF assms(1)] assms(3) by (simp add: sent_differ_def)
  moreover obtain ml d fs new where a: "display_alone c (ticks_of i es) (ds_loops w ! i) (ds_session w) = Some (ml, d, fs)"
    "own_state (ds_loops w' ! i) = own_state ml" "if i = 0 then d = ds_session w' else d = ds_session w"
    "ds_sent w' = ds_sent w @ new" "subseq (frames_of i new) fs"
    using display_undisturbed [OF assms(1,2,4)] by blast
  moreover have "length (ds_loops w') = length (ds_loops w)" using run_monitors_length [OF assms(1)] .
  ultimately show ?thesis using assms(3,4) by (auto simp: sent_differ_def looks_like_def)
qed

text \<open>
  Two displays of one pixel tick before the bridge receives: both capture, and the frame of the second
  is dropped for the frame of the first.
\<close>

definition two_displays :: "int displays" where
  "two_displays = \<lparr>ds_loops = [tiny_monitor, new_monitor_loop (image_rect 0 0 1 1) 1], ds_session = None,
     ds_channel = None, ds_received = []\<rparr>"

definition competing :: "int display_step list" where
  "competing = [MonitorTick 0 (quiet_tick 1 pass_result), MonitorTick 1 (quiet_tick 2 pass_result), BridgeReceives]"

lemma displays_compete:
  "\<exists>w f. run_monitors (cfg_capture config_defaults) (\<lambda>h k. Inr 64) competing two_displays = Some w \<and> ds_sent w = [(0, f)]"
  by (simp add: competing_def two_displays_def displays_step_def ds_sent_def capture_tick_def capture_frame_def quiet_tick_def
      new_monitor_loop_def switch_idle_def idle_limit_def config_defaults_def seconds_since_last_input_def fl64_numeral Let_def
      track_dwell_def window_key_def grab_pixels_def capture_gdi_def ensure_handles_def one_pixel_gdi_def no_handles_def
      release_handles_def image_rect_def dx_def dy_def zero_context_def)

theorem monitors_independent_witness:
  "\<exists>w f ml fs. run_monitors (cfg_capture config_defaults) (\<lambda>h k. Inr 64) competing two_displays = Some w \<and> ds_sent w = [(0, f)]
     \<and> display_alone (cfg_capture config_defaults) [quiet_tick 2 pass_result] (new_monitor_loop (image_rect 0 0 1 1) 1) None
       = Some (ml, None, fs) \<and> own_state (ds_loops w ! 1) = own_state ml"
proof -
  obtain w f where r: "run_monitors (cfg_capture config_defaults) (\<lambda>h k. Inr 64) competing two_displays = Some w" "ds_sent w = [(0, f)]"
    using displays_compete by blast
  have i: "\<forall>i < length (ds_loops two_displays). display_idx (ds_loops two_displays ! i) = i"
    by (auto simp: two_displays_def new_monitor_loop_def less_Suc_eq)
  have s: "ds_sent two_displays = []" "1 < length (ds_loops two_displays)" by (simp_all add: two_displays_def ds_sent_def)
  from monitors_independent [OF r(1) i s] r show ?thesis by (fastforce simp: two_displays_def competing_def)
qed

end
