(* ===== verification/X11_Capturer.thy ===== *)
theory X11_Capturer
  imports Windows_Capturer
begin

text \<open>
  The capturers of the other platforms (\<open>capture_linux_x11.go\<close>, \<open>capture_unsupported.go\<close>) and what their
  loops have in common with the loop of a Windows display: a frame that looks like the last one sent
  is dropped, a frame the channel has no room for is dropped without becoming the last one sent.
\<close>

section \<open>The X11 loop\<close>

text \<open>One tick: what the gate answers, the time, the hash function, and whether the channel has room.\<close>

record 'h x11_tick_env =
  xt_gate :: gate_result
  xt_now :: int
  xt_phash :: "image \<Rightarrow> string + 'h"
  xt_room :: bool

definition x11_tick ::
  "int \<Rightarrow> ('h \<Rightarrow> 'h \<Rightarrow> string + int) \<Rightarrow> 'h x11_tick_env \<Rightarrow> 'h frame option \<Rightarrow> 'h frame option \<times> 'h frame option" where
  "x11_tick threshold hdist e prev =
     (case x11_capture_frame (xt_phash e) (xt_now e) (xt_gate e) of
        None \<Rightarrow> (prev, None)
      | Some f \<Rightarrow>
          (let dup = (case prev of
                        None \<Rightarrow> False
                      | Some p \<Rightarrow> (case is_duplicate hdist f p threshold of Inl _ \<Rightarrow> False | Inr b \<Rightarrow> b))
           in if dup then (prev, None) else if xt_room e then (Some f, Some f) else (prev, None)))"

text \<open>\<open>Run\<close>: \<open>None\<close> is the stop channel. The result is what was sent, in order.\<close>

fun x11_run ::
  "int \<Rightarrow> ('h \<Rightarrow> 'h \<Rightarrow> string + int) \<Rightarrow> 'h x11_tick_env option list \<Rightarrow> 'h frame option \<Rightarrow> 'h frame list" where
  "x11_run threshold hdist [] prev = []"
| "x11_run threshold hdist (None # es) prev = []"
| "x11_run threshold hdist (Some e # es) prev =
     (case x11_tick threshold hdist e prev of
        (p, None) \<Rightarrow> x11_run threshold hdist es p
      | (p, Some f) \<Rightarrow> f # x11_run threshold hdist es p)"

definition x11_close :: "string option" where "x11_close = None"

section \<open>NewCapturer\<close>

datatype backend_kind = WindowsBackend capturer | X11Backend | UnsupportedBackend

definition new_capturer_x11 :: "string + backend_kind" where
  "new_capturer_x11 = (case new_x11_capturer of Inl e \<Rightarrow> Inl e | Inr _ \<Rightarrow> Inr X11Backend)"

definition new_unsupported_capturer :: "string + backend_kind" where
  "new_unsupported_capturer = Inr UnsupportedBackend"

definition new_capturer_unsupported :: "string + backend_kind" where
  "new_capturer_unsupported = new_unsupported_capturer"

definition unsupported_close :: "string option" where "unsupported_close = None"

section \<open>Loops that drop duplicates\<close>

text \<open>
  A loop whose state remembers the last frame it sent: it sends only what differs from that frame, and
  nothing else changes it.
\<close>

locale deduplicating_loop =
  fixes tick :: "'e \<Rightarrow> 's \<Rightarrow> ('s \<times> 'f option) option"
    and last_sent :: "'s \<Rightarrow> 'f option"
    and similar :: "'f \<Rightarrow> 'f \<Rightarrow> bool"
  assumes sent_is_last: "tick e s = Some (t, Some f) \<Longrightarrow> last_sent t = Some f"
    and sent_differs: "tick e s = Some (t, Some f) \<Longrightarrow> last_sent s = Some p \<Longrightarrow> \<not> similar f p"
    and kept: "tick e s = Some (t, None) \<Longrightarrow> last_sent t = last_sent s"
begin

fun sends :: "'e list \<Rightarrow> 's \<Rightarrow> 'f list option" where
  "sends [] s = Some []"
| "sends (e # es) s =
     (case tick e s of
        None \<Rightarrow> None
      | Some (t, r) \<Rightarrow> map_option (\<lambda>fs. case r of None \<Rightarrow> fs | Some f \<Rightarrow> f # fs) (sends es t))"

lemma sends_differ:
  assumes "sends es s = Some fs"
  shows "successively (\<lambda>p f. \<not> similar f p) (case last_sent s of None \<Rightarrow> fs | Some p \<Rightarrow> p # fs)"
  using assms
proof (induction es arbitrary: s fs)
  case Nil
  then show ?case by (simp split: option.split)
next
  case (Cons e es)
  then obtain t r gs where t: "tick e s = Some (t, r)" "sends es t = Some gs"
    "fs = (case r of None \<Rightarrow> gs | Some f \<Rightarrow> f # gs)"
    by (auto split: option.splits prod.splits)
  note ih = Cons.IH [OF t(2)]
  show ?case
  proof (cases r)
    case None
    then have same: "last_sent t = last_sent s" "fs = gs" using t(1,3) kept by simp_all
    show ?thesis using ih unfolding same .
  next
    case (Some f)
    then have "last_sent t = Some f" using t(1) sent_is_last by blast
    with Some t(3) ih show ?thesis using sent_differs [of e s t f] t(1)
      by (auto simp: successively_Cons split: option.split)
  qed
qed

end

definition x11_event ::
  "int \<Rightarrow> ('h \<Rightarrow> 'h \<Rightarrow> string + int) \<Rightarrow> 'h x11_tick_env option \<Rightarrow> 'h frame option \<Rightarrow> ('h frame option \<times> 'h frame option) option" where
  "x11_event threshold hdist ev prev = map_option (\<lambda>e. x11_tick threshold hdist e prev) ev"

definition display_event ::
  "capture_config \<Rightarrow> ('h \<Rightarrow> 'h \<Rightarrow> string + int) \<Rightarrow> 'h tick_env \<times> bool \<Rightarrow> 'h monitor_loop \<times> dxgi_session option
     \<Rightarrow> (('h monitor_loop \<times> dxgi_session option) \<times> 'h frame option) option" where
  "display_event c hdist ev s =
     map_option (\<lambda>(ml, d, r). ((ml, d), r)) (capture_tick c hdist (fst ev) (snd ev) (fst s) (snd s))"

lemma x11_tick_prev:
  assumes "x11_tick threshold hdist e prev = (p, r)"
  shows "(case r of
            None \<Rightarrow> p = prev
          | Some f \<Rightarrow> p = Some f \<and> (\<forall>q. prev = Some q \<longrightarrow> \<not> looks_like threshold hdist f q))"
proof (cases "x11_capture_frame (xt_phash e) (xt_now e) (xt_gate e)")
  case (Some f)
  note assms [unfolded x11_tick_def Some option.case Let_def]
  then show ?thesis by (auto simp: looks_like_def split: option.splits if_splits sum.splits)
qed (use assms in \<open>auto simp: x11_tick_def\<close>)

interpretation x11_loop: deduplicating_loop "x11_event threshold hdist" id "looks_like threshold hdist"
  by unfold_locales (auto simp: x11_event_def dest!: x11_tick_prev)

interpretation display_loop: deduplicating_loop "display_event c hdist" "prev_frame \<circ> fst" "looks_like (hash_threshold c) hdist"
  by unfold_locales (auto simp: display_event_def dest!: capture_tick_prev)

lemma loop_ticks_sends:
  "loop_ticks c hdist es ml dxgi = Some (ml2, d2, fs) \<Longrightarrow> display_loop.sends c hdist es (ml, dxgi) = Some fs"
  by (induction es arbitrary: ml dxgi ml2 d2 fs)
    (auto simp: display_event_def split: option.splits prod.splits)

lemma x11_run_sends:
  "x11_loop.sends threshold hdist (map Some es) prev = Some (x11_run threshold hdist (map Some es) prev)"
  by (induction es arbitrary: prev) (auto simp: x11_event_def split: option.splits prod.splits)

section \<open>Theorems\<close>

text \<open>
  No display sends two frames in a row that the perceptual hash takes for the same, whatever the ticks
  bring, and neither would the X11 loop.
\<close>

theorem no_consecutive_duplicates:
  assumes "loop_ticks c hdist es (new_monitor_loop r i) dxgi = Some (ml, d, fs)"
  shows "successively (\<lambda>p f. is_duplicate hdist f p (hash_threshold c) \<noteq> Inr True) fs"
  using display_loop.sends_differ [OF loop_ticks_sends [OF assms]]
  by (simp add: new_monitor_loop_def looks_like_def)

theorem x11_no_consecutive_duplicates:
  "successively (\<lambda>p f. is_duplicate hdist f p threshold \<noteq> Inr True) (x11_run threshold hdist (map Some es) None)"
  using x11_loop.sends_differ [OF x11_run_sends [of threshold hdist es None]] by (simp add: looks_like_def)

text \<open>Behind the gate of this platform, whose window query always fails, the X11 loop would send nothing.\<close>

theorem x11_sends_nothing:
  assumes "\<And>e. Some e \<in> set es \<Longrightarrow> \<exists>um g bg. xt_gate e = check_gate um g query_window_context_x11 bg"
  shows "x11_run threshold hdist es prev = []"
  using assms
proof (induction es arbitrary: prev)
  case (Cons ev es)
  show ?case
  proof (cases ev)
    case (Some e)
    then obtain um g bg where "xt_gate e = check_gate um g query_window_context_x11 bg"
      using Cons.prems [of e] by auto
    then have "x11_tick threshold hdist e prev = (prev, None)" by (simp add: x11_tick_def x11_never_captures)
    with Some Cons show ?thesis by simp
  qed simp
qed simp

end
