(* ===== verification/Consent.thy ===== *)
theory Consent
  imports Store_Recovery Privacy_Gate Sample_Codec Machines
begin

text \<open>
  \<open>internal/tray\<close>: the consent record on disk with its signature, the consent dialog of the
  platforms, and the tray menu. SHA-256, HMAC and the JSON encoding of the record are arguments.
  The data directory is the directory of the model \<open>Disk\<close>.
\<close>

section \<open>The record\<close>

record consent_record =
  cr_granted_at :: int
  cr_dg_version :: string
  cr_platform :: string
  cr_dialog_text_hash :: string
  cr_explicit_grant :: bool
  cr_hmac_signature :: string

record consent_lib =
  cl_sha256 :: "bytes \<Rightarrow> bytes"
  cl_hmac :: "bytes \<Rightarrow> bytes \<Rightarrow> bytes"
  cl_marshal :: "consent_record \<Rightarrow> bytes option"
  cl_marshal_indent :: "consent_record \<Rightarrow> bytes option"
  cl_unmarshal :: "bytes \<Rightarrow> consent_record option"

record manager =
  m_version :: string
  m_key :: "bytes option"

datatype consent_error =
    NoRecord | ReadRecord | CorruptRecord | NotExplicit | SigningFailed | SignatureMismatch
  | CreatingDir | DialogFailed string | Denied | MarshalFailed | WritingRecord | CommittingRecord | RemovingRecord

definition newline :: string where "newline = [CHR 0x0A]"
definition bullet :: string where "bullet = ''  '' @ [CHR 0xE2, CHR 0x80, CHR 0xA2] @ '' ''"
definition fisheye :: string where "fisheye = [CHR 0xE2, CHR 0x97, CHR 0x89]"

definition consent_dialog_lines :: "string list" where
  "consent_dialog_lines =
     [''Digital Ghost will run in the background and capture'',
      ''screenshots of your screen at a low frame rate (default: 2 frames per second).'',
      [],
      ''These screenshots are:'',
      bullet @ ''Processed locally by an AI model on YOUR computer'',
      bullet @ ''Never sent to any server or external service'',
      bullet @ ''Stored in an encrypted local database'',
      bullet @ ''Used only to power a personal memory search feature'',
      [],
      ''Digital Ghost ALSO:'',
      bullet @ ''Captures all connected monitors (multi-monitor setups are fully recorded)'',
      bullet @ ''Reads the URL from your browser's address bar when a browser is the active window'',
      ''    (supported browsers: Chrome, Edge, Firefox, Opera, Brave, Vivaldi, Chromium)'',
      bullet @ ''Measures keyboard/mouse activity to assess engagement (no keystrokes are recorded,'',
      ''    only the time elapsed since the last input event)'',
      [],
      ''Digital Ghost will NOT capture:'',
      bullet @ ''Password managers (1Password, Bitwarden, KeePass, etc.)'',
      bullet @ ''Banking or financial websites'',
      bullet @ ''Login / authentication screens'',
      bullet @ ''Medical records portals'',
      [],
      ''You can stop Digital Ghost at any time by:'',
      bullet @ ''Right-clicking the tray icon and selecting \"Stop\"'',
      bullet @ ''Running: digitalghost stop'',
      bullet @ ''Wiping all data: digitalghost wipe --confirm'',
      [],
      ''A tray icon ('' @ fisheye @ '') will always be visible while Digital Ghost is running.'',
      ''There is no silent or hidden mode.'',
      [],
      ''Do you agree to allow Digital Ghost to capture your screen?'']"

definition consent_dialog_text :: string where
  "consent_dialog_text = foldr (\<lambda>l acc. if acc = [] then l else l @ newline @ acc) consent_dialog_lines []"

definition dialog_hash :: "consent_lib \<Rightarrow> string" where
  "dialog_hash l = hex_encode (cl_sha256 l (bytes_of consent_dialog_text))"

definition consent_path :: string where "consent_path = ''consent.json''"
definition consent_tmp :: string where "consent_tmp = ''consent.json.tmp''"

text \<open>The signature covers the record with an empty signature field.\<close>

definition sign_record :: "consent_lib \<Rightarrow> bytes \<Rightarrow> consent_record \<Rightarrow> string option" where
  "sign_record l key r =
     (case cl_marshal l (r\<lparr>cr_hmac_signature := []\<rparr>) of
        None \<Rightarrow> None
      | Some payload \<Rightarrow> Some (hex_encode (cl_hmac l key payload)))"

section \<open>Loading\<close>

text \<open>An unsigned record is signed in place; every failure of that upgrade is ignored.\<close>

definition upgrade_record :: "consent_lib \<Rightarrow> bytes \<Rightarrow> consent_record \<Rightarrow> fs \<Rightarrow> consent_record \<times> fs" where
  "upgrade_record l key r f =
     (case sign_record l key r of
        None \<Rightarrow> (r, f)
      | Some sig \<Rightarrow>
          (let r' = r\<lparr>cr_hmac_signature := sig\<rparr> in
           (r', (case cl_marshal_indent l r' of
                   None \<Rightarrow> f
                 | Some dat \<Rightarrow>
                     (case os_write_file consent_tmp dat f of
                        (False, g) \<Rightarrow> g
                      | (True, g) \<Rightarrow> snd (os_rename consent_tmp consent_path g))))))"

definition load_consent_record :: "consent_lib \<Rightarrow> manager \<Rightarrow> fs \<Rightarrow> (consent_error + consent_record) \<times> fs" where
  "load_consent_record l m f =
     (case os_read_file consent_path f of
        (FileMissing, g) \<Rightarrow> (Inl NoRecord, g)
      | (FileError, g) \<Rightarrow> (Inl ReadRecord, g)
      | (FileData dat, g) \<Rightarrow>
          (case cl_unmarshal l dat of
             None \<Rightarrow> (Inl CorruptRecord, g)
           | Some r \<Rightarrow>
               if \<not> cr_explicit_grant r then (Inl NotExplicit, g)
               else
                 (case m_key m of
                    None \<Rightarrow> (Inr r, g)
                  | Some key \<Rightarrow>
                      if cr_hmac_signature r = [] then (case upgrade_record l key r g of (r', h) \<Rightarrow> (Inr r', h))
                      else
                        (case sign_record l key r of
                           None \<Rightarrow> (Inl SigningFailed, g)
                         | Some expected \<Rightarrow>
                             if cr_hmac_signature r = expected then (Inr r, g) else (Inl SignatureMismatch, g)))))"

definition is_consent_granted :: "consent_lib \<Rightarrow> manager \<Rightarrow> fs \<Rightarrow> bool \<times> fs" where
  "is_consent_granted l m f =
     (case load_consent_record l m f of
        (Inl _, g) \<Rightarrow> (False, g)
      | (Inr r, g) \<Rightarrow> (cr_explicit_grant r \<and> cr_dialog_text_hash r = dialog_hash l, g))"

section \<open>Asking\<close>

text \<open>
  The dialog: \<open>DG_HEADLESS_CONSENT=1\<close> answers for the user; on Windows the return value of
  \<open>MessageBoxW\<close>, where 0 is a failure and 6 is Yes; elsewhere the dialog does not exist.
\<close>

datatype platform = Windows int | OtherOS string

definition show_consent_dialog_impl :: "platform \<Rightarrow> string + bool" where
  "show_consent_dialog_impl p =
     (case p of
        Windows ret \<Rightarrow> if ret = 0 then Inl ''MessageBoxW failed'' else Inr (ret = 6)
      | OtherOS _ \<Rightarrow> Inl ''consent dialog not implemented'')"

definition show_consent_dialog :: "bool \<Rightarrow> platform \<Rightarrow> string + bool" where
  "show_consent_dialog headless p = (if headless then Inr True else show_consent_dialog_impl p)"

definition current_platform :: "platform \<Rightarrow> string" where
  "current_platform p = (case p of Windows _ \<Rightarrow> ''windows'' | OtherOS os \<Rightarrow> os)"

text \<open>\<open>mkdir\<close> says whether the data directory could be created, \<open>now\<close> is the time of the grant.\<close>

definition request_consent ::
  "consent_lib \<Rightarrow> manager \<Rightarrow> bool \<Rightarrow> bool \<Rightarrow> platform \<Rightarrow> int \<Rightarrow> fs \<Rightarrow> consent_error option \<times> fs" where
  "request_consent l m mkdir headless p now f =
     (if \<not> mkdir then (Some CreatingDir, f)
      else
        (case show_consent_dialog headless p of
           Inl e \<Rightarrow> (Some (DialogFailed e), f)
         | Inr False \<Rightarrow> (Some Denied, f)
         | Inr True \<Rightarrow>
             (let r = \<lparr>cr_granted_at = now, cr_dg_version = m_version m, cr_platform = current_platform p,
                       cr_dialog_text_hash = dialog_hash l, cr_explicit_grant = True, cr_hmac_signature = []\<rparr>
              in case (case m_key m of None \<Rightarrow> Some [] | Some key \<Rightarrow> sign_record l key r) of
                   None \<Rightarrow> (Some SigningFailed, f)
                 | Some sig \<Rightarrow>
                     (case cl_marshal_indent l (r\<lparr>cr_hmac_signature := sig\<rparr>) of
                        None \<Rightarrow> (Some MarshalFailed, f)
                      | Some dat \<Rightarrow>
                          (case os_write_file consent_tmp dat f of
                             (False, g) \<Rightarrow> (Some WritingRecord, g)
                           | (True, g) \<Rightarrow>
                               (case os_rename consent_tmp consent_path g of
                                  (False, h) \<Rightarrow> (Some CommittingRecord, h)
                                | (True, h) \<Rightarrow> (None, h)))))))"

definition revoke_consent :: "fs \<Rightarrow> consent_error option \<times> fs" where
  "revoke_consent f =
     (case os_remove consent_path f of
        (RemoveError, g) \<Rightarrow> (Some RemovingRecord, g)
      | (_, g) \<Rightarrow> (None, g))"

section \<open>The tray\<close>

text \<open>
  \<open>startTrayIconImpl\<close>: elsewhere than on Windows it succeeds only with the test variable; on Windows
  it waits three seconds for the icon (\<open>ready\<close>).
\<close>

definition start_tray_icon :: "bool \<Rightarrow> platform \<Rightarrow> bool \<Rightarrow> string option" where
  "start_tray_icon headless p ready =
     (case p of
        OtherOS _ \<Rightarrow> if headless then None else Some ''tray not implemented''
      | Windows _ \<Rightarrow> if ready then None else Some ''tray icon initialization timed out'')"

text \<open>
  The menu and the daemon behind its callbacks: the gate does not exist until the daemon has
  finished its checks, and until then the pause and resume callbacks are \<open>nil\<close>.
\<close>

record tray_state =
  pause_item_visible :: bool
  tooltip_paused :: bool
  tray_running :: bool
  search_opened :: nat
  tray_gate :: "gate option"
  stop_requested :: bool

definition initial_tray :: tray_state where
  "initial_tray = \<lparr>pause_item_visible = True, tooltip_paused = False, tray_running = True, search_opened = 0,
     tray_gate = None, stop_requested = False\<rparr>"

datatype tray_event = ClickPause | ClickResume | ClickOpen | ClickStop | GateWired gate

text \<open>A hidden menu item cannot be clicked, and after Stop the loop is gone: then \<open>None\<close>.\<close>

definition tray_step :: "tray_event \<Rightarrow> tray_state \<Rightarrow> tray_state option" where
  "tray_step ev s =
     (case ev of
        GateWired g \<Rightarrow> if tray_gate s = None then Some (s\<lparr>tray_gate := Some g\<rparr>) else None
      | ClickPause \<Rightarrow>
          if tray_running s \<and> pause_item_visible s
          then Some (s\<lparr>tray_gate := map_option pause (tray_gate s), pause_item_visible := False, tooltip_paused := True\<rparr>)
          else None
      | ClickResume \<Rightarrow>
          if tray_running s \<and> \<not> pause_item_visible s
          then Some (s\<lparr>tray_gate := map_option resume (tray_gate s), pause_item_visible := True, tooltip_paused := False\<rparr>)
          else None
      | ClickOpen \<Rightarrow> if tray_running s then Some (s\<lparr>search_opened := search_opened s + 1\<rparr>) else None
      | ClickStop \<Rightarrow> if tray_running s then Some (s\<lparr>tray_running := False, stop_requested := True\<rparr>) else None)"

fun tray_run :: "tray_event list \<Rightarrow> tray_state \<Rightarrow> tray_state option" where
  "tray_run [] s = Some s"
| "tray_run (ev # evs) s = (case tray_step ev s of None \<Rightarrow> None | Some t \<Rightarrow> tray_run evs t)"

text \<open>A library for which the promises hold: records are countable, a record is written as its number.\<close>

definition record_fields :: "consent_record \<Rightarrow> int \<times> string \<times> string \<times> string \<times> bool \<times> string" where
  "record_fields r = (cr_granted_at r, cr_dg_version r, cr_platform r, cr_dialog_text_hash r, cr_explicit_grant r,
     cr_hmac_signature r)"

definition sample_consent_lib :: consent_lib where
  "sample_consent_lib = \<lparr>cl_sha256 = (\<lambda>b. [1]), cl_hmac = (\<lambda>k m. replicate 32 5),
     cl_marshal = (\<lambda>r. Some []), cl_marshal_indent = (\<lambda>r. Some (replicate (to_nat_on UNIV r) 0)),
     cl_unmarshal = (\<lambda>b. Some (from_nat_into UNIV (length b)))\<rparr>"

section \<open>Lemmas\<close>

text \<open>
  What the libraries promise for the records that occur: ASCII strings and \<open>int64\<close> times are written
  and read back by \<open>encoding/json\<close>, with the same signature payload every time, and a MAC has 32 bytes.
\<close>

definition consent_safe :: "consent_record \<Rightarrow> bool" where
  "consent_safe r \<longleftrightarrow> int64_range (cr_granted_at r)
     \<and> list_all is_ascii [cr_dg_version r, cr_platform r, cr_dialog_text_hash r, cr_hmac_signature r]"

definition consent_lib_ok :: "consent_lib \<Rightarrow> bool" where
  "consent_lib_ok l \<longleftrightarrow>
     (\<forall>r. consent_safe r \<longrightarrow> (\<exists>b. cl_marshal_indent l r = Some b \<and> cl_unmarshal l b = Some r))
     \<and> (\<forall>r. consent_safe r \<longrightarrow> cl_marshal l r \<noteq> None) \<and> (\<forall>k m. length (cl_hmac l k m) = 32)"

lemma sample_consent_lib_ok: "consent_lib_ok sample_consent_lib"
proof -
  have "inj record_fields" by (rule injI, rule consent_record.equality) (simp_all add: record_fields_def)
  then have "countable (UNIV :: consent_record set)"
    by (rule countableI' [OF inj_compose [of to_nat], OF inj_to_nat, unfolded comp_def])
  then show ?thesis
    by (simp add: consent_lib_ok_def sample_consent_lib_def from_nat_into_to_nat_on)
qed

lemma consent_paths [simp]: "consent_tmp \<noteq> consent_path" "consent_path \<noteq> consent_tmp"
  by (simp_all add: consent_tmp_def consent_path_def)

lemma renamed_consent: "renamed consent_tmp consent_path d consent_path = (case d consent_tmp of None \<Rightarrow> d consent_path | Some c \<Rightarrow> Some c)"
  by (simp add: renamed_def split: option.split)

lemma sign_record_unsigned [simp]:
  "sign_record l key (r\<lparr>cr_hmac_signature := s\<rparr>) = sign_record l key r"
  by (simp add: sign_record_def)

lemma sign_record_ok:
  assumes "consent_lib_ok l" "consent_safe r"
  obtains sig where "sign_record l key r = Some sig" "sig \<noteq> []" "is_ascii sig" "consent_safe (r\<lparr>cr_hmac_signature := sig\<rparr>)"
proof -
  have "consent_safe (r\<lparr>cr_hmac_signature := []\<rparr>)" using assms(2) by (simp add: consent_safe_def)
  then obtain p where "cl_marshal l (r\<lparr>cr_hmac_signature := []\<rparr>) = Some p"
    using assms(1) by (auto simp: consent_lib_ok_def)
  moreover have "length (hex_encode (cl_hmac l key p)) = 64"
    using assms(1) by (simp add: consent_lib_ok_def)
  then have "hex_encode (cl_hmac l key p) \<noteq> []" using list.size(3) by fastforce
  ultimately show thesis
    using that [of "hex_encode (cl_hmac l key p)"] assms(2) hex_ascii by (simp add: sign_record_def consent_safe_def)
qed

text \<open>A temporary file followed by a rename leaves the old record or the new one.\<close>

lemma write_then_rename:
  assumes "os_write_file consent_tmp dat f = (ok, g)" and "os_rename consent_tmp consent_path g = (ok', h)"
  shows "disk g consent_path = disk f consent_path"
    "ok \<Longrightarrow> disk h consent_path = disk f consent_path \<or> disk h consent_path = Some dat"
    "ok \<Longrightarrow> ok' \<Longrightarrow> disk h consent_path = Some dat"
proof -
  note w = os_write_file_effect [OF assms(1)] and r = os_rename_effect [OF assms(2)]
  show a: "disk g consent_path = disk f consent_path" using w(1) by simp
  show "ok \<Longrightarrow> disk h consent_path = disk f consent_path \<or> disk h consent_path = Some dat"
    using w(2) r(1) a by (auto simp: renamed_consent)
  show "ok \<Longrightarrow> ok' \<Longrightarrow> disk h consent_path = Some dat"
    using w(2) r(2) by (auto simp: renamed_consent)
qed

lemma request_consent_effect:
  assumes "request_consent l m mkdir headless p now f = (e, g)"
  shows "disk g consent_path = disk f consent_path
     \<or> show_consent_dialog headless p = Inr True
       \<and> (\<exists>r dat. disk g consent_path = Some dat \<and> cl_marshal_indent l r = Some dat \<and> cr_explicit_grant r
            \<and> cr_dialog_text_hash r = dialog_hash l
            \<and> (\<forall>key. m_key m = Some key \<longrightarrow> sign_record l key r = Some (cr_hmac_signature r)))"
proof -
  let ?r = "\<lparr>cr_granted_at = now, cr_dg_version = m_version m, cr_platform = current_platform p,
    cr_dialog_text_hash = dialog_hash l, cr_explicit_grant = True, cr_hmac_signature = []\<rparr>"
  consider "disk g consent_path = disk f consent_path" | sig dat g1 ok h where "show_consent_dialog headless p = Inr True"
    "(case m_key m of None \<Rightarrow> Some [] | Some key \<Rightarrow> sign_record l key ?r) = Some sig"
    "cl_marshal_indent l (?r\<lparr>cr_hmac_signature := sig\<rparr>) = Some dat"
    "os_write_file consent_tmp dat f = (True, g1)" "os_rename consent_tmp consent_path g1 = (ok, h)" "g = h"
    using assms write_then_rename(1)
    by (fastforce simp: request_consent_def Let_def split: if_splits sum.splits bool.splits option.splits prod.splits)
  then show ?thesis
  proof cases
    case 2
    have "sign_record l key (?r\<lparr>cr_hmac_signature := sig\<rparr>) = Some sig" if "m_key m = Some key" for key
      using 2(2) that by (simp only: sign_record_unsigned option.case)
    then have "\<forall>key. m_key m = Some key \<longrightarrow>
        sign_record l key (?r\<lparr>cr_hmac_signature := sig\<rparr>) = Some (cr_hmac_signature (?r\<lparr>cr_hmac_signature := sig\<rparr>))"
      by simp
    moreover have "cr_explicit_grant (?r\<lparr>cr_hmac_signature := sig\<rparr>)"
      "cr_dialog_text_hash (?r\<lparr>cr_hmac_signature := sig\<rparr>) = dialog_hash l" by simp_all
    ultimately show ?thesis using write_then_rename(2) [OF 2(4,5) TrueI] 2(1,3,6) by blast
  qed simp
qed

lemma upgrade_record_effect:
  assumes "upgrade_record l key r f = (r', g)"
  shows "cr_explicit_grant r' = cr_explicit_grant r" "cr_dialog_text_hash r' = cr_dialog_text_hash r"
  using assms by (auto simp: upgrade_record_def Let_def split: option.splits)

lemma load_consent_healthy:
  assumes "healthy_fs f" "disk f consent_path = Some dat" "cl_unmarshal l dat = Some r" "cr_explicit_grant r"
    and "\<And>key. m_key m = Some key \<Longrightarrow> cr_hmac_signature r \<noteq> [] \<and> sign_record l key r = Some (cr_hmac_signature r)"
  shows "load_consent_record l m f = (Inr r, f)"
  using assms by (cases "m_key m") (simp_all add: load_consent_record_def os_healthy)

section \<open>Properties\<close>

text \<open>
  C25. When consent counts: \<open>IsConsentGranted\<close> answers yes exactly when the file can be read and holds a record
  that decodes, grants explicitly, names the current dialog text and, when a key is available,
  carries either the signature the key gives or none at all. A wrong signature never counts; an unsigned record does
  (it is then signed in place, \<open>forged_record_accepted\<close>).
\<close>

theorem granted_means_recorded:
  "fst (is_consent_granted l m f) \<longleftrightarrow>
     (\<exists>dat r. fst (os_read_file consent_path f) = FileData dat \<and> disk f consent_path = Some dat
        \<and> cl_unmarshal l dat = Some r \<and> cr_explicit_grant r \<and> cr_dialog_text_hash r = dialog_hash l
        \<and> (\<forall>key. m_key m = Some key \<longrightarrow>
             cr_hmac_signature r = [] \<or> sign_record l key r = Some (cr_hmac_signature r)))"
proof -
  obtain x g where x: "os_read_file consent_path f = (x, g)" by fastforce
  show ?thesis
  proof (cases x)
    case (FileData dat)
    then have d: "disk f consent_path = Some dat" using os_read_file_effect(2) [OF x] by simp
    show ?thesis
    proof (cases "cl_unmarshal l dat")
      case None
      then show ?thesis using x FileData by (simp add: is_consent_granted_def load_consent_record_def)
    next
      case (Some r)
      have "fst (is_consent_granted l m f) \<longleftrightarrow> cr_explicit_grant r \<and> cr_dialog_text_hash r = dialog_hash l
          \<and> (\<forall>key. m_key m = Some key \<longrightarrow> cr_hmac_signature r = [] \<or> sign_record l key r = Some (cr_hmac_signature r))"
        using x FileData Some
        by (auto simp: is_consent_granted_def load_consent_record_def upgrade_record_effect
            split: option.splits if_splits prod.splits)
      then show ?thesis using x FileData Some d by simp
    qed
  qed (use x in \<open>simp_all add: is_consent_granted_def load_consent_record_def\<close>)
qed

text \<open>
  C26. Asking and remembering: on a working disk the request succeeds exactly when the dialog was answered
  with yes; then the next start, with the same key and dialog, finds consent granted without asking
  and without touching the disk. Without a yes nothing is written. Revoking is final.
\<close>

theorem consent_roundtrip:
  assumes "consent_lib_ok l" "healthy_fs f" "int64_range now" "list_all is_ascii [m_version m, current_platform p]"
    and "request_consent l m True headless p now f = (e, g)"
  shows "(e = None \<longleftrightarrow> show_consent_dialog headless p = Inr True)
     \<and> (e = None \<longrightarrow> is_consent_granted l m g = (True, g) \<and> healthy_fs g)
     \<and> (e \<noteq> None \<longrightarrow> g = f)
     \<and> fst (is_consent_granted l m (snd (revoke_consent f))) = False"
proof -
  let ?r = "\<lparr>cr_granted_at = now, cr_dg_version = m_version m, cr_platform = current_platform p,
    cr_dialog_text_hash = dialog_hash l, cr_explicit_grant = True, cr_hmac_signature = []\<rparr>"
  have safe: "consent_safe ?r" using assms(3,4) hex_ascii by (simp add: consent_safe_def dialog_hash_def)
  obtain sig where sig: "(case m_key m of None \<Rightarrow> Some [] | Some key \<Rightarrow> sign_record l key ?r) = Some sig"
    "consent_safe (?r\<lparr>cr_hmac_signature := sig\<rparr>)" "\<And>key. m_key m = Some key \<Longrightarrow> sig \<noteq> [] \<and> sign_record l key ?r = Some sig"
  proof (cases "m_key m")
    case None
    then show thesis using that [of "[]"] safe by simp
  next
    case (Some key)
    obtain s where "sign_record l key ?r = Some s" "s \<noteq> []" "consent_safe (?r\<lparr>cr_hmac_signature := s\<rparr>)"
      using sign_record_ok [OF assms(1) safe] by metis
    then show thesis using that [of s] Some by simp
  qed
  obtain dat where dat: "cl_marshal_indent l (?r\<lparr>cr_hmac_signature := sig\<rparr>) = Some dat"
    "cl_unmarshal l dat = Some (?r\<lparr>cr_hmac_signature := sig\<rparr>)"
    using assms(1) sig(2) unfolding consent_lib_ok_def by blast
  let ?d = "renamed consent_tmp consent_path ((disk f)(consent_tmp \<mapsto> dat))"
  have req: "request_consent l m True headless p now f =
      (case show_consent_dialog headless p of Inl x \<Rightarrow> (Some (DialogFailed x), f) | Inr False \<Rightarrow> (Some Denied, f)
       | Inr True \<Rightarrow> (None, f\<lparr>disk := ?d\<rparr>))"
    using sig(1) dat(1) assms(2)
    by (simp add: request_consent_def os_healthy Let_def split: sum.split bool.split)
  have "load_consent_record l m (f\<lparr>disk := ?d\<rparr>) = (Inr (?r\<lparr>cr_hmac_signature := sig\<rparr>), f\<lparr>disk := ?d\<rparr>)"
  proof (rule load_consent_healthy)
    show "disk (f\<lparr>disk := ?d\<rparr>) consent_path = Some dat" by (simp add: renamed_consent)
    show "cr_hmac_signature (?r\<lparr>cr_hmac_signature := sig\<rparr>) \<noteq> []
        \<and> sign_record l key (?r\<lparr>cr_hmac_signature := sig\<rparr>) = Some (cr_hmac_signature (?r\<lparr>cr_hmac_signature := sig\<rparr>))"
      if "m_key m = Some key" for key
      using sig(3) [OF that] unfolding sign_record_unsigned by simp
  qed (use assms(2) dat in simp_all)
  then have "is_consent_granted l m (f\<lparr>disk := ?d\<rparr>) = (True, f\<lparr>disk := ?d\<rparr>)" by (simp add: is_consent_granted_def)
  moreover have "fst (is_consent_granted l m (snd (revoke_consent f))) = False"
    using assms(2) by (simp add: revoke_consent_def is_consent_granted_def load_consent_record_def os_healthy)
  ultimately show ?thesis
    using assms(2,5) unfolding req by (auto split: sum.splits bool.splits)
qed

text \<open>
  The commit is atomic: whatever call fails and wherever the process dies, the consent file is
  afterwards what it was, or the complete new record, and the latter only if the dialog was
  answered with yes; the new record is signed when there is a key.
\<close>

theorem consent_commit_atomic:
  assumes "request_consent l m mkdir headless p now f = (e, g)"
    and "disk g consent_path \<noteq> disk f consent_path"
  shows "show_consent_dialog headless p = Inr True
     \<and> (\<exists>r dat. disk g consent_path = Some dat \<and> cl_marshal_indent l r = Some dat \<and> cr_explicit_grant r
          \<and> cr_dialog_text_hash r = dialog_hash l
          \<and> (\<forall>key. m_key m = Some key \<longrightarrow> sign_record l key r = Some (cr_hmac_signature r)))"
  using request_consent_effect [OF assms(1)] assms(2) by blast

text \<open>
  The signature does not prevent forgery: any process that writes an unsigned record into the data
  directory gets consent, without a dialog, and the daemon signs the forged record for it.
\<close>

theorem forged_record_accepted:
  assumes "consent_lib_ok l" "healthy_fs f" "m_key m = Some key" "consent_safe r"
    and "disk f consent_path = Some dat" "cl_unmarshal l dat = Some r"
    and "cr_explicit_grant r" "cr_dialog_text_hash r = dialog_hash l" "cr_hmac_signature r = []"
  shows "\<exists>g b sig. is_consent_granted l m f = (True, g) \<and> disk g consent_path = Some b
     \<and> sign_record l key r = Some sig \<and> cl_unmarshal l b = Some (r\<lparr>cr_hmac_signature := sig\<rparr>)"
proof -
  obtain sig where sig: "sign_record l key r = Some sig" "consent_safe (r\<lparr>cr_hmac_signature := sig\<rparr>)"
    using sign_record_ok [OF assms(1,4)] by metis
  then obtain b where b: "cl_marshal_indent l (r\<lparr>cr_hmac_signature := sig\<rparr>) = Some b"
    "cl_unmarshal l b = Some (r\<lparr>cr_hmac_signature := sig\<rparr>)"
    using assms(1) unfolding consent_lib_ok_def by blast
  let ?g = "f\<lparr>disk := renamed consent_tmp consent_path ((disk f)(consent_tmp \<mapsto> b))\<rparr>"
  have "upgrade_record l key r f = (r\<lparr>cr_hmac_signature := sig\<rparr>, ?g)"
    using sig(1) b(1) assms(2) by (simp add: upgrade_record_def os_healthy Let_def)
  then have "is_consent_granted l m f = (True, ?g)"
    using assms by (simp add: is_consent_granted_def load_consent_record_def os_healthy)
  moreover have "disk ?g consent_path = Some b" by (simp add: renamed_consent)
  ultimately show ?thesis using sig(1) b(2) by blast
qed

section \<open>Witnesses\<close>

definition sample_manager :: manager where
  "sample_manager = \<lparr>m_version = ''0.1.0'', m_key = Some (replicate 32 1)\<rparr>"

theorem consent_roundtrip_witness:
  "\<exists>g. request_consent sample_consent_lib sample_manager True False (Windows 6) 5 (sample_fs []) = (None, g)
     \<and> is_consent_granted sample_consent_lib sample_manager g = (True, g)"
proof -
  obtain e g where r: "request_consent sample_consent_lib sample_manager True False (Windows 6) 5 (sample_fs []) = (e, g)"
    by fastforce
  have a: "int64_range 5" "list_all is_ascii [m_version sample_manager, current_platform (Windows 6)]"
    by (simp_all add: int64_range_def sample_manager_def current_platform_def)
  have y: "show_consent_dialog False (Windows 6) = Inr True"
    by (simp add: show_consent_dialog_def show_consent_dialog_impl_def)
  from consent_roundtrip [OF sample_consent_lib_ok _ a r] r y show ?thesis by auto
qed

theorem granted_means_recorded_witness:
  "\<exists>g dat r. fst (is_consent_granted sample_consent_lib sample_manager g)
     \<and> disk g consent_path = Some dat \<and> cl_unmarshal sample_consent_lib dat = Some r \<and> cr_explicit_grant r"
proof -
  let ?r = "\<lparr>cr_granted_at = 0, cr_dg_version = [], cr_platform = [], cr_dialog_text_hash = dialog_hash sample_consent_lib,
    cr_explicit_grant = True, cr_hmac_signature = hex_encode (replicate 32 5)\<rparr>"
  have "consent_safe ?r" by (simp add: consent_safe_def int64_range_def hex_ascii dialog_hash_def)
  then obtain dat where dat: "cl_unmarshal sample_consent_lib dat = Some ?r"
    using sample_consent_lib_ok unfolding consent_lib_ok_def by blast
  let ?f = "(sample_fs [])\<lparr>disk := [consent_path \<mapsto> dat]\<rparr>"
  have h: "healthy_fs ?f" "disk ?f consent_path = Some dat" by simp_all
  have "sign_record sample_consent_lib key ?r = Some (cr_hmac_signature ?r)" for key
    by (simp add: sign_record_def sample_consent_lib_def)
  then have "fst (is_consent_granted sample_consent_lib sample_manager ?f)"
    unfolding granted_means_recorded
    using dat h by (intro exI [of _ dat] exI [of _ ?r]) (auto simp: os_healthy)
  with dat h show ?thesis by force
qed

theorem consent_commit_atomic_witness:
  "\<exists>(g::fs) r dat. disk g consent_path = Some dat \<and> cl_marshal_indent sample_consent_lib r = Some dat \<and> cr_explicit_grant r"
proof -
  let ?f = "sample_fs [OkIO, CrashIO (Some 0)]"
  let ?l = "sample_consent_lib"
  obtain e g where r: "request_consent ?l sample_manager True False (Windows 6) 5 ?f = (e, g)" by fastforce
  have "disk g consent_path \<noteq> disk ?f consent_path"
    using r by (auto simp: request_consent_def show_consent_dialog_def show_consent_dialog_impl_def Let_def
        sample_manager_def sign_record_def sample_consent_lib_def os_write_file_def os_rename_def mutate_def
        next_fault_def sample_fs_def renamed_def)
  from consent_commit_atomic [OF r this] show ?thesis by blast
qed

theorem forged_record_accepted_witness:
  "\<exists>f g. healthy_fs f \<and> is_consent_granted sample_consent_lib sample_manager f = (True, g)"
proof -
  let ?r = "\<lparr>cr_granted_at = 0, cr_dg_version = [], cr_platform = [], cr_dialog_text_hash = dialog_hash sample_consent_lib,
    cr_explicit_grant = True, cr_hmac_signature = []\<rparr>"
  have safe: "consent_safe ?r" by (simp add: consent_safe_def int64_range_def hex_ascii dialog_hash_def)
  then obtain dat where dat: "cl_unmarshal sample_consent_lib dat = Some ?r"
    using sample_consent_lib_ok unfolding consent_lib_ok_def by blast
  let ?f = "(sample_fs [])\<lparr>disk := [consent_path \<mapsto> dat]\<rparr>"
  have f: "healthy_fs ?f" "disk ?f consent_path = Some dat" "m_key sample_manager = Some (replicate 32 1)"
    by (simp_all add: sample_manager_def)
  obtain g where "is_consent_granted sample_consent_lib sample_manager ?f = (True, g)"
    using forged_record_accepted [OF sample_consent_lib_ok f(1,3) safe f(2) dat] by auto
  with f(1) show ?thesis by blast
qed

section \<open>The tray and the gate\<close>

text \<open>The menu always agrees with the tooltip.\<close>

interpretation tray_menu: invariant_machine tray_step tray_run "\<lambda>s. pause_item_visible s = (\<not> tooltip_paused s)"
  by unfold_locales (auto simp: tray_step_def split: Option.bind_split option.split tray_event.splits if_splits)

text \<open>
  C35. The icon tells the truth: once the gate is wired, the tooltip and the menu show a pause exactly when the
  gate is paused, whatever is clicked, and the clicks never touch the blocklist; the one exception is a pause
  chosen before the gate existed, and it ends with the next click on pause or resume.
\<close>

theorem tray_shows_gate:
  assumes "tray_run before initial_tray = Some s"
    and "tray_run (GateWired (new_gate bl) # later) s = Some t"
    and "\<not> tooltip_paused s \<or> ClickPause \<in> set later \<or> ClickResume \<in> set later"
  shows "\<exists>g. tray_gate t = Some g \<and> paused g = tooltip_paused t \<and> pause_item_visible t = (\<not> paused g)
     \<and> gate_blocklist g = bl"
proof -
  have v: "pause_item_visible s = (\<not> tooltip_paused s)" using tray_menu.runs_keep [OF assms(1)] by (simp add: initial_tray_def)
  obtain w where w: "tray_step (GateWired (new_gate bl)) s = Some w" "tray_run later w = Some t"
    using assms(2) by (rule tray_menu.runs_ConsE)
  then have s: "w = s\<lparr>tray_gate := Some (new_gate bl)\<rparr>" by (auto simp: tray_step_def split: if_splits)
  have "\<exists>g. tray_gate t = Some g \<and> gate_blocklist g = bl \<and> pause_item_visible t = (\<not> tooltip_paused t)
      \<and> (\<not> tooltip_paused s \<or> ClickPause \<in> set later \<or> ClickResume \<in> set later \<longrightarrow> paused g = tooltip_paused t)"
    using w(2)
  proof (induction later t rule: tray_menu.runs_trace)
    case (event es u ev t)
    then show ?case
      by (cases ev) (auto simp: tray_step_def pause_def resume_def split: if_splits)
  qed (use s v in \<open>simp add: new_gate_def\<close>)
  with assms(3) show ?thesis by auto
qed

text \<open>A pause chosen too early, and the resume that sets it right.\<close>

theorem tray_shows_gate_witness:
  "\<forall>bl. \<exists>t g. tray_run [GateWired (new_gate bl), ClickResume, ClickPause]
       (initial_tray\<lparr>pause_item_visible := False, tooltip_paused := True\<rparr>) = Some t \<and> tray_gate t = Some g \<and> paused g"
proof
  fix bl
  let ?s = "initial_tray\<lparr>pause_item_visible := False, tooltip_paused := True\<rparr>"
  obtain t where t: "tray_run [GateWired (new_gate bl), ClickResume, ClickPause] ?s = Some t" "tooltip_paused t"
    by (simp add: tray_step_def initial_tray_def)
  have "tray_run [ClickPause] initial_tray = Some ?s" by (simp add: tray_step_def initial_tray_def)
  from tray_shows_gate [OF this t(1)] t
  show "\<exists>t g. tray_run [GateWired (new_gate bl), ClickResume, ClickPause] ?s = Some t \<and> tray_gate t = Some g \<and> paused g"
    by auto
qed

text \<open>
  A pause asked for before the gate exists is lost: the menu and the tooltip say paused, the gate that
  is wired afterwards is not.
\<close>

theorem early_pause_is_lost:
  "\<exists>t. tray_run [ClickPause, GateWired (new_gate bl)] initial_tray = Some t \<and> tooltip_paused t
     \<and> \<not> pause_item_visible t \<and> tray_gate t = Some (new_gate bl) \<and> \<not> paused (new_gate bl)"
  by (simp add: tray_step_def initial_tray_def new_gate_def)

end
