(* ===== verification/Daemon.thy ===== *)
theory Daemon
  imports Inference_Loop Consent Api Retention Capture Frame_Queue
begin

text \<open>
  \<open>cmd/digitalghost/main.go\<close>: the start sequence of \<open>run\<close>, the wipe and status commands, the default
  blocklist file and the capture goroutine, over the components of the other theories. What the
  outside decides is the record \<open>env\<close>; the memory that holds the key, the data directory, the
  requests sent and the blocklist file are the state \<open>boot\<close> the sequence threads.
\<close>

section \<open>Environment and state\<close>

record env =
  v_uid :: int
  v_wipe :: bool
  v_confirm :: bool
  v_status :: bool
  v_home :: "string option"
  v_read_config :: "string \<Rightarrow> read_result"
  v_unmarshal :: "bytes \<Rightarrow> config \<Rightarrow> string + config"
  v_config_path :: string
  v_mkdir_data :: bool
  v_lib :: lib
  v_keyring :: keyring_answer
  v_key_entropy :: "string + bytes"
  v_key_set_error :: "string option"
  v_key_ref :: nat
  v_consent_lib :: consent_lib
  v_headless :: bool
  v_platform :: platform
  v_now :: int
  v_tray_ready :: bool
  v_dec :: decoders
  v_net :: "ollama_body net"
  v_resolve :: resolver
  v_um :: "string \<Rightarrow> string"
  v_regexps :: "string \<Rightarrow> (string \<Rightarrow> bool) option"
  v_yaml :: "string \<Rightarrow> blocklist_config option"
  v_mkdir_config :: bool
  v_write_fails :: "nat option"
  v_default_blocklist :: string
  v_watch_ok :: bool
  v_mkdir_store :: bool
  v_ui :: string
  v_csrf :: "bytes option"
  v_random_pass :: "nat \<Rightarrow> nat \<Rightarrow> bytes"
  v_data_dir :: dir_read
  v_wipe_faults :: schedule
  v_key_delete :: keyring_answer

record boot =
  b_mem :: memory
  b_keychain :: "string option"
  b_fs :: fs
  b_sent :: "ollama_body http_request list"
  b_blocklist_file :: "string option"

record daemon =
  dm_cfg :: config
  dm_gate :: gate
  dm_queue :: "int frame queue"
  dm_governor :: governor
  dm_store :: json_state
  dm_encryptor :: encryptor
  dm_server :: server

datatype status_line =
    KeychainUnavailableLine key_error | EncryptorUnavailableLine seal_error | StoreUnavailableLine
  | StatsErrorLine store_error | NodesLine nat int

datatype refusal =
    RunsAsRoot | BadConfig config_error | NoDataDir | NoKeychain key_error | BadEncryptor seal_error
  | WipeNeedsConfirm | WipeStore | WipeFailed wipe_error | ConsentRequired consent_error | TrayFailed string
  | ModelUnverified ollama_error | NoHomeDir | StoreFailed | ApiFailed

datatype outcome =
    Refused refusal | Wiped | StatusShown status_line | Running daemon | BootExits | BootPanics | BootBlocks

section \<open>The steps\<close>

definition load_step :: "env \<Rightarrow> refusal + config" where
  "load_step v =
     (if v_uid v = 0 then Inl RunsAsRoot
      else (case load_config (v_home v) (v_read_config v) (v_unmarshal v) (v_config_path v) of
              Inl e \<Rightarrow> Inl (BadConfig e)
            | Inr cfg \<Rightarrow> if v_mkdir_data v then Inr cfg else Inl NoDataDir))"

definition open_key :: "env \<Rightarrow> boot \<Rightarrow> (key_error + key_manager) \<times> boot" where
  "open_key v b =
     (case new_key_manager (crypto (v_lib v)) (v_keyring v) (v_key_entropy v) (v_key_set_error v) (v_key_ref v) (b_mem b) of
        (r, mem, stored) \<Rightarrow>
          (r, b\<lparr>b_mem := mem, b_keychain := (case stored of None \<Rightarrow> b_keychain b | Some s \<Rightarrow> Some s)\<rparr>))"

definition version :: string where "version = ''0.1.0''"

definition consent_manager :: "key_manager \<Rightarrow> boot \<Rightarrow> manager" where
  "consent_manager km b = \<lparr>m_version = version, m_key = Some (km_key km (b_mem b))\<rparr>"

definition consent_step :: "env \<Rightarrow> key_manager \<Rightarrow> boot \<Rightarrow> refusal option \<times> boot" where
  "consent_step v km b =
     (case is_consent_granted (v_consent_lib v) (consent_manager km b) (b_fs b) of
        (True, f) \<Rightarrow> (None, b\<lparr>b_fs := f\<rparr>)
      | (False, f) \<Rightarrow>
          (case request_consent (v_consent_lib v) (consent_manager km b) (v_mkdir_data v) (v_headless v) (v_platform v)
                  (v_now v) f of
             (Some e, g) \<Rightarrow> (Some (ConsentRequired e), b\<lparr>b_fs := g\<rparr>)
           | (None, g) \<Rightarrow> (None, b\<lparr>b_fs := g\<rparr>)))"

text \<open>A server that does not answer the ping is not verified; a failed verification counts only when pinned.\<close>

definition verify_step :: "env \<Rightarrow> config \<Rightarrow> boot \<Rightarrow> refusal option \<times> boot" where
  "verify_step v cfg b =
     (let c = new_client (cfg_inference cfg) in
      case ping (v_net v) (v_resolve v) c (b_sent b) of
        (Inl _, sent) \<Rightarrow> (None, b\<lparr>b_sent := sent\<rparr>)
      | (Inr _, sent) \<Rightarrow>
          (case verify_model (v_dec v) (v_net v) (v_resolve v) c sent of
             (Inl e, sent') \<Rightarrow>
               (if model_digest (cfg_inference cfg) \<noteq> [] then Some (ModelUnverified e) else None, b\<lparr>b_sent := sent'\<rparr>)
           | (Inr _, sent') \<Rightarrow> (None, b\<lparr>b_sent := sent'\<rparr>)))"

text \<open>\<open>ensureDefaultBlocklist\<close>: a write that fails may leave a prefix of the file.\<close>

definition ensure_default_blocklist :: "bool \<Rightarrow> nat option \<Rightarrow> string \<Rightarrow> string option \<Rightarrow> bool \<times> string option" where
  "ensure_default_blocklist mkdir write_fails content old =
     (case old of
        Some _ \<Rightarrow> (True, old)
      | None \<Rightarrow>
          if \<not> mkdir then (False, None)
          else (case write_fails of None \<Rightarrow> (True, Some content) | Some k \<Rightarrow> (False, Some (take k content))))"

definition init_step :: "env \<Rightarrow> config \<Rightarrow> encryptor \<Rightarrow> boot \<Rightarrow> outcome \<times> boot" where
  "init_step v cfg enc b =
     (case v_home v of
        None \<Rightarrow> (Refused NoHomeDir, b)
      | Some home \<Rightarrow>
          (let path = join_path (join_path (join_path home ''.config'') ''digitalghost'') ''blocklist.yaml'';
               blf = snd (ensure_default_blocklist (v_mkdir_config v) (v_write_fails v) (v_default_blocklist v) (b_blocklist_file b));
               b1 = b\<lparr>b_blocklist_file := blf\<rparr>
           in case new_blocklist (v_um v) (v_regexps v) (v_yaml v) path blf (v_watch_ok v) of
                None \<Rightarrow> (BootExits, b1)
              | Some bl \<Rightarrow>
                  (case new_queue (queue_depth (cfg_capture cfg)) of
                     None \<Rightarrow> (BootPanics, b1)
                   | Some q \<Rightarrow>
                       (case new_governor (cfg_resource_budget cfg) of
                          StartPanics \<Rightarrow> (BootPanics, b1)
                        | StartBlocks \<Rightarrow> (BootBlocks, b1)
                        | Started g \<Rightarrow>
                            if \<not> v_mkdir_store v then (Refused StoreFailed, b1)
                            else
                              (case new_json_store (v_lib v) enc (b_fs b1) of
                                 (cache, f) \<Rightarrow>
                                   (case new_server (v_ui v) (model (cfg_inference cfg)) (v_csrf v) of
                                      None \<Rightarrow> (Refused ApiFailed, b1\<lparr>b_fs := f\<rparr>)
                                    | Some sv \<Rightarrow>
                                        (Running \<lparr>dm_cfg = cfg, dm_gate = new_gate bl, dm_queue = q, dm_governor = g,
                                                  dm_store = \<lparr>js_fs = f, js_cache = cache\<rparr>, dm_encryptor = enc,
                                                  dm_server = sv\<rparr>, b1\<lparr>b_fs := f\<rparr>)))))))"

section \<open>The commands\<close>

definition run_wipe :: "env \<Rightarrow> config \<Rightarrow> key_manager \<Rightarrow> encryptor \<Rightarrow> boot \<Rightarrow> outcome \<times> boot" where
  "run_wipe v cfg km enc b =
     (if \<not> v_mkdir_store v then (Refused WipeStore, b)
      else
        (case new_json_store (v_lib v) enc (b_fs b) of
           (cache, f) \<Rightarrow>
             (case wipe_all (v_random_pass v) (secure_delete (cfg_storage cfg)) km (v_key_delete v) (v_wipe_faults v)
                     \<lparr>ws_dir = v_data_dir v, ws_memory = b_mem b, ws_keychain = b_keychain b\<rparr> of
                (Some e, w) \<Rightarrow> (Refused (WipeFailed e), b\<lparr>b_fs := f, b_mem := ws_memory w, b_keychain := ws_keychain w\<rparr>)
              | (None, w) \<Rightarrow> (Wiped, b\<lparr>b_fs := f, b_mem := ws_memory w, b_keychain := ws_keychain w\<rparr>))))"

text \<open>
  \<open>runStatus\<close> loads the key a second time, into the reference after the first, opens the store the
  way the daemon does, and closes both on return.
\<close>

definition run_status :: "env \<Rightarrow> boot \<Rightarrow> status_line \<times> boot" where
  "run_status v b =
     (case open_key (v\<lparr>v_key_ref := v_key_ref v + 1\<rparr>) b of
        (Inl e, b1) \<Rightarrow> (KeychainUnavailableLine e, b1)
      | (Inr km, b1) \<Rightarrow>
          (let b2 = b1\<lparr>b_mem := close_key_manager km (b_mem b1)\<rparr> in
           case new_encryptor (km_key km (b_mem b1)) of
             Inl e \<Rightarrow> (EncryptorUnavailableLine e, b2)
           | Inr enc \<Rightarrow>
               if \<not> v_mkdir_store v then (StoreUnavailableLine, b2)
               else
                 (case new_json_store (v_lib v) enc (b_fs b1) of
                    (cache, f) \<Rightarrow>
                      (case count_records (v_lib v) enc f of
                         (Inl e, g) \<Rightarrow> (StatsErrorLine e, b2\<lparr>b_fs := g\<rparr>)
                       | (Inr (n, last_capture), g) \<Rightarrow> (NodesLine n last_capture, b2\<lparr>b_fs := g\<rparr>)))))"

section \<open>The start sequence\<close>

definition after_keys :: "env \<Rightarrow> config \<Rightarrow> key_manager \<Rightarrow> encryptor \<Rightarrow> boot \<Rightarrow> outcome \<times> boot" where
  "after_keys v cfg km enc b =
     (if v_wipe v then (if v_confirm v then run_wipe v cfg km enc b else (Refused WipeNeedsConfirm, b))
      else if v_status v then apfst StatusShown (run_status v b)
      else
        (case consent_step v km b of
           (Some e, b1) \<Rightarrow> (Refused e, b1)
         | (None, b1) \<Rightarrow>
             (case start_tray_icon (v_headless v) (v_platform v) (v_tray_ready v) of
                Some e \<Rightarrow> (Refused (TrayFailed e), b1)
              | None \<Rightarrow>
                  (case verify_step v cfg b1 of
                     (Some e, b2) \<Rightarrow> (Refused e, b2)
                   | (None, b2) \<Rightarrow> init_step v cfg enc b2))))"

text \<open>
  \<open>defer km.Close()\<close>, as Go runs deferred calls: when the body returns or panics, and not when the
  process is ended by \<open>os.Exit\<close>, when the body never gets on, or while it serves the running daemon.
\<close>

definition deferred :: "(boot \<Rightarrow> boot) \<Rightarrow> outcome \<times> boot \<Rightarrow> outcome \<times> boot" where
  "deferred call body =
     (case body of
        (Running d, b) \<Rightarrow> (Running d, b)
      | (BootExits, b) \<Rightarrow> (BootExits, b)
      | (BootBlocks, b) \<Rightarrow> (BootBlocks, b)
      | (BootPanics, b) \<Rightarrow> (BootPanics, call b)
      | (Refused e, b) \<Rightarrow> (Refused e, call b)
      | (Wiped, b) \<Rightarrow> (Wiped, call b)
      | (StatusShown l, b) \<Rightarrow> (StatusShown l, call b))"

definition run :: "env \<Rightarrow> boot \<Rightarrow> outcome \<times> boot" where
  "run v b =
     (case load_step v of
        Inl e \<Rightarrow> (Refused e, b)
      | Inr cfg \<Rightarrow>
          (case open_key v b of
             (Inl e, b1) \<Rightarrow> (Refused (NoKeychain e), b1)
           | (Inr km, b1) \<Rightarrow>
               deferred (\<lambda>b2. b2\<lparr>b_mem := close_key_manager km (b_mem b2)\<rparr>)
                 (case new_encryptor (km_key km (b_mem b1)) of
                    Inl e \<Rightarrow> (Refused (BadEncryptor e), b1)
                  | Inr enc \<Rightarrow> after_keys v cfg km enc b1)))"

lemmas deferred_simps [simp] = deferred_def [of _ "(Running d, b)" for d b, simplified]
  deferred_def [of _ "(BootExits, b)" for b, simplified] deferred_def [of _ "(BootBlocks, b)" for b, simplified]
  deferred_def [of _ "(BootPanics, b)" for b, simplified] deferred_def [of _ "(Refused e, b)" for e b, simplified]
  deferred_def [of _ "(Wiped, b)" for b, simplified] deferred_def [of _ "(StatusShown l, b)" for l b, simplified]

text \<open>
  The capture goroutine: the frames the capturer sends on its channel are pushed in order; a capturer
  that cannot be created sends none.
\<close>

fun bridge :: "'h frame list \<Rightarrow> 'h frame queue \<Rightarrow> 'h frame queue option" where
  "bridge [] q = Some q"
| "bridge (f # fs) q = (case push f q of None \<Rightarrow> None | Some q' \<Rightarrow> bridge fs q')"

definition run_capture_loop :: "string + 'h frame list \<Rightarrow> 'h frame queue \<Rightarrow> 'h frame queue option" where
  "run_capture_loop capturer q = (case capturer of Inl _ \<Rightarrow> Some q | Inr fs \<Rightarrow> bridge fs q)"

section \<open>Lemmas\<close>

lemma load_step_ok:
  "load_step v = Inr cfg \<Longrightarrow> v_uid v \<noteq> 0 \<and> v_mkdir_data v
     \<and> load_config (v_home v) (v_read_config v) (v_unmarshal v) (v_config_path v) = Inr cfg"
  by (auto simp: load_step_def split: if_splits sum.splits)

lemma init_step_running:
  assumes "init_step v cfg enc b = (Running d, b')"
  obtains bl path q where "new_blocklist (v_um v) (v_regexps v) (v_yaml v) path (b_blocklist_file b') (v_watch_ok v) = Some bl"
    "dm_gate d = new_gate bl" "dm_cfg d = cfg" "dm_encryptor d = enc"
    "new_queue (queue_depth (cfg_capture cfg)) = Some q" "dm_queue d = q"
    "new_governor (cfg_resource_budget cfg) = Started (dm_governor d)"
  using assms
  by (auto simp: init_step_def Let_def split: option.splits start_result.splits if_splits prod.splits)

lemma after_keys_running:
  assumes "after_keys v cfg km enc b = (Running d, b')"
  obtains b1 b2 where "\<not> v_wipe v" "\<not> v_status v" "consent_step v km b = (None, b1)"
    "start_tray_icon (v_headless v) (v_platform v) (v_tray_ready v) = None"
    "verify_step v cfg b1 = (None, b2)" "init_step v cfg enc b2 = (Running d, b')"
proof -
  have "fst (run_wipe v cfg km enc b) \<noteq> Running d"
    by (auto simp: run_wipe_def split: prod.split option.split)
  then show thesis
    using assms that unfolding after_keys_def
    by (auto split: if_splits prod.splits option.splits simp: apfst_def map_prod_def)
qed

lemma open_key_ok:
  "open_key v b = (Inr km, b1) \<Longrightarrow> km_ref km = v_key_ref v \<and> b_fs b1 = b_fs b \<and> b_sent b1 = b_sent b"
  by (auto simp: open_key_def new_key_manager_def split: keyring_answer.splits option.splits sum.splits if_splits prod.splits)

lemma deferred_outcome: "deferred call body = (r, b') \<Longrightarrow> fst body = r"
  by (auto simp: deferred_def split: prod.splits outcome.splits)

lemma deferred_running: "deferred call body = (Running d, b') \<Longrightarrow> body = (Running d, b')"
  by (auto simp: deferred_def split: prod.splits outcome.splits)

lemma run_running:
  assumes "run v b = (Running d, b')"
  obtains cfg km b1 where "load_step v = Inr cfg" "open_key v b = (Inr km, b1)"
    "new_encryptor (km_key km (b_mem b1)) = Inr (dm_encryptor d)" "dm_cfg d = cfg"
    "after_keys v cfg km (dm_encryptor d) b1 = (Running d, b')"
proof -
  obtain cfg where cfg: "load_step v = Inr cfg" using assms by (auto simp: run_def split: sum.splits)
  obtain km b1 where km: "open_key v b = (Inr km, b1)"
    using assms cfg by (auto simp: run_def split: sum.splits prod.splits)
  obtain enc where enc: "new_encryptor (km_key km (b_mem b1)) = Inr enc"
    using assms cfg km by (cases "new_encryptor (km_key km (b_mem b1))") (auto simp: run_def)
  then have a: "after_keys v cfg km enc b1 = (Running d, b')"
    using assms cfg km deferred_running by (auto simp: run_def)
  then obtain b2 where "init_step v cfg enc b2 = (Running d, b')" by (rule after_keys_running)
  then have "dm_encryptor d = enc" "dm_cfg d = cfg" by (auto elim: init_step_running)
  with cfg km enc a show thesis using that by blast
qed

lemma consent_step_ok:
  assumes "consent_step v km b = (None, b1)"
  shows "fst (is_consent_granted (v_consent_lib v) (consent_manager km b) (b_fs b))
     \<or> show_consent_dialog (v_headless v) (v_platform v) = Inr True" "b_sent b1 = b_sent b"
  using assms
  by (auto simp: consent_step_def request_consent_def split: prod.splits bool.splits option.splits if_splits sum.splits)

lemma verify_model_digest:
  "verify_model dec net resolve c sent = (Inr d, sent') \<Longrightarrow> model_digest (oc_cfg c) \<noteq> [] \<Longrightarrow> d = model_digest (oc_cfg c)"
  by (auto simp: verify_model_def call_api_def check_models_def Let_def split: option.splits sum.splits prod.splits if_splits)

lemma verify_step_ok:
  assumes "verify_step v cfg b = (None, b2)" "model_digest (cfg_inference cfg) \<noteq> []"
  shows "(\<exists>e. fst (ping (v_net v) (v_resolve v) (new_client (cfg_inference cfg)) (b_sent b)) = Inl e)
     \<or> (\<exists>sent. fst (verify_model (v_dec v) (v_net v) (v_resolve v) (new_client (cfg_inference cfg)) sent)
            = Inr (model_digest (cfg_inference cfg)))"
proof -
  let ?c = "new_client (cfg_inference cfg)"
  obtain x sent where p: "ping (v_net v) (v_resolve v) ?c (b_sent b) = (x, sent)" by fastforce
  obtain y sent2 where m: "verify_model (v_dec v) (v_net v) (v_resolve v) ?c sent = (y, sent2)" by fastforce
  have o: "oc_cfg ?c = cfg_inference cfg" by (simp add: new_client_def)
  show ?thesis
  proof (cases x)
    case (Inr u)
    then obtain d where d: "y = Inr d" using assms p m by (cases y) (auto simp: verify_step_def Let_def)
    then have "d = model_digest (cfg_inference cfg)" using verify_model_digest [of _ _ _ ?c] m assms(2) o by metis
    then show ?thesis using m d by (metis fst_conv)
  qed (use p in simp)
qed

text \<open>No step of the start touches the memory that holds the key: only the commands and the deferred call do.\<close>

lemma init_step_mem: "init_step v cfg enc b = (r, b') \<Longrightarrow> b_mem b' = b_mem b"
  by (auto simp: init_step_def Let_def split: option.splits start_result.splits if_splits prod.splits)

lemma steps_mem:
  "consent_step v km b = (o1, b1) \<Longrightarrow> b_mem b1 = b_mem b"
  "verify_step v cfg b = (o1, b1) \<Longrightarrow> b_mem b1 = b_mem b"
  by (auto simp: consent_step_def verify_step_def Let_def split: prod.splits bool.splits option.splits sum.splits)

lemma run_wipe_returns: "run_wipe v cfg km enc b = (r, b') \<Longrightarrow> r = Wiped \<or> (\<exists>e. r = Refused e)"
  by (auto simp: run_wipe_def split: if_splits prod.splits option.splits)

lemma after_keys_mem:
  assumes "after_keys v cfg km enc b = (r, b')" "\<And>e. r \<noteq> Refused e" "r \<noteq> Wiped" "\<And>l. r \<noteq> StatusShown l"
  shows "b_mem b' = b_mem b"
  using assms run_wipe_returns [of v cfg km enc b r b'] init_step_mem [of v cfg enc _ r b'] steps_mem
  by (auto simp: after_keys_def apfst_def map_prod_def split: if_splits prod.splits option.splits)

text \<open>The second copy of the key, which the status command loads, is zeroed by the command itself.\<close>

lemma run_status_mem:
  assumes "run_status v b = (l, b')" "\<And>e. l \<noteq> KeychainUnavailableLine e"
  shows "set (b_mem b' (v_key_ref v + 1)) \<subseteq> {0}"
proof -
  obtain km b1 where k: "open_key (v\<lparr>v_key_ref := v_key_ref v + 1\<rparr>) b = (Inr km, b1)"
    using assms by (auto simp: run_status_def split: prod.splits sum.splits)
  have "km_ref km = v_key_ref v + 1" using open_key_ok [OF k] by simp
  then show ?thesis using assms k
    by (auto simp: run_status_def Let_def close_key_manager_def zero_bytes_def
        split: prod.splits sum.splits if_splits)
qed

lemma after_keys_status:
  assumes "after_keys v cfg km enc b = (StatusShown l, b')"
  shows "run_status v b = (l, b')"
  using assms run_wipe_returns [of v cfg km enc b "StatusShown l" b']
  by (auto simp: after_keys_def init_step_def Let_def apfst_def map_prod_def
      split: if_splits prod.splits option.splits start_result.splits)

lemma wal_plain [simp]: "plain_path \<noteq> wal_path" by (simp add: plain_path_def wal_path_def)

lemma cache_load_pure:
  assumes "healthy_fs f" shows "snd (load_embedding_cache l e f) = f"
proof -
  have "snd (load_cache_entries l e es c f) = f" for es c
  proof (induction es arbitrary: c)
    case (Cons x es)
    then show ?case using assms by (auto simp: os_healthy Let_def split: option.split prod.split sum.split)
  qed simp
  then show ?thesis using load_index_pure [OF assms, of l e]
    by (auto simp: load_embedding_cache_def split: prod.split sum.split)
qed

section \<open>Properties\<close>

text \<open>
  C5. The order of the start is a safety constraint, and it is kept: when the daemon runs, it does not
  run as root, it was not asked to wipe or to report, its configuration was loaded and validated,
  its key has 32 bytes and comes from the keychain, consent was on record under that key or has
  just been given, the tray icon is up, a pinned model digest was confirmed by the server if the
  server answered at all, the gate is open and holds the built-in protections, and the governor
  was started from the configured budget.
\<close>

theorem running_means_checked:
  assumes "run v b = (Running d, b')"
  shows "v_uid v \<noteq> 0 \<and> \<not> v_wipe v \<and> \<not> v_status v
     \<and> load_config (v_home v) (v_read_config v) (v_unmarshal v) (v_config_path v) = Inr (dm_cfg d)
     \<and> (\<exists>km b1. open_key v b = (Inr km, b1) \<and> length (km_key km (b_mem b1)) = 32
          \<and> (fst (is_consent_granted (v_consent_lib v) (consent_manager km b1) (b_fs b))
             \<or> show_consent_dialog (v_headless v) (v_platform v) = Inr True))
     \<and> start_tray_icon (v_headless v) (v_platform v) (v_tray_ready v) = None
     \<and> (model_digest (cfg_inference (dm_cfg d)) \<noteq> [] \<longrightarrow>
          (\<exists>e. fst (ping (v_net v) (v_resolve v) (new_client (cfg_inference (dm_cfg d))) (b_sent b)) = Inl e)
          \<or> (\<exists>sent. fst (verify_model (v_dec v) (v_net v) (v_resolve v) (new_client (cfg_inference (dm_cfg d))) sent)
               = Inr (model_digest (cfg_inference (dm_cfg d)))))
     \<and> \<not> paused (dm_gate d) \<and> protects (v_um v) (gate_blocklist (dm_gate d))
     \<and> new_governor (cfg_resource_budget (dm_cfg d)) = Started (dm_governor d)"
proof -
  obtain cfg km b1 where r: "load_step v = Inr cfg" "open_key v b = (Inr km, b1)"
    "new_encryptor (km_key km (b_mem b1)) = Inr (dm_encryptor d)" "dm_cfg d = cfg"
    "after_keys v cfg km (dm_encryptor d) b1 = (Running d, b')"
    using assms by (rule run_running)
  obtain b2 b3 where a: "\<not> v_wipe v" "\<not> v_status v" "consent_step v km b1 = (None, b2)"
    "start_tray_icon (v_headless v) (v_platform v) (v_tray_ready v) = None"
    "verify_step v cfg b2 = (None, b3)" "init_step v cfg (dm_encryptor d) b3 = (Running d, b')"
    using r(5) by (rule after_keys_running)
  obtain bl path where i: "new_blocklist (v_um v) (v_regexps v) (v_yaml v) path (b_blocklist_file b') (v_watch_ok v) = Some bl"
    "dm_gate d = new_gate bl" "new_governor (cfg_resource_budget cfg) = Started (dm_governor d)"
    using a(6) by (rule init_step_running)
  have "protects (v_um v) bl" using new_blocklist_protects i(1) by (metis option.inject)
  then have gate: "\<not> paused (dm_gate d)" "protects (v_um v) (gate_blocklist (dm_gate d))"
    using i(2) by (simp_all add: new_gate_def)
  have len: "length (km_key km (b_mem b1)) = 32"
    using r(3) by (simp add: new_encryptor_def key_len_def split: if_splits)
  note o = open_key_ok [OF r(2)]
  have v: "model_digest (cfg_inference cfg) \<noteq> [] \<longrightarrow>
      (\<exists>e. fst (ping (v_net v) (v_resolve v) (new_client (cfg_inference cfg)) (b_sent b)) = Inl e)
      \<or> (\<exists>sent. fst (verify_model (v_dec v) (v_net v) (v_resolve v) (new_client (cfg_inference cfg)) sent)
               = Inr (model_digest (cfg_inference cfg)))"
    using verify_step_ok [OF a(5)] consent_step_ok(2) [OF a(3)] o by simp
  show ?thesis
    using load_step_ok [OF r(1)] a(1,2,4) r(2,4) len consent_step_ok(1) [OF a(3)] o v gate i(3)
    by (intro conjI; (simp; fail)?)
qed

text \<open>
  C39. The key does not outlive the attempt to start: once the key was loaded, every step that refuses,
  every command that was executed and every panic of the start leaves the bytes of the key zero, and
  the status command also those of the second copy it loads. Only a daemon that runs, a start that
  blocks in the governor and a process that exits keep the key as it was loaded.
\<close>

theorem key_zeroed_on_return:
  assumes "run v b = (r, b')" "load_step v = Inr cfg" "open_key v b = (Inr km, b1)"
  shows "case r of
       Running d \<Rightarrow> b_mem b' (v_key_ref v) = b_mem b1 (v_key_ref v)
     | BootBlocks \<Rightarrow> b_mem b' (v_key_ref v) = b_mem b1 (v_key_ref v)
     | BootExits \<Rightarrow> b_mem b' (v_key_ref v) = b_mem b1 (v_key_ref v)
     | BootPanics \<Rightarrow> set (b_mem b' (v_key_ref v)) \<subseteq> {0}
     | Refused e \<Rightarrow> set (b_mem b' (v_key_ref v)) \<subseteq> {0}
     | Wiped \<Rightarrow> set (b_mem b' (v_key_ref v)) \<subseteq> {0}
     | StatusShown l \<Rightarrow> set (b_mem b' (v_key_ref v)) \<subseteq> {0}
         \<and> ((\<exists>e. l = KeychainUnavailableLine e) \<or> set (b_mem b' (v_key_ref v + 1)) \<subseteq> {0})"
proof -
  let ?body = "case new_encryptor (km_key km (b_mem b1)) of
       Inl e \<Rightarrow> (Refused (BadEncryptor e), b1) | Inr enc \<Rightarrow> after_keys v cfg km enc b1"
  have ref: "km_ref km = v_key_ref v" using open_key_ok [OF assms(3)] by blast
  obtain r2 b2 where body: "?body = (r2, b2)" by fastforce
  have run: "(r, b') = deferred (\<lambda>b2. b2\<lparr>b_mem := close_key_manager km (b_mem b2)\<rparr>) (r2, b2)"
    using assms by (simp add: run_def body)
  have zero: "set (close_key_manager km m (v_key_ref v)) \<subseteq> {0}" for m
    using ref by (auto simp: close_key_manager_def zero_bytes_def)
  have other: "close_key_manager km m (v_key_ref v + 1) = m (v_key_ref v + 1)" for m
    using ref by (simp add: close_key_manager_def zero_bytes_def)
  have kept: "b_mem b2 = b_mem b1" if "\<And>e. r2 \<noteq> Refused e" "r2 \<noteq> Wiped" "\<And>l. r2 \<noteq> StatusShown l"
    using body that after_keys_mem by (auto split: sum.splits)
  have status: "(\<exists>e. l = KeychainUnavailableLine e) \<or> set (b_mem b2 (v_key_ref v + 1)) \<subseteq> {0}" if "r2 = StatusShown l" for l
    using body that after_keys_status run_status_mem by (fastforce split: sum.splits)
  show ?thesis using run kept status zero other by (cases r2) simp_all
qed

text \<open>
  The pin protects only a server that is up: when the ping at the start fails, the digest is never
  asked for, and the frames go to whatever answers later.
\<close>

theorem pin_skipped_when_unreachable:
  assumes "fst (ping (v_net v) (v_resolve v) (new_client (cfg_inference cfg)) (b_sent b)) = Inl e"
  shows "fst (verify_step v cfg b) = None"
  using assms by (auto simp: verify_step_def Let_def split: prod.split sum.split)

text \<open>
  The status command is not read-only: opening the store replays and removes the write-ahead log of
  the daemon that may be writing at that moment.
\<close>

theorem status_loses_inflight_write:
  assumes "healthy_fs f" "disk f plain_path = None" "disk f wal_path = None" "read_index l e (disk f) = Some es"
    and "length i = 16" "hex_encode i \<notin> ie_id ` set es" "disk f (node_path i) = None"
    and "open_key (v\<lparr>v_key_ref := v_key_ref v + 1\<rparr>) b = (Inr km, b1)" "new_encryptor (km_key km (b_mem b1)) = Inr e"
    and "v_mkdir_store v" "v_lib v = l" "b_fs b = snd (append_wal i ts f)"
    and "snd (run_status v b) = b2" "g = snd (os_write_file (node_path i) p (b_fs b2))"
  shows "disk (snd (new_json_store l e g)) (node_path i) = Some p
     \<and> read_index l e (disk (snd (new_json_store l e g))) = Some es"
proof -
  let ?d1 = "(disk f)(wal_path \<mapsto> bytes_of (wal_line i ts))"
  let ?f1 = "f\<lparr>disk := ?d1\<rparr>" and ?f2 = "f\<lparr>disk := (disk f)(wal_path := None)\<rparr>"
  have f1: "b_fs b = ?f1"
    using assms(1,3,12) by (simp add: append_wal_def os_healthy old_bytes_def)
  have en: "wal_entries (wal_line i ts) = Some [(i, wrap64 ts)]"
    using wal_entries_torn [of "[]" i "length (wal_line i ts)" ts] assms(5) by (simp add: wal_text_def)
  have ri: "read_index l e ?d1 = Some es" "read_index l e ((disk f)(wal_path := None)) = Some es"
    using assms(4) by (simp_all add: read_index_def paths)
  note np = node_path_facts [OF assms(5)]
  have li: "load_index l e ?f1 = (Inr es, ?f1)" using load_index_healthy [of ?f1 l e es] ri(1) assms(1) by simp
  have "hex_encode i \<notin> ie_id ` set (entries_or_empty (Inr es))" using assms(6) by (simp add: entries_or_empty_def)
  then have "replay_wal l e ?f1 = (None, ?f2)"
    using assms(1,7) np li by (simp add: replay_wal_def os_healthy en)
  moreover have "migrate_index_if_needed l e ?f1 = (None, ?f1)"
    using assms(1,2) by (simp add: migrate_index_if_needed_def os_healthy wal_plain)
  ultimately have open1: "snd (new_json_store l e ?f1) = ?f2"
    using cache_load_pure [of ?f2 l e] assms(1) by (simp add: new_json_store_def)
  obtain c where c: "new_json_store l e ?f1 = (c, ?f2)" using open1 by (cases "new_json_store l e ?f1") auto
  have b1: "b_fs b1 = ?f1" using open_key_ok [OF assms(8)] f1 by simp
  have "snd (count_records l e ?f2) = ?f2" using load_index_pure [of ?f2 l e] assms(1)
    by (auto simp: count_records_def split: sum.split prod.split)
  then have "b_fs b2 = ?f2"
    using assms(8-11) b1 c by (auto simp: assms(13) [symmetric] run_status_def Let_def split: prod.split sum.split)
  then have g: "g = f\<lparr>disk := (disk f)(wal_path := None, node_path i \<mapsto> p)\<rparr>"
    using assms(1,14) by (simp add: os_healthy)
  have "migrate_index_if_needed l e g = (None, g)" "replay_wal l e g = (None, g)"
    using assms(1,2) np by (simp_all add: g migrate_index_if_needed_def replay_wal_def os_healthy wal_plain)
  then have "snd (new_json_store l e g) = g"
    using cache_load_pure [of g l e] assms(1) by (simp add: new_json_store_def g)
  moreover have "read_index l e (disk g) = Some es" using assms(4) np by (simp add: g read_index_def paths)
  ultimately show ?thesis by (simp add: g)
qed


section \<open>A start that runs\<close>

text \<open>
  A first start on a machine without configuration, key, consent or model server, with the headless
  answer to the dialog.
\<close>

definition sample_env :: env where
  "sample_env = \<lparr>v_uid = 1000, v_wipe = False, v_confirm = False, v_status = False, v_home = Some ''/home/me'',
     v_read_config = (\<lambda>_. NotExist), v_unmarshal = (\<lambda>_. Inr), v_config_path = ''dg.yaml'', v_mkdir_data = True,
     v_lib = sample_lib, v_keyring = KeyNotFound, v_key_entropy = Inr [], v_key_set_error = None, v_key_ref = 0,
     v_consent_lib = sample_consent_lib, v_headless = True, v_platform = OtherOS ''linux'', v_now = 5,
     v_tray_ready = False, v_dec = \<lparr>dec_generate = (\<lambda>_. Inl []), dec_embed = (\<lambda>_. Inl []), dec_tags = (\<lambda>_. Inl [])\<rparr>,
     v_net = (\<lambda>_ _. Inl ''refused''), v_resolve = (\<lambda>_ _. None), v_um = id, v_regexps = (\<lambda>_. None), v_yaml = (\<lambda>_. None),
     v_mkdir_config = True, v_write_fails = None, v_default_blocklist = ''apps:'', v_watch_ok = True,
     v_mkdir_store = True, v_ui = [], v_csrf = Some [1], v_random_pass = (\<lambda>_ _. []), v_data_dir = DirMissing,
     v_wipe_faults = [], v_key_delete = KeyNotFound\<rparr>"

definition sample_boot :: boot where
  "sample_boot = \<lparr>b_mem = (\<lambda>_. []), b_keychain = None, b_fs = sample_fs [], b_sent = [], b_blocklist_file = None\<rparr>"

lemmas sample_start = sample_env_def sample_boot_def

lemma ping_refused: "\<exists>e sent. ping (\<lambda>_ _. Inl x) resolve c s = (Inl e, sent)"
proof -
  have "follow (\<lambda>_ _. Inl x) resolve n rq sent = (Inl x, sent @ [rq])" for n rq and sent :: "ollama_body http_request list"
    by (subst follow.simps) simp
  then show ?thesis by (auto simp: ping_def call_api_def http_do_def Let_def split: option.split)
qed

lemma sample_consent:
  assumes "b_fs b = sample_fs []" shows "\<exists>b1. consent_step sample_env km b = (None, b1)"
  using assms
  by (auto simp: consent_step_def sample_env_def is_consent_granted_def load_consent_record_def os_healthy
      request_consent_def show_consent_dialog_def consent_manager_def sign_record_def sample_consent_lib_def
      Let_def split: prod.split)

lemma sample_key:
  "\<exists>b enc. open_key sample_env sample_boot = (Inr \<lparr>km_ref = 0\<rparr>, b)
     \<and> new_encryptor (km_key \<lparr>km_ref = 0\<rparr> (b_mem b)) = Inr enc"
  by (simp add: open_key_def sample_start new_key_manager_def generate_key_def sample_lib_def toy_crypto_def
      new_encryptor_def km_key_def key_len_def)

lemma sample_yaml:
  "open_key (sample_env\<lparr>v_yaml := y\<rparr>) b = open_key sample_env b"
  "consent_step (sample_env\<lparr>v_yaml := y\<rparr>) km b = consent_step sample_env km b"
  "verify_step (sample_env\<lparr>v_yaml := y\<rparr>) cfg b = verify_step sample_env cfg b"
  by (auto simp: open_key_def consent_step_def verify_step_def Let_def split: prod.split sum.split bool.split)

lemma sample_init:
  assumes "cfg_capture cfg = cfg_capture config_defaults" "cfg_resource_budget cfg = cfg_resource_budget config_defaults"
  shows "\<exists>d b1. init_step (sample_env\<lparr>v_yaml := y\<rparr>) cfg enc b = (Running d, b1)"
proof -
  let ?p = "join_path (join_path (join_path ''/home/me'' ''.config'') ''digitalghost'') ''blocklist.yaml''"
  let ?c = "snd (ensure_default_blocklist True None ''apps:'' (b_blocklist_file b))"
  obtain bl where bl: "new_blocklist id (\<lambda>_. None) y ?p ?c True = Some bl"
    by (rule new_blocklist_protects)
  obtain q :: "int frame queue" where q: "new_queue (queue_depth (cfg_capture cfg)) = Some q"
    using assms(1) by (simp add: new_queue_def config_defaults_def)
  obtain g where g: "new_governor (cfg_resource_budget cfg) = Started g"
    using assms(2) by (simp add: new_governor_def config_defaults_def)
  have v: "v_home sample_env = Some ''/home/me''" "v_mkdir_config sample_env" "v_write_fails sample_env = None"
    "v_default_blocklist sample_env = ''apps:''" "v_um sample_env = id" "v_regexps sample_env = (\<lambda>_. None)"
    "v_watch_ok sample_env" "v_mkdir_store sample_env" "v_csrf sample_env = Some [1]"
    by (simp_all add: sample_env_def)
  show ?thesis using bl q g by (simp add: init_step_def v Let_def new_server_def split: prod.split)
qed

lemma sample_daemon_runs_with: "\<exists>d b. run (sample_env\<lparr>v_yaml := y\<rparr>) sample_boot = (Running d, b)"
proof -
  let ?c = "expand_config (Some ''/home/me'') config_defaults" and ?v = "sample_env\<lparr>v_yaml := y\<rparr>"
  have l: "load_step ?v = Inr ?c"
    by (simp add: load_step_def sample_env_def load_config_def defaults_valid)
  obtain b enc where k: "open_key ?v sample_boot = (Inr \<lparr>km_ref = 0\<rparr>, b)"
    "new_encryptor (km_key \<lparr>km_ref = 0\<rparr> (b_mem b)) = Inr enc" using sample_key unfolding sample_yaml by blast
  have "b_fs b = sample_fs []" using open_key_ok [OF k(1)] by (simp add: sample_boot_def)
  then obtain b1 where c: "consent_step ?v \<lparr>km_ref = 0\<rparr> b = (None, b1)" unfolding sample_yaml using sample_consent by blast
  obtain e sent where p: "ping (v_net sample_env) (v_resolve sample_env) (new_client (cfg_inference ?c)) (b_sent b1) = (Inl e, sent)"
    using ping_refused by (simp add: sample_env_def) blast
  obtain d b2 where "init_step ?v ?c enc (b1\<lparr>b_sent := sent\<rparr>) = (Running d, b2)"
    using sample_init [of ?c y enc "b1\<lparr>b_sent := sent\<rparr>"] by (auto simp: expand_config_def)
  moreover have "verify_step ?v ?c b1 = (None, b1\<lparr>b_sent := sent\<rparr>)"
    using p by (simp add: sample_yaml verify_step_def Let_def)
  moreover have "start_tray_icon (v_headless ?v) (v_platform ?v) (v_tray_ready ?v) = None" "\<not> v_wipe ?v" "\<not> v_status ?v"
    by (simp_all add: sample_env_def start_tray_icon_def)
  ultimately have "after_keys ?v ?c \<lparr>km_ref = 0\<rparr> enc b = (Running d, b2)"
    using c by (simp add: after_keys_def del: env.simps)
  then show ?thesis using l k by (simp add: run_def)
qed

lemma sample_daemon_runs: "\<exists>d b. run sample_env sample_boot = (Running d, b)"
  using sample_daemon_runs_with [of "v_yaml sample_env"] by simp

theorem running_means_checked_witness:
  "\<exists>d b. run sample_env sample_boot = (Running d, b) \<and> \<not> paused (dm_gate d) \<and> protects id (gate_blocklist (dm_gate d))
     \<and> new_governor (cfg_resource_budget (dm_cfg d)) = Started (dm_governor d)"
proof -
  obtain d b where r: "run sample_env sample_boot = (Running d, b)" using sample_daemon_runs by blast
  have "v_um sample_env = id" by (simp add: sample_env_def)
  with running_means_checked [OF r] r show ?thesis by metis
qed

theorem key_zeroed_on_return_witness:
  "\<exists>b. run (sample_env\<lparr>v_wipe := True\<rparr>) sample_boot = (Refused WipeNeedsConfirm, b) \<and> set (b_mem b 0) \<subseteq> {0}"
proof -
  let ?v = "sample_env\<lparr>v_wipe := True\<rparr>"
  have same: "open_key ?v sample_boot = open_key sample_env sample_boot" "load_step ?v = load_step sample_env"
    by (simp_all add: open_key_def load_step_def split: sum.split)
  have l: "load_step ?v = Inr (expand_config (Some ''/home/me'') config_defaults)"
    by (simp add: load_step_def sample_env_def load_config_def defaults_valid)
  obtain b1 enc where k: "open_key ?v sample_boot = (Inr \<lparr>km_ref = 0\<rparr>, b1)"
    "new_encryptor (km_key \<lparr>km_ref = 0\<rparr> (b_mem b1)) = Inr enc" using sample_key same by auto
  obtain b where r: "run ?v sample_boot = (Refused WipeNeedsConfirm, b)"
    using l k by (simp add: run_def after_keys_def) (simp add: sample_env_def)
  from key_zeroed_on_return [OF r l k(1)] r show ?thesis by (auto simp: sample_env_def)
qed

end
