(* ===== verification/Command_Line.thy ===== *)
theory Command_Line
  imports Daemon
begin

text \<open>
  The command line of \<open>cmd/digitalghost/main.go\<close>: the flags \<open>run\<close> declares, parsed the way package
  \<open>flag\<close> parses them, and \<open>main\<close>. Parsing stops at the first argument that is no flag; what follows
  is never looked at.
\<close>

section \<open>Package flag\<close>

datatype flag_error = BadSyntax string | NotDefined string | HelpAsked | NeedsArgument string | BadValue string

record flags =
  fl_config :: string
  fl_wipe :: bool
  fl_confirm :: bool
  fl_status :: bool

definition default_flags :: flags where
  "default_flags = \<lparr>fl_config = ''~/.config/digitalghost/config.yaml'', fl_wipe = False, fl_confirm = False, fl_status = False\<rparr>"

text \<open>\<open>strconv.ParseBool\<close>.\<close>

definition parse_bool :: "string \<Rightarrow> bool option" where
  "parse_bool s =
     (if s \<in> {''1'', ''t'', ''T'', ''true'', ''TRUE'', ''True''} then Some True
      else if s \<in> {''0'', ''f'', ''F'', ''false'', ''FALSE'', ''False''} then Some False
      else None)"

definition set_bool_flag :: "string \<Rightarrow> bool \<Rightarrow> flags \<Rightarrow> flags" where
  "set_bool_flag name b f =
     (if name = ''wipe'' then f\<lparr>fl_wipe := b\<rparr>
      else if name = ''confirm'' then f\<lparr>fl_confirm := b\<rparr>
      else f\<lparr>fl_status := b\<rparr>)"

text \<open>
  The name and the value of a flag: what is before and after the first equals sign from the second
  byte on.
\<close>

definition name_value :: "string \<Rightarrow> string \<times> string option" where
  "name_value s =
     (case s of
        [] \<Rightarrow> ([], None)
      | c # cs \<Rightarrow>
          (case dropWhile (\<lambda>x. x \<noteq> CHR ''='') cs of
             [] \<Rightarrow> (s, None)
           | _ # v \<Rightarrow> (c # takeWhile (\<lambda>x. x \<noteq> CHR ''='') cs, Some v)))"

text \<open>\<open>parseOne\<close> for one flag, with the arguments after it; \<open>None\<close> when the argument is no flag.\<close>

definition strip_minus :: "string \<Rightarrow> string option" where
  "strip_minus s =
     (case s of
        [] \<Rightarrow> None
      | [c] \<Rightarrow> None
      | c # d # cs \<Rightarrow> if c \<noteq> CHR ''-'' then None else if d = CHR ''-'' then Some cs else Some (d # cs))"

fun parse_flags :: "string list \<Rightarrow> flags \<Rightarrow> flag_error + flags" where
  "parse_flags [] f = Inr f"
| "parse_flags (s # args) f =
     (case strip_minus s of
        None \<Rightarrow> Inr f
      | Some [] \<Rightarrow> Inr f
      | Some (c # cs) \<Rightarrow>
          if c = CHR ''-'' \<or> c = CHR ''='' then Inl (BadSyntax s)
          else
            (case name_value (c # cs) of (name, value) \<Rightarrow>
               if name \<in> {''wipe'', ''confirm'', ''status''} then
                 (case value of
                    None \<Rightarrow> parse_flags args (set_bool_flag name True f)
                  | Some v \<Rightarrow>
                      (case parse_bool v of
                         None \<Rightarrow> Inl (BadValue v)
                       | Some b \<Rightarrow> parse_flags args (set_bool_flag name b f)))
               else if name = ''config'' then
                 (case value of
                    Some v \<Rightarrow> parse_flags args (f\<lparr>fl_config := v\<rparr>)
                  | None \<Rightarrow>
                      (case args of
                         [] \<Rightarrow> Inl (NeedsArgument name)
                       | v # rest \<Rightarrow> parse_flags rest (f\<lparr>fl_config := v\<rparr>)))
               else if name \<in> {''help'', ''h''} then Inl HelpAsked
               else Inl (NotDefined name)))"

section \<open>The program\<close>

text \<open>
  The exit code with the outcome of \<open>run\<close>; a flag error exits with 2, a request for help with 0. The
  code of a daemon that runs is not decided yet.
\<close>

definition dg_main :: "string list \<Rightarrow> env \<Rightarrow> boot \<Rightarrow> int option \<times> outcome option \<times> boot" where
  "dg_main args v b =
     (case parse_flags args default_flags of
        Inl HelpAsked \<Rightarrow> (Some 0, None, b)
      | Inl _ \<Rightarrow> (Some 2, None, b)
      | Inr f \<Rightarrow>
          (case run (v\<lparr>v_config_path := fl_config f, v_wipe := fl_wipe f, v_confirm := fl_confirm f, v_status := fl_status f\<rparr>) b of
             (r, b1) \<Rightarrow>
               (case r of
                  Refused _ \<Rightarrow> Some 1
                | Wiped \<Rightarrow> Some 0
                | StatusShown _ \<Rightarrow> Some 0
                | Running _ \<Rightarrow> None
                | BootExits \<Rightarrow> Some 1
                | BootPanics \<Rightarrow> Some 2
                | BootBlocks \<Rightarrow> None, Some r, b1)))"

section \<open>Lemmas\<close>

lemma run_wipe_wiped: "run_wipe v cfg km enc b = (Wiped, b1) \<Longrightarrow> b_keychain b1 = None"
  by (auto simp: run_wipe_def wipe_all_def Let_def split: if_splits prod.splits option.splits dir_read.splits)

lemma after_keys_wiped:
  assumes "after_keys v cfg km enc b = (Wiped, b1)"
  shows "v_wipe v \<and> v_confirm v \<and> b_keychain b1 = None"
  using assms run_wipe_wiped [of v cfg km enc b b1]
  by (auto simp: after_keys_def init_step_def Let_def apfst_def map_prod_def
      split: prod.splits if_splits option.splits start_result.splits)

lemma run_wiped:
  assumes "run v b = (Wiped, b1)"
  shows "v_wipe v \<and> v_confirm v \<and> b_keychain b1 = None \<and> set (b_mem b1 (v_key_ref v)) \<subseteq> {0}"
proof -
  obtain cfg where cfg: "load_step v = Inr cfg" using assms by (auto simp: run_def split: sum.splits)
  obtain km b2 where km: "open_key v b = (Inr km, b2)" using assms cfg by (auto simp: run_def split: prod.splits sum.splits)
  obtain enc where enc: "new_encryptor (km_key km (b_mem b2)) = Inr enc"
    using assms cfg km by (cases "new_encryptor (km_key km (b_mem b2))") (auto simp: run_def)
  obtain b3 where b3: "after_keys v cfg km enc b2 = (Wiped, b3)" "b1 = b3\<lparr>b_mem := close_key_manager km (b_mem b3)\<rparr>"
    using assms cfg km enc by (auto simp: run_def deferred_def split: prod.splits outcome.splits)
  have "set (close_key_manager km (b_mem b3) (km_ref km)) \<subseteq> {0}"
    by (auto simp: close_key_manager_def zero_bytes_def)
  then show ?thesis using after_keys_wiped [OF b3(1)] b3(2) open_key_ok [OF km] by simp
qed

section \<open>Properties\<close>

text \<open>
  C28. A wipe needs both flags, and reports only what it did: whatever the arguments, a program that ends
  with the data wiped parsed both \<open>--wipe\<close> and \<open>--confirm\<close>, has removed the key from the keychain and
  zeroed its bytes in memory, and exits with code 0.
\<close>

theorem wipe_needs_both_flags:
  assumes "dg_main args v b = (code, Some Wiped, b1)"
  shows "\<exists>f. parse_flags args default_flags = Inr f \<and> fl_wipe f \<and> fl_confirm f \<and> code = Some 0
     \<and> b_keychain b1 = None \<and> set (b_mem b1 (v_key_ref v)) \<subseteq> {0}"
proof -
  obtain f where f: "parse_flags args default_flags = Inr f"
    using assms by (auto simp: dg_main_def split: sum.splits flag_error.splits)
  let ?v = "v\<lparr>v_config_path := fl_config f, v_wipe := fl_wipe f, v_confirm := fl_confirm f, v_status := fl_status f\<rparr>"
  have r: "run ?v b = (Wiped, b1)" "code = Some 0"
    using assms f by (auto simp: dg_main_def split: prod.splits outcome.splits)
  from run_wiped [OF r(1)] show ?thesis using f r(2) by simp
qed

theorem wipe_needs_both_flags_witness:
  "\<exists>code b. dg_main [''--wipe'', ''-confirm=true'', ''rest''] sample_env sample_boot = (code, Some Wiped, b)
     \<and> code = Some 0 \<and> b_keychain b = None \<and> set (b_mem b 0) \<subseteq> {0}"
proof -
  let ?f = "default_flags\<lparr>fl_wipe := True, fl_confirm := True\<rparr>" and ?args = "[''--wipe'', ''-confirm=true'', ''rest'']"
  let ?v = "sample_env\<lparr>v_config_path := fl_config ?f, v_wipe := True, v_confirm := True, v_status := fl_status ?f\<rparr>"
  have f: "parse_flags ?args default_flags = Inr ?f" by code_simp
  have same: "open_key ?v b = open_key sample_env b" for b by (simp add: open_key_def)
  have l: "load_step ?v = Inr (expand_config (Some ''/home/me'') config_defaults)"
    by (simp add: load_step_def sample_env_def load_config_def defaults_valid)
  obtain b1 enc where k: "open_key ?v sample_boot = (Inr \<lparr>km_ref = 0\<rparr>, b1)"
    "new_encryptor (km_key \<lparr>km_ref = 0\<rparr> (b_mem b1)) = Inr enc" using sample_key same by auto
  have "\<exists>b2. run_wipe ?v cfg \<lparr>km_ref = 0\<rparr> enc b1 = (Wiped, b2)" for cfg
    by (auto simp: run_wipe_def wipe_all_def delete_key_def Let_def sample_env_def split: prod.split)
  then obtain b2 where "run_wipe ?v (expand_config (Some ''/home/me'') config_defaults) \<lparr>km_ref = 0\<rparr> enc b1 = (Wiped, b2)"
    by blast
  then obtain b where r: "run ?v sample_boot = (Wiped, b)"
    using l k by (simp add: run_def after_keys_def)
  have m: "dg_main ?args sample_env sample_boot = (Some 0, Some Wiped, b)"
    using r by (simp add: dg_main_def f del: parse_flags.simps)
  have "v_key_ref sample_env = 0" by (simp add: sample_env_def)
  with wipe_needs_both_flags [OF m] m show ?thesis by auto
qed

text \<open>
  The commands the consent dialog names do not exist: \<open>digitalghost wipe --confirm\<close> and
  \<open>digitalghost stop\<close> are the program without arguments, which starts to record.
\<close>

theorem documented_commands_start_daemon:
  "dg_main [''wipe'', ''--confirm''] v b = dg_main [] v b \<and> dg_main [''stop''] v b = dg_main [] v b"
proof -
  have "parse_flags [''wipe'', ''--confirm''] default_flags = Inr default_flags"
    "parse_flags [''stop''] default_flags = Inr default_flags" "parse_flags [] default_flags = Inr default_flags"
    by code_simp+
  then show ?thesis by (simp add: dg_main_def)
qed

end
