(* ===== verification/Supervisor.thy ===== *)
theory Supervisor
  imports Command_Line Machines
begin

text \<open>
  Steps 8 and 9 of \<open>run\<close>: the goroutines of a running daemon, the ways it is asked to stop, and its
  end. The stop channel is closed at most once (\<open>sync.Once\<close>); a second close would be a panic.
  The capture and inference goroutines recover a panic and stop the daemon; \<open>run\<close> returns when
  both have finished or ten seconds after the stop.
\<close>

section \<open>State and steps\<close>

datatype phase = Serving | Draining | Returned bool

record supervisor =
  sp_phase :: phase
  sp_stop_closed :: bool
  sp_closes :: nat
  sp_capture_done :: bool
  sp_inference_done :: bool

definition start_supervisor :: supervisor where
  "start_supervisor = \<lparr>sp_phase = Serving, sp_stop_closed = False, sp_closes = 0, sp_capture_done = False, sp_inference_done = False\<rparr>"

text \<open>\<open>stopFn\<close>: only the first call closes the channel.\<close>

definition stop_fn :: "supervisor \<Rightarrow> supervisor" where
  "stop_fn s = (if sp_stop_closed s then s else s\<lparr>sp_stop_closed := True, sp_closes := sp_closes s + 1\<rparr>)"

text \<open>
  A goroutine ends by itself (its loop returned, with or without a stop) or by a panic; the tray, a
  signal and the closed channel lead to the drain; the drain ends cleanly or by its timer.
\<close>

inductive sup_step :: "supervisor \<Rightarrow> supervisor \<Rightarrow> bool" where
  capture_returns: "\<not> sp_capture_done s \<Longrightarrow> sup_step s (s\<lparr>sp_capture_done := True\<rparr>)"
| capture_panics: "\<not> sp_capture_done s \<Longrightarrow> sup_step s ((stop_fn s)\<lparr>sp_capture_done := True\<rparr>)"
| inference_returns: "\<not> sp_inference_done s \<Longrightarrow> sup_step s (s\<lparr>sp_inference_done := True\<rparr>)"
| inference_panics: "\<not> sp_inference_done s \<Longrightarrow> sup_step s ((stop_fn s)\<lparr>sp_inference_done := True\<rparr>)"
| tray_stop: "sup_step s (stop_fn s)"
| signalled: "sp_phase s = Serving \<Longrightarrow> sup_step s ((stop_fn s)\<lparr>sp_phase := Draining\<rparr>)"
| stop_seen: "sp_phase s = Serving \<Longrightarrow> sp_stop_closed s \<Longrightarrow> sup_step s (s\<lparr>sp_phase := Draining\<rparr>)"
| drained: "sp_phase s = Draining \<Longrightarrow> sp_capture_done s \<Longrightarrow> sp_inference_done s \<Longrightarrow> sup_step s (s\<lparr>sp_phase := Returned True\<rparr>)"
| timed_out: "sp_phase s = Draining \<Longrightarrow> sup_step s (s\<lparr>sp_phase := Returned False\<rparr>)"

inductive_cases sup_stepE: "sup_step s t"

section \<open>Invariant\<close>

definition sup_inv :: "supervisor \<Rightarrow> bool" where
  "sup_inv s \<longleftrightarrow> sp_closes s = (if sp_stop_closed s then 1 else 0)
     \<and> (sp_phase s \<noteq> Serving \<longrightarrow> sp_stop_closed s)
     \<and> (sp_phase s = Returned True \<longrightarrow> sp_capture_done s \<and> sp_inference_done s)"

interpretation supervising: step_system sup_step sup_inv
  by unfold_locales (elim sup_stepE; auto simp: sup_inv_def stop_fn_def)

section \<open>Properties\<close>

text \<open>
  Whatever the order of panics, returns, stops and signals, the stop channel is closed at most once,
  \<open>run\<close> returns only after a stop, and it reports a clean end only when both goroutines have ended.
\<close>

theorem supervisor_invariant:
  assumes "sup_step\<^sup>*\<^sup>* start_supervisor s"
  shows "sp_closes s \<le> 1 \<and> (\<forall>c. sp_phase s = Returned c \<longrightarrow> sp_stop_closed s)
     \<and> (sp_phase s = Returned True \<longrightarrow> sp_capture_done s \<and> sp_inference_done s)"
  using supervising.reach_keeps [OF assms] by (auto simp: sup_inv_def start_supervisor_def)

theorem supervisor_invariant_witness:
  "\<exists>s. sup_step\<^sup>*\<^sup>* start_supervisor s \<and> sp_phase s = Returned True \<and> sp_closes s \<le> 1"
proof -
  let ?s1 = "(stop_fn start_supervisor)\<lparr>sp_inference_done := True\<rparr>"
  let ?s2 = "stop_fn ?s1" and ?s3 = "?s1\<lparr>sp_phase := Draining\<rparr>"
  let ?s4 = "?s3\<lparr>sp_capture_done := True\<rparr>"
  have "sup_step start_supervisor ?s1" by (rule inference_panics) (simp add: start_supervisor_def)
  moreover have "sup_step ?s1 ?s2" by (rule tray_stop)
  moreover have "?s2 = ?s1" by (simp add: stop_fn_def start_supervisor_def)
  moreover have "sup_step ?s1 ?s3" by (rule stop_seen) (simp_all add: stop_fn_def start_supervisor_def)
  moreover have "sup_step ?s3 ?s4" by (rule capture_returns) (simp add: stop_fn_def start_supervisor_def)
  moreover have "sup_step ?s4 (?s4\<lparr>sp_phase := Returned True\<rparr>)" by (rule drained) simp_all
  ultimately have r: "sup_step\<^sup>*\<^sup>* start_supervisor (?s4\<lparr>sp_phase := Returned True\<rparr>)"
    by (meson rtranclp.rtrancl_into_rtrancl rtranclp.rtrancl_refl)
  from supervisor_invariant [OF r] r show ?thesis by (intro exI conjI) (rule r, simp, blast)
qed

text \<open>
  A stop is always obeyed: from every reachable state in which the stop channel is closed, \<open>run\<close>
  has returned or can return in at most two steps of its own, whatever the goroutines do.
\<close>

theorem stop_is_obeyed:
  assumes "sup_step\<^sup>*\<^sup>* start_supervisor s" and "sp_stop_closed s"
  shows "\<exists>n t c. n \<le> 2 \<and> (sup_step ^^ n) s t \<and> sp_phase t = Returned c"
proof (cases "sp_phase s")
  case Serving
  let ?d = "s\<lparr>sp_phase := Draining\<rparr>"
  have "sup_step s ?d" using Serving assms(2) by (intro stop_seen)
  moreover have "sup_step ?d (?d\<lparr>sp_phase := Returned False\<rparr>)" by (rule timed_out) simp
  ultimately have "(sup_step ^^ 2) s (?d\<lparr>sp_phase := Returned False\<rparr>)" by (auto simp: numeral_2_eq_2)
  then show ?thesis by (intro exI [of _ 2] exI [of _ "?d\<lparr>sp_phase := Returned False\<rparr>"] exI [of _ False]) simp
next
  case Draining
  then have "(sup_step ^^ 1) s (s\<lparr>sp_phase := Returned False\<rparr>)" using timed_out [of s] by (simp add: eq_OO)
  then show ?thesis by (intro exI [of _ 1] exI [of _ "s\<lparr>sp_phase := Returned False\<rparr>"] exI [of _ False]) simp
next
  case (Returned c)
  then show ?thesis by (intro exI [of _ 0] exI [of _ s] exI [of _ c]) simp
qed

theorem stop_is_obeyed_witness:
  "\<exists>n t c. n \<le> 2 \<and> (sup_step ^^ n) (stop_fn start_supervisor) t \<and> sp_phase t = Returned c"
proof (rule stop_is_obeyed)
  show "sup_step\<^sup>*\<^sup>* start_supervisor (stop_fn start_supervisor)" by (rule r_into_rtranclp) (rule tray_stop)
  show "sp_stop_closed (stop_fn start_supervisor)" by (simp add: stop_fn_def start_supervisor_def)
qed

text \<open>
  The end of the inference loop alone is noticed by nobody: the daemon goes on serving and capturing
  although nothing is remembered any more.
\<close>

theorem silent_end_of_inference:
  "\<exists>s. sup_step\<^sup>*\<^sup>* start_supervisor s \<and> sp_inference_done s \<and> \<not> sp_capture_done s \<and> \<not> sp_stop_closed s \<and> sp_phase s = Serving"
proof -
  let ?s = "start_supervisor\<lparr>sp_inference_done := True\<rparr>"
  have "sup_step start_supervisor ?s" by (rule inference_returns) (simp add: start_supervisor_def)
  then show ?thesis by (intro exI [of _ ?s]) (auto simp: start_supervisor_def)
qed

end
