(* ===== verification/First_Start.thy ===== *)
theory First_Start
  imports Daemon Default_Blocklist
begin

text \<open>
  The first start of the daemon on a machine without a blocklist file: the embedded file is written
  and is the list the gate starts with.
\<close>

lemma clean_path_nonempty [simp]: "clean_path p \<noteq> []"
  by (simp add: clean_path_def Let_def)

lemma join_path_nonempty [simp]: "b \<noteq> [] \<Longrightarrow> join_path a b \<noteq> []"
  by (simp add: join_path_def)

lemma open_key_keeps_blocklist: "open_key v b = (r, b1) \<Longrightarrow> b_blocklist_file b1 = b_blocklist_file b"
  by (auto simp: open_key_def split: prod.splits)

lemma consent_keeps_blocklist: "consent_step v km b = (r, b1) \<Longrightarrow> b_blocklist_file b1 = b_blocklist_file b"
  by (auto simp: consent_step_def split: prod.splits bool.splits option.splits)

lemma verify_keeps_blocklist: "verify_step v cfg b = (r, b1) \<Longrightarrow> b_blocklist_file b1 = b_blocklist_file b"
  by (auto simp: verify_step_def Let_def split: prod.splits sum.splits)

lemma init_step_blocklist:
  assumes "init_step v cfg enc b = (Running d, b')"
  shows "\<exists>bl dir. dm_gate d = new_gate bl
     \<and> b_blocklist_file b' = snd (ensure_default_blocklist (v_mkdir_config v) (v_write_fails v) (v_default_blocklist v) (b_blocklist_file b))
     \<and> new_blocklist (v_um v) (v_regexps v) (v_yaml v) (join_path dir ''blocklist.yaml'') (b_blocklist_file b') (v_watch_ok v) = Some bl"
  using assms
  by (auto simp: init_step_def Let_def split: option.splits start_result.splits if_splits prod.splits intro!: exI)

text \<open>What \<open>ensureDefaultBlocklist\<close> left is what the gate is built from.\<close>

lemma run_loads_blocklist:
  assumes "run v b = (Running d, b')"
  obtains bl path where "path \<noteq> []" "dm_gate d = new_gate bl"
    "b_blocklist_file b' = snd (ensure_default_blocklist (v_mkdir_config v) (v_write_fails v) (v_default_blocklist v) (b_blocklist_file b))"
    "new_blocklist (v_um v) (v_regexps v) (v_yaml v) path (b_blocklist_file b') (v_watch_ok v) = Some bl"
proof -
  obtain cfg km b1 where r: "open_key v b = (Inr km, b1)" "after_keys v cfg km (dm_encryptor d) b1 = (Running d, b')"
    using assms by (rule run_running)
  obtain b2 b3 where a: "consent_step v km b1 = (None, b2)" "verify_step v cfg b2 = (None, b3)"
    "init_step v cfg (dm_encryptor d) b3 = (Running d, b')"
    using r(2) by (rule after_keys_running)
  have same: "b_blocklist_file b3 = b_blocklist_file b"
    using open_key_keeps_blocklist [OF r(1)] consent_keeps_blocklist [OF a(1)] verify_keeps_blocklist [OF a(2)] by simp
  obtain bl dir where i: "dm_gate d = new_gate bl"
    "b_blocklist_file b' = snd (ensure_default_blocklist (v_mkdir_config v) (v_write_fails v) (v_default_blocklist v) (b_blocklist_file b))"
    "new_blocklist (v_um v) (v_regexps v) (v_yaml v) (join_path dir ''blocklist.yaml'') (b_blocklist_file b') (v_watch_ok v) = Some bl"
    using init_step_blocklist [OF a(3)] unfolding same by blast
  have "join_path dir ''blocklist.yaml'' \<noteq> []" by simp
  then show thesis using i by (rule that)
qed

section \<open>Properties\<close>

text \<open>
  C34. The shipped list is active from the first start: when no blocklist file exists and the embedded one can
  be written, a daemon that runs has written it, and its gate blocks every window one of its lists
  names (an application, an authentication program, a URL, a title with its \<open>api.?key\<close>, or the role of
  the focused field), in any mix of upper and lower case; and so does every later start that finds the file as it was written.
\<close>

theorem first_start_installs_list:
  assumes "run v b = (Running d, b')" and "v_yaml v (v_default_blocklist v) = Some embedded_config"
    and "b_blocklist_file b = None \<and> v_mkdir_config v \<and> v_write_fails v = None \<or> b_blocklist_file b = Some (v_default_blocklist v)"
    and "embedded_names_window (v_um v) ctx"
  shows "b_blocklist_file b' = Some (v_default_blocklist v) \<and> blocked (check (v_um v) (gate_blocklist (dm_gate d)) ctx)"
proof -
  obtain bl path where p: "path \<noteq> []" "dm_gate d = new_gate bl"
    "b_blocklist_file b' = snd (ensure_default_blocklist (v_mkdir_config v) (v_write_fails v) (v_default_blocklist v) (b_blocklist_file b))"
    "new_blocklist (v_um v) (v_regexps v) (v_yaml v) path (b_blocklist_file b') (v_watch_ok v) = Some bl"
    using assms(1) by (rule run_loads_blocklist)
  have f: "b_blocklist_file b' = Some (v_default_blocklist v)"
    using p(3) assms(3) by (auto simp: ensure_default_blocklist_def)
  with p assms(2,4) embedded_list_blocks show ?thesis by (auto simp: new_gate_def)
qed

theorem first_start_installs_list_witness:
  "\<exists>d b'. run (sample_env\<lparr>v_yaml := (\<lambda>_. Some embedded_config)\<rparr>) sample_boot = (Running d, b')
     \<and> b_blocklist_file b' = Some ''apps:''
     \<and> blocked (check id (gate_blocklist (dm_gate d)) \<lparr>process_name = ''firefox'', window_title = [],
                  browser_url = ''www.HSBC.co.uk/'', focused_input_role = [], pid = 3\<rparr>)"
proof -
  let ?v = "sample_env\<lparr>v_yaml := (\<lambda>_. Some embedded_config)\<rparr>"
  let ?ctx = "\<lparr>process_name = ''firefox'', window_title = [], browser_url = ''www.HSBC.co.uk/'', focused_input_role = [], pid = 3\<rparr>"
  obtain d b' where r: "run ?v sample_boot = (Running d, b')" using sample_daemon_runs_with by blast
  have v: "v_yaml ?v (v_default_blocklist ?v) = Some embedded_config" "v_default_blocklist ?v = ''apps:''" "v_um ?v = id"
    "b_blocklist_file sample_boot = None \<and> v_mkdir_config ?v \<and> v_write_fails ?v = None
       \<or> b_blocklist_file sample_boot = Some (v_default_blocklist ?v)"
    by (simp_all add: sample_start)
  from first_start_installs_list [OF r v(1,4) hsbc_page_named] r v(2,3) show ?thesis by metis
qed

end
