(* ===== verification/Pipeline.thy ===== *)
theory Pipeline
  imports Daemon
begin

text \<open>
  The daemon end to end, on Windows: what the start sequence set up, the capture ticks, the queue
  between the two goroutines and the inference loop, put together. The theorem follows one memory
  back from the store to the window it shows.
\<close>

section \<open>Captured frames\<close>

text \<open>
  A frame that some tick of a running daemon hands over: the gate of that tick holds the blocklist
  after some history of file events, with the pause switch in any position.
\<close>

definition captured_by :: "env \<Rightarrow> daemon \<Rightarrow> 'h frame \<Rightarrow> gate \<Rightarrow> windows_desktop \<Rightarrow> bool" where
  "captured_by v dm f g w \<longleftrightarrow>
     (\<exists>path evs e hdist room ml dxgi ml2 d2.
        watch_file (v_um v) (v_regexps v) (v_yaml v) path evs (gate_blocklist (dm_gate dm)) = Some (gate_blocklist g)
        \<and> te_gate e = check_windows (v_um v) g w
        \<and> capture_tick (cfg_capture (dm_cfg dm)) hdist e room ml dxgi = Some (ml2, d2, Some f))"

lemma running_gate_protects:
  assumes "run v b = (Running dm, b')"
  shows "protects (v_um v) (gate_blocklist (dm_gate dm))"
    "new_queue (queue_depth (cfg_capture (dm_cfg dm))) = Some (dm_queue dm)" "10 \<le> queue_depth (cfg_capture (dm_cfg dm))"
proof -
  obtain cfg km b1 where r: "load_step v = Inr cfg" "dm_cfg dm = cfg"
    "after_keys v cfg km (dm_encryptor dm) b1 = (Running dm, b')"
    using assms by (rule run_running)
  obtain b3 where "init_step v cfg (dm_encryptor dm) b3 = (Running dm, b')"
    using r(3) by (rule after_keys_running)
  then obtain bl path q where i: "new_blocklist (v_um v) (v_regexps v) (v_yaml v) path (b_blocklist_file b') (v_watch_ok v) = Some bl"
    "dm_gate dm = new_gate bl" "new_queue (queue_depth (cfg_capture cfg)) = Some q" "dm_queue dm = q"
    by (rule init_step_running)
  have "protects (v_um v) bl" using new_blocklist_protects i(1) by (metis option.inject)
  then show "protects (v_um v) (gate_blocklist (dm_gate dm))" using i(2) by (simp add: new_gate_def)
  show "new_queue (queue_depth (cfg_capture (dm_cfg dm))) = Some (dm_queue dm)" using i r(2) by simp
  obtain c0 where "validate c0 = None" "cfg = expand_config (v_home v) c0"
    using load_step_ok [OF r(1)] load_config_ok by blast
  then show "10 \<le> queue_depth (cfg_capture (dm_cfg dm))" using validate_None r(2) by simp
qed

lemma watched_protects:
  assumes "protects um bl" "watch_file um ext yaml path evs bl = Some bl'"
  shows "protects um bl'"
  using bl.reloads_keep [where run = "watch_file um ext yaml path" and um = um and ext = ext and yaml = yaml
      and path = path and es = evs and b = bl] assms by force

section \<open>Properties\<close>

text \<open>
  The whole program: every memory a running daemon hands to its store comes from a frame that a
  capture tick queued, and shows the process, the title and the URL of a window that passed the
  gate at that tick. Capture was not paused, no password field had the focus, and neither that
  window nor any window visible behind it is one the built-in list blocks, whatever the user's
  blocklist file says and however often it was reloaded, whatever the queue dropped, and whatever
  the model answered. The dwell, content and engagement gates were passed as well.
\<close>

theorem memories_pass_gate:
  assumes "run v b = (Running dm, b')"
    and "\<forall>f\<in>set (enqueued os). \<exists>g w. captured_by v dm f g w"
    and "Frame_Queue.run_ops push try_pop os (dm_queue dm) = Some (out, q)"
    and "d_um d = v_um v" "d_cfg d = dm_cfg dm"
    and "\<forall>t\<in>set ts. \<forall>f. tn_frame t = Some f \<longrightarrow> f \<in> set out"
    and "run_inference_loop d ts s = Some (x, s', nodes)" "node \<in> set nodes"
  shows "\<exists>f g w md. f \<in> set (enqueued os) \<and> captured_by v dm f g w \<and> qualifies d f node \<and> \<not> paused g
     \<and> query_window_context_windows (v_um v) w = Inr md
     \<and> mn_process_name node = md_process_name md \<and> mn_window_title node = md_window_title md
     \<and> mn_browser_url node = md_browser_url md \<and> md_focused_input_role md \<notin> sensitive_roles
     \<and> \<not> blocked (check_compiled (v_um v) (default_compiled (v_um v)) (context_of md))
     \<and> (\<forall>p\<in>set (query_visible_background_processes_windows (v_um v) w).
          \<not> blocked (check_compiled (v_um v) (default_compiled (v_um v)) (background_context p)))"
proof -
  obtain t f where t: "t \<in> set ts" "tn_frame t = Some f" and q: "qualifies d f node"
    using run_stores [OF assms(7,8)] by blast
  note dm = running_gate_protects [OF assms(1)]
  have "queue_inv (dm_queue dm)" "contents (dm_queue dm) = []"
    using new_queue_inv [OF _ dm(2)] dm(3) by auto
  then have "subseq (out @ contents q) (enqueued os)" using rb.fifo [of "dm_queue dm" os] assms(3) by auto
  moreover have "f \<in> set (out @ contents q)" using assms(6) t by simp
  ultimately have f: "f \<in> set (enqueued os)" by (rule list_emb_set) simp
  then obtain g w where g: "captured_by v dm f g w" using assms(2) by blast
  then obtain path evs e hdist room ml dxgi ml2 d2 where
    w: "watch_file (v_um v) (v_regexps v) (v_yaml v) path evs (gate_blocklist (dm_gate dm)) = Some (gate_blocklist g)"
    and e: "te_gate e = check_windows (v_um v) g w"
    "capture_tick (cfg_capture (dm_cfg dm)) hdist e room ml dxgi = Some (ml2, d2, Some f)"
    by (auto simp: captured_by_def)
  from watched_protects [OF dm(1) w] e obtain md where "\<not> paused g" "query_window_context_windows (v_um v) w = Inr md"
    "cw_process_name (window_ctx f) = md_process_name md" "cw_window_title (window_ctx f) = md_window_title md"
    "cw_browser_url (window_ctx f) = md_browser_url md" "md_focused_input_role md \<notin> sensitive_roles"
    "\<not> blocked (check_compiled (v_um v) (default_compiled (v_um v)) (context_of md))"
    "\<forall>p\<in>set (query_visible_background_processes_windows (v_um v) w).
       \<not> blocked (check_compiled (v_um v) (default_compiled (v_um v)) (background_context p))"
    by (rule tick_passed_gate)
  moreover from q have "mn_process_name node = cw_process_name (window_ctx f)" "mn_window_title node = cw_window_title (window_ctx f)"
    "mn_browser_url node = cw_browser_url (window_ctx f)" by (simp_all add: qualifies_def)
  ultimately show ?thesis using f g q by metis
qed

lemma dwelt_tick_captures:
  fixes res :: gate_result
  assumes "\<not> gr_blocked res"
  defines "e \<equiv> (quiet_tick 30000000000 res)\<lparr>te_input := Some (5000, 0)\<rparr>"
    and "ml \<equiv> tiny_monitor\<lparr>last_window_key := window_key (gr_window_ctx res), window_since := 0\<rparr>"
  shows "\<exists>ml2 f im. capture_tick (cfg_capture config_defaults) (\<lambda>h k. Inr 64) e True ml None = Some (ml2, None, Some f)
     \<and> frame_image f = Some im \<and> frame_dwell_seconds f = 30 \<and> seconds_since_input f = 5 \<and> captured_at f = 30000000000
     \<and> cw_process_name (window_ctx f) = process_name (gr_window_ctx res)
     \<and> cw_window_title (window_ctx f) = window_title (gr_window_ctx res)
     \<and> cw_browser_url (window_ctx f) = browser_url (gr_window_ctx res)"
  using assms
  by (auto simp: capture_tick_def capture_frame_def quiet_tick_def new_monitor_loop_def switch_idle_def
      idle_limit_def config_defaults_def seconds_since_last_input_def fl64_numeral Let_def track_dwell_def window_key_def
      grab_pixels_def capture_gdi_def ensure_handles_def one_pixel_gdi_def no_handles_def finish_frame_def build_frame_def
      hash_frame_def downscale_for_queue_def queue_target_w_def queue_target_h_def duration_seconds_def go_div_def
      release_handles_def image_rect_def dx_def dy_def)

lemma notes_class: "classify (\<lambda>s. s) \<lparr>ci_process_name = ''notepad'', ci_window_title = ''notes.txt'', ci_browser_url = []\<rparr> = ClassWorkDocument"
  by code_simp

lemma sample_start_plain: "v_um sample_env = id" "v_yaml sample_env = (\<lambda>_. None)"
  by (simp_all add: sample_env_def)

lemma sample_daemon_of:
  assumes r: "run v sample_boot = (Running dm, b')" and l: "load_step v = load_step sample_env"
    and v: "v_um v = id" "v_yaml v = (\<lambda>_. None)"
  shows "dm_cfg dm = expand_config (Some ''/home/me'') config_defaults" "\<not> paused (dm_gate dm)"
    "\<not> gr_blocked (check_windows id (dm_gate dm) notes_desktop)"
proof -
  have "load_step sample_env = Inr (expand_config (Some ''/home/me'') config_defaults)"
    by (simp add: load_step_def sample_env_def load_config_def defaults_valid)
  then show c: "dm_cfg dm = expand_config (Some ''/home/me'') config_defaults"
    using r l by (metis Inr_inject run_running)
  obtain cfg km b1 where "after_keys v cfg km (dm_encryptor dm) b1 = (Running dm, b')"
    using r by (rule run_running)
  then obtain b3 where "init_step v cfg (dm_encryptor dm) b3 = (Running dm, b')" by (rule after_keys_running)
  then obtain bl path where bl: "new_blocklist (v_um v) (v_regexps v) (v_yaml v) path
      (b_blocklist_file b') (v_watch_ok v) = Some bl" "dm_gate dm = new_gate bl"
    by (rule init_step_running)
  have "current bl = Some (default_compiled id)" "healthy bl"
    using bl(1) by (auto simp: new_blocklist_def load_from_file_def hardcoded_defaults_eq v Let_def split: if_splits option.splits)
  moreover have "query_visible_background_processes_windows id notes_desktop = []"
    by (simp add: query_visible_background_processes_windows_def notes_desktop_def)
  ultimately show "\<not> paused (dm_gate dm)" "\<not> gr_blocked (check_windows id (dm_gate dm) notes_desktop)"
    using notepad_passes bl(2)
    by (simp_all add: check_windows_def check_gate_def gate_check_def new_gate_def notepad_md Let_def check_def)
qed

lemmas sample_daemon = sample_daemon_of [of sample_env, OF _ refl sample_start_plain]

theorem memories_pass_gate_witness:
  "\<exists>dm b' f d s nodes node.
     run sample_env sample_boot = (Running dm, b')
     \<and> captured_by sample_env dm f (dm_gate dm) notes_desktop
     \<and> run_inference_loop d [sample_turn\<lparr>tn_frame := Some f\<rparr>] sample_loop = Some (Continues, s, nodes)
     \<and> node \<in> set nodes \<and> qualifies d f node"
proof -
  obtain dm b' where r: "run sample_env sample_boot = (Running dm, b')" using sample_daemon_runs by blast
  note dm = sample_daemon [OF r]
  let ?res = "check_windows id (dm_gate dm) notes_desktop"
  have ctx: "gr_window_ctx ?res = context_of \<lparr>md_process_name = ''notepad'', md_window_title = ''notes.txt'',
      md_browser_url = [], md_focused_input_role = [], md_pid = 40\<rparr>"
    using dm(3) by (auto simp: check_windows_def check_gate_def gate_check_def notepad_md Let_def block_result_def split: option.splits if_splits)
  obtain ml2 f im where t: "capture_tick (cfg_capture config_defaults) (\<lambda>h k. Inr 64)
      ((quiet_tick 30000000000 ?res)\<lparr>te_input := Some (5000, 0)\<rparr>) True
      (tiny_monitor\<lparr>last_window_key := window_key (gr_window_ctx ?res), window_since := 0\<rparr>) None = Some (ml2, None, Some f)"
    and f: "frame_image f = Some im" "frame_dwell_seconds f = 30" "seconds_since_input f = 5"
      "cw_process_name (window_ctx f) = ''notepad''" "cw_window_title (window_ctx f) = ''notes.txt''"
      "cw_browser_url (window_ctx f) = []"
    using dwelt_tick_captures [OF dm(3)] ctx by (auto simp: context_of_def)
  have cap: "captured_by sample_env dm f (dm_gate dm) notes_desktop"
    unfolding captured_by_def using t
    by (intro exI [of _ "[]"] exI conjI) (auto simp: sample_env_def quiet_tick_def dm(1) expand_config_def)
  let ?d = "sample_deps\<lparr>d_cfg := dm_cfg dm\<rparr>" and ?t = "sample_turn\<lparr>tn_frame := Some f\<rparr>"
  have k: "pre_class (\<lambda>s. s) f = ClassWorkDocument" using f notes_class by (simp add: pre_class_def)
  have "dwell_weight rounded_math 30 = 1" using rounded_log1p_30 tenth_bounds by (simp add: dwell_weight_def Let_def)
  moreover have "fl64 3 = 3" using fl64_of_int [of 3] by simp
  ultimately have "engagement_score rounded_math (signals_of (\<lambda>s. s) f) = 3"
    using k f by (simp add: engagement_score_def signals_of_def
        interaction_weight_def recent_def content_class_weight_def class_weights_def view_count_boost_def)
  then obtain s node where l: "run_inference_loop ?d [?t] sample_loop = Some (Continues, s, [node])"
    using sample_run_of [of "dm_cfg dm" f im] f k by (auto simp: dm(1) expand_config_def)
  have "queue_depth (cfg_capture (dm_cfg dm)) = 100" by (simp add: dm(1) expand_config_def config_defaults_def)
  then obtain q where o: "Frame_Queue.run_ops push try_pop [Enq f, Deq] (dm_queue dm) = Some ([f], q)"
    using running_gate_protects(2) [OF r]
    by (auto simp: new_queue_def push_def write_tail_def try_pop_def dest!: sym [of _ "dm_queue dm"])
  have um: "d_um ?d = v_um sample_env" "d_cfg ?d = dm_cfg dm" "tn_frame ?t = Some f"
    by (simp_all add: sample_deps_def sample_env_def sample_turn_def id_def)
  have "qualifies ?d f node"
    using memories_pass_gate [OF r _ o um(1,2) _ l, of node] cap um(3) by auto
  with r cap l show ?thesis by fastforce
qed

end
