(* ===== verification/Callback_Pool.thy ===== *)
theory Callback_Pool
  imports Privacy_Gate
begin

text \<open>
  What \<open>check_windows\<close> leaves out: \<open>queryVisibleBackgroundProcessesImpl\<close> of \<open>capture_windows.go\<close> creates a
  new callback for \<open>EnumWindows\<close> with \<open>syscall.NewCallback\<close> at every call. Callbacks are never
  released, only a limited number can be created (package \<open>syscall\<close> promises at least 1024), and the
  runtime ends the process when there is none left. \<open>limit\<close> is what other packages leave of them,
  \<open>used\<close> counts the ones created here. The check of the gate is modelled again with this effect.
\<close>

text \<open>\<open>None\<close>: the runtime ends the process.\<close>

definition new_callback :: "nat \<Rightarrow> nat \<Rightarrow> nat option" where
  "new_callback limit used = (if used < limit then Some (used + 1) else None)"

text \<open>The callbacks of the package itself: \<open>enumMonitorsCallback\<close> and \<open>enumChildWindowsCallback\<close>.\<close>

definition package_callbacks :: nat where "package_callbacks = 2"

definition query_visible_background_processes_impl ::
  "(string \<Rightarrow> string) \<Rightarrow> nat \<Rightarrow> windows_desktop \<Rightarrow> nat \<Rightarrow> (string list \<times> nat) option" where
  "query_visible_background_processes_impl um limit w used =
     (case new_callback limit used of
        None \<Rightarrow> None
      | Some n \<Rightarrow> Some (background_processes um (foreground w) (top_level w), n))"

definition gate_check_windows ::
  "(string \<Rightarrow> string) \<Rightarrow> nat \<Rightarrow> gate \<Rightarrow> windows_desktop \<Rightarrow> nat \<Rightarrow> (gate_result \<times> nat) option" where
  "gate_check_windows um limit g w used =
     (let chk = check um (gate_blocklist g) in
      case query_window_context_windows um w of
        Inl err \<Rightarrow> Some (block_result (''metadata_query_failed:'' @ err), used)
      | Inr md \<Rightarrow>
          (let decision = chk (context_of md) in
           if blocked decision then Some (block_result (reason decision), used)
           else
             (case query_visible_background_processes_impl um limit w used of
                None \<Rightarrow> None
              | Some (bg, n) \<Rightarrow>
                  Some
                    (case background_block chk bg of
                       Some d \<Rightarrow> block_result (''background_window:'' @ reason d)
                     | None \<Rightarrow>
                         if md_focused_input_role md \<noteq> [] \<and> md_focused_input_role md \<in> sensitive_roles
                         then block_result (''sensitive_input_focused:'' @ md_focused_input_role md)
                         else if paused g then block_result ''capture_paused''
                         else \<lparr>gr_blocked = False, gr_reason = ''pass'', gr_window_ctx = context_of md\<rparr>, n))))"

text \<open>The checks that get as far as the windows in the background.\<close>

definition asks_background :: "(string \<Rightarrow> string) \<Rightarrow> gate \<Rightarrow> windows_desktop \<Rightarrow> bool" where
  "asks_background um g w \<longleftrightarrow>
     (case query_window_context_windows um w of
        Inl _ \<Rightarrow> False
      | Inr md \<Rightarrow> \<not> blocked (check um (gate_blocklist g) (context_of md)))"

lemma gate_check_windows_eq:
  "gate_check_windows um limit g w used =
     (if asks_background um g w then map_option (\<lambda>n. (check_windows um g w, n)) (new_callback limit used)
      else Some (check_windows um g w, used))"
  by (simp add: gate_check_windows_def asks_background_def check_windows_def check_gate_def gate_check_def Let_def
      query_visible_background_processes_impl_def query_visible_background_processes_windows_def
      split: sum.split option.split)

lemma passing_asks_background:
  assumes "\<not> gr_blocked (check_windows um g w)" shows "asks_background um g w"
proof -
  obtain md where "query_window_context_windows um w = Inr md" "\<not> blocked (check um (gate_blocklist g) (context_of md))"
    using iffD1 [OF gate_check_pass_iff] assms unfolding check_windows_def check_gate_def by blast
  then show ?thesis by (simp add: asks_background_def)
qed

end
