(* ===== verification/Os_Threads.thy ===== *)
theory Os_Threads
  imports Machines
begin

text \<open>
  Which operating system thread the COM calls of a capturer run on. \<open>runtime.LockOSThread\<close> wires a
  goroutine to the thread it is on, as often as it is called, until \<open>UnlockOSThread\<close> has been called
  as often; a wired thread runs no other goroutine, and a goroutine that is not wired may be on any
  other thread whenever it runs. Goroutine 0 is the one of \<open>runCaptureLoop\<close>, which makes the capturer
  and closes it (\<open>NewDXGICapturer\<close> and \<open>Close\<close> of \<open>dxgi_windows.go\<close>); goroutine \<open>i + 1\<close> is the loop of
  display \<open>i\<close> that \<open>Run\<close> of \<open>capture_windows.go\<close> starts. The first argument of the definitions is the
  number of displays.
\<close>

section \<open>Wiring\<close>

type_synonym goroutine = nat
type_synonym os_thread = nat
type_synonym wiring = "goroutine \<Rightarrow> (os_thread \<times> nat) option"

definition lock_os_thread :: "goroutine \<Rightarrow> os_thread \<Rightarrow> wiring \<Rightarrow> wiring" where
  "lock_os_thread g t w = w(g \<mapsto> (case w g of None \<Rightarrow> (t, 1) | Some (u, n) \<Rightarrow> (u, n + 1)))"

definition unlock_os_thread :: "goroutine \<Rightarrow> wiring \<Rightarrow> wiring" where
  "unlock_os_thread g w =
     (case w g of
        None \<Rightarrow> w
      | Some (t, n) \<Rightarrow> if n \<le> 1 then w(g := None) else w(g \<mapsto> (t, n - 1)))"

definition runs_on :: "nat \<Rightarrow> wiring \<Rightarrow> goroutine \<Rightarrow> os_thread \<Rightarrow> bool" where
  "runs_on displays w g t =
     (case w g of
        Some (u, _) \<Rightarrow> u = t
      | None \<Rightarrow> list_all (\<lambda>h. map_option fst (w h) \<noteq> Some t) [0..<displays + 1])"

section \<open>The capturer\<close>

text \<open>
  \<open>opened_on\<close>: the thread that opened the present session. \<open>uses\<close>: for each frame taken with it, the
  thread that had opened it and the one that used it.
\<close>

record thread_state =
  wired :: wiring
  made :: bool
  opened_on :: "os_thread option"
  looping :: "nat list"
  uses :: "(os_thread \<times> os_thread) list"

datatype thread_event =
    MakeCapturer os_thread bool
  | StartLoop nat os_thread
  | TickOn nat os_thread bool
  | EndLoop nat os_thread
  | CloseOn os_thread

text \<open>
  What happens on which thread; \<open>None\<close> when it cannot happen there. The session could be opened (\<open>ok\<close>), access
  was lost and the session opened again (\<open>again\<close>).
\<close>

definition new_dxgi_capturer :: "nat \<Rightarrow> os_thread \<Rightarrow> bool \<Rightarrow> thread_state \<Rightarrow> thread_state option" where
  "new_dxgi_capturer displays t ok s =
     (if made s \<or> \<not> runs_on displays (wired s) 0 t then None
      else (let w = lock_os_thread 0 t (wired s) in
            Some (if ok then s\<lparr>made := True, wired := w, opened_on := Some t\<rparr>
                  else s\<lparr>made := True, wired := unlock_os_thread 0 w\<rparr>)))"

definition start_loop :: "nat \<Rightarrow> nat \<Rightarrow> os_thread \<Rightarrow> thread_state \<Rightarrow> thread_state option" where
  "start_loop displays i t s =
     (if \<not> made s \<or> displays \<le> i \<or> i \<in> set (looping s) \<or> \<not> runs_on displays (wired s) (i + 1) t then None
      else Some (s\<lparr>wired := lock_os_thread (i + 1) t (wired s), looping := i # looping s\<rparr>))"

definition use_session :: "nat \<Rightarrow> nat \<Rightarrow> os_thread \<Rightarrow> bool \<Rightarrow> thread_state \<Rightarrow> thread_state option" where
  "use_session displays i t again s =
     (if i \<notin> set (looping s) \<or> \<not> runs_on displays (wired s) (i + 1) t then None
      else (case (if i = 0 then opened_on s else None) of
              None \<Rightarrow> Some s
            | Some u \<Rightarrow> Some (s\<lparr>uses := (u, t) # uses s, opened_on := Some (if again then t else u)\<rparr>)))"

definition end_loop :: "nat \<Rightarrow> nat \<Rightarrow> os_thread \<Rightarrow> thread_state \<Rightarrow> thread_state option" where
  "end_loop displays i t s =
     (if i \<notin> set (looping s) \<or> \<not> runs_on displays (wired s) (i + 1) t then None
      else Some (s\<lparr>wired := unlock_os_thread (i + 1) (wired s), looping := removeAll i (looping s)\<rparr>))"

definition close_dxgi_capturer :: "nat \<Rightarrow> os_thread \<Rightarrow> thread_state \<Rightarrow> thread_state option" where
  "close_dxgi_capturer displays t s =
     (if \<not> made s \<or> looping s \<noteq> [] \<or> opened_on s = None \<or> \<not> runs_on displays (wired s) 0 t then None
      else Some (s\<lparr>opened_on := None, wired := unlock_os_thread 0 (wired s)\<rparr>))"

fun thread_step :: "nat \<Rightarrow> thread_event \<Rightarrow> thread_state \<Rightarrow> thread_state option" where
  "thread_step displays (MakeCapturer t ok) s = new_dxgi_capturer displays t ok s"
| "thread_step displays (StartLoop i t) s = start_loop displays i t s"
| "thread_step displays (TickOn i t again) s = use_session displays i t again s"
| "thread_step displays (EndLoop i t) s = end_loop displays i t s"
| "thread_step displays (CloseOn t) s = close_dxgi_capturer displays t s"

lemmas thread_steps = new_dxgi_capturer_def start_loop_def use_session_def end_loop_def close_dxgi_capturer_def

fun thread_run :: "nat \<Rightarrow> thread_event list \<Rightarrow> thread_state \<Rightarrow> thread_state option" where
  "thread_run displays [] s = Some s"
| "thread_run displays (ev # evs) s = Option.bind (thread_step displays ev s) (thread_run displays evs)"

definition no_threads :: thread_state where
  "no_threads = \<lparr>wired = (\<lambda>_. None), made = False, opened_on = None, looping = [], uses = []\<rparr>"

text \<open>The session was not opened again at this event.\<close>

fun keeps_session :: "thread_event \<Rightarrow> bool" where
  "keeps_session (TickOn i t again) = (\<not> again)"
| "keeps_session _ = True"

section \<open>The invariant\<close>

text \<open>
  Wired goroutines are on different threads, each is wired once, and wired are the running loops and
  the maker of the capturer while there is a session.
\<close>

definition distinct_threads :: "nat \<Rightarrow> wiring \<Rightarrow> bool" where
  "distinct_threads displays w \<longleftrightarrow>
     (\<forall>g t n. w g = Some (t, n) \<longrightarrow> n = 1 \<and> g \<le> displays)
     \<and> (\<forall>g h t m n. w g = Some (t, m) \<longrightarrow> w h = Some (t, n) \<longrightarrow> g = h)"

definition wiring_ok :: "nat \<Rightarrow> thread_state \<Rightarrow> bool" where
  "wiring_ok displays s \<longleftrightarrow> distinct_threads displays (wired s)
     \<and> (\<forall>i. wired s (i + 1) = None \<longleftrightarrow> i \<notin> set (looping s)) \<and> (wired s 0 = None \<longleftrightarrow> opened_on s = None)
     \<and> (\<not> made s \<longrightarrow> opened_on s = None \<and> looping s = [])"

lemma runs_on_free:
  assumes "distinct_threads displays w" "runs_on displays w g t" "w g = None"
  shows "w h \<noteq> Some (t, n)"
proof
  assume h: "w h = Some (t, n)"
  then have "h \<le> displays" using assms(1) by (simp add: distinct_threads_def)
  then have "h \<in> set [0..<displays + 1]" by auto
  with h assms(2,3) show False by (auto simp: runs_on_def list_all_iff)
qed

lemma same_goroutine:
  "distinct_threads displays w \<Longrightarrow> w g = Some (t, m) \<Longrightarrow> w h = Some (t, n) \<Longrightarrow> g = h"
  unfolding distinct_threads_def by blast

lemma lock_first:
  assumes "distinct_threads displays w" "runs_on displays w g t" "w g = None" "g \<le> displays"
  shows "lock_os_thread g t w = w(g \<mapsto> (t, 1))" "distinct_threads displays (w(g \<mapsto> (t, 1)))"
  using assms runs_on_free [OF assms(1-3)] by (auto simp: lock_os_thread_def distinct_threads_def)

lemma unlock_last:
  assumes "distinct_threads displays w"
  shows "unlock_os_thread g w = w(g := None)" "distinct_threads displays (w(g := None))"
  using assms by (auto simp: unlock_os_thread_def distinct_threads_def fun_eq_iff split: option.split)

lemma tick_step:
  "thread_step displays (TickOn i t again) s = Some s' \<Longrightarrow>
     s' = s \<or> (\<exists>u v us. opened_on s = Some u \<and> s' = s\<lparr>uses := us, opened_on := Some v\<rparr>)"
  by (auto simp: thread_steps split: if_splits option.splits)

lemma thread_step_ok:
  assumes "thread_step displays ev s = Some s'" "wiring_ok displays s"
  shows "wiring_ok displays s'"
proof -
  have d: "distinct_threads displays (wired s)" using assms(2) by (simp add: wiring_ok_def)
  show ?thesis
  proof (cases ev)
    case (MakeCapturer t ok)
    with assms have r: "\<not> made s" "runs_on displays (wired s) 0 t" "wired s 0 = None" "distinct_threads displays (wired s)"
      by (auto simp: thread_steps wiring_ok_def split: if_splits)
    note l = lock_first [OF r(4,2,3)]
    have "unlock_os_thread 0 ((wired s)(0 \<mapsto> (t, 1))) = wired s"
      using r(3) by (simp add: unlock_os_thread_def fun_upd_idem)
    with assms MakeCapturer r l show ?thesis
      by (auto simp: thread_steps wiring_ok_def Let_def split: if_splits)
  next
    case (StartLoop i t)
    with assms have r: "made s" "i < displays" "runs_on displays (wired s) (i + 1) t" "wired s (i + 1) = None"
      "distinct_threads displays (wired s)" "s' = s\<lparr>wired := lock_os_thread (i + 1) t (wired s), looping := i # looping s\<rparr>"
      by (auto simp: thread_steps wiring_ok_def split: if_splits)
    from r(2) have "i + 1 \<le> displays" by simp
    from lock_first [OF r(5,3,4) this] r assms(2) show ?thesis by (auto simp: wiring_ok_def)
  next
    case (TickOn i t again)
    with assms(1) tick_step consider "s' = s"
      | u v us where "opened_on s = Some u" "s' = s\<lparr>uses := us, opened_on := Some v\<rparr>" by blast
    then show ?thesis using assms(2) by cases (simp_all add: wiring_ok_def)
  next
    case (EndLoop i t)
    with assms(1) have s': "s' = s\<lparr>wired := unlock_os_thread (i + 1) (wired s), looping := removeAll i (looping s)\<rparr>"
      by (simp add: thread_steps split: if_splits)
    show ?thesis using assms(2) unlock_last(2) [OF d, of "i + 1"] by (simp add: s' wiring_ok_def unlock_last(1) [OF d])
  next
    case (CloseOn t)
    with assms(1) have s': "s' = s\<lparr>opened_on := None, wired := unlock_os_thread 0 (wired s)\<rparr>"
      by (simp add: thread_steps split: if_splits)
    show ?thesis using assms(2) unlock_last(2) [OF d, of 0] by (simp add: s' wiring_ok_def unlock_last(1) [OF d])
  qed
qed

interpretation threads: invariant_machine "thread_step displays" "thread_run displays" "wiring_ok displays" for displays
  by unfold_locales (auto intro: thread_step_ok)

lemma no_threads_ok: "wiring_ok displays no_threads"
  by (simp add: wiring_ok_def distinct_threads_def no_threads_def)

section \<open>Properties\<close>

lemma wired_step:
  assumes "thread_step displays ev s = Some s'" "wiring_ok displays s" "i \<in> set (looping s)" "\<forall>t. ev \<noteq> EndLoop i t"
  shows "wired s' (i + 1) = wired s (i + 1) \<and> i \<in> set (looping s')"
  using assms
  by (cases ev) (auto simp: thread_steps Let_def lock_os_thread_def unlock_os_thread_def split: if_splits option.splits)

text \<open>
  While the loop of a display runs, all its ticks are on the thread it started on and no tick of
  another display is: what a loop initialises in COM it uses and undoes on the same thread.
\<close>

theorem loop_stays_on_its_thread:
  assumes "thread_run displays es s = Some s'" "wiring_ok displays s" "i \<in> set (looping s)" "\<forall>t. EndLoop i t \<notin> set es"
    and "wired s (i + 1) = Some (u, n)" "TickOn j t again \<in> set es"
  shows "t = u \<longleftrightarrow> j = i"
  using assms
proof (induction es arbitrary: s)
  case (Cons ev es)
  obtain v where v: "thread_step displays ev s = Some v" "thread_run displays es v = Some s'"
    using Cons.prems(1) by (auto simp: bind_eq_Some_conv)
  have w: "wired v (i + 1) = Some (u, n)" "i \<in> set (looping v)" "wiring_ok displays v"
    using wired_step [OF v(1) Cons.prems(2,3)] thread_step_ok [OF v(1) Cons.prems(2)] Cons.prems(4,5) by auto
  show ?case
  proof (cases "TickOn j t again \<in> set es")
    case True
    then show ?thesis using Cons.IH [OF v(2) w(3,2) _ w(1)] Cons.prems(4) by auto
  next
    case False
    then have "j \<in> set (looping s)" "runs_on displays (wired s) (j + 1) t"
      using v(1) Cons.prems(6) by (auto simp: thread_steps split: if_splits)
    moreover from this(1) Cons.prems(2) obtain m x where "wired s (j + 1) = Some (x, m)"
      by (fastforce simp: wiring_ok_def)
    ultimately have j: "wired s (j + 1) = Some (t, m)" by (simp add: runs_on_def)
    have d: "distinct_threads displays (wired s)" using Cons.prems(2) by (simp add: wiring_ok_def)
    show ?thesis
    proof
      assume "t = u"
      with same_goroutine [OF d] j Cons.prems(5) show "j = i" by fastforce
    next
      assume "j = i"
      with j Cons.prems(5) show "t = u" by simp
    qed
  qed
qed simp

text \<open>
  \<open>dxgi_windows.go\<close> says that the thread is locked for the whole life of the session. It is, but as the
  thread of the goroutine that makes the capturer; the frames are taken by the loop of the first
  display, on a thread of its own. Until a session has been opened again by that loop, every use of
  it is on another thread than the one that opened it.
\<close>

theorem session_used_on_other_thread:
  assumes "thread_run displays es no_threads = Some s" "list_all keeps_session es"
  shows "\<forall>x \<in> set (uses s). fst x \<noteq> snd x"
proof -
  have "list_all keeps_session es \<longrightarrow>
      (\<forall>x \<in> set (uses s). fst x \<noteq> snd x) \<and> (\<forall>a. opened_on s = Some a \<longrightarrow> wired s 0 = Some (a, 1))"
    using assms(1)
  proof (induction es s rule: threads.runs_trace)
    case start
    then show ?case by (simp add: no_threads_def)
  next
    case (event es u ev v)
    have ok: "wiring_ok displays u" using threads.runs_keep [OF event(1) no_threads_ok] .
    show ?case
    proof (cases ev)
      case (TickOn i t again)
      have "b \<noteq> t" if "i = 0" "opened_on u = Some b" "list_all keeps_session es" for b
      proof -
        from that event(3) have "wired u 0 = Some (b, 1)" by blast
        moreover from that event(2) TickOn ok obtain m where "wired u 1 = Some (t, m)"
          by (fastforce simp: thread_steps runs_on_def wiring_ok_def split: if_splits option.splits)
        ultimately show "b \<noteq> t" using ok same_goroutine [of displays "wired u" 0 b 1 1 m] by (auto simp: wiring_ok_def)
      qed
      then show ?thesis using event(2,3) TickOn
        by (auto simp: thread_steps split: if_splits option.splits)
    qed (use event(2,3) ok in \<open>auto simp: thread_steps Let_def lock_os_thread_def unlock_os_thread_def
        wiring_ok_def split: if_splits option.splits\<close>)
  qed
  with assms(2) show ?thesis by blast
qed

text \<open>One display: a session opened on thread 7, a frame taken on thread 8, the session closed on thread 7.\<close>

definition one_display :: "thread_event list" where
  "one_display = [MakeCapturer 7 True, StartLoop 0 8, TickOn 0 8 False, EndLoop 0 8, CloseOn 7]"

theorem session_used_on_other_thread_witness:
  "\<exists>s. thread_run 1 one_display no_threads = Some s \<and> uses s = [(7, 8)] \<and> (\<forall>x \<in> set (uses s). fst x \<noteq> snd x)"
proof -
  obtain s where r: "thread_run 1 one_display no_threads = Some s" "uses s = [(7, 8)]"
    by (simp add: one_display_def no_threads_def thread_steps runs_on_def lock_os_thread_def unlock_os_thread_def)
  have "list_all keeps_session one_display" by (simp add: one_display_def)
  from session_used_on_other_thread [OF r(1) this] r show ?thesis by blast
qed

theorem loop_stays_on_its_thread_witness:
  "\<exists>s s'. thread_run 1 [MakeCapturer 7 True, StartLoop 0 8] no_threads = Some s
     \<and> thread_run 1 [TickOn 0 8 False] s = Some s' \<and> (8 :: os_thread) = 8"
proof -
  obtain s where s: "thread_run 1 [MakeCapturer 7 True, StartLoop 0 8] no_threads = Some s" "looping s = [0]"
    "wired s (0 + 1) = Some (8, 1)"
    by (simp add: no_threads_def thread_steps runs_on_def lock_os_thread_def)
  have "\<exists>s'. thread_step 1 (TickOn 0 8 False) s = Some s'"
    using s(2,3) by (simp add: thread_steps runs_on_def split: option.split)
  then obtain s' where s': "thread_run 1 [TickOn 0 8 False] s = Some s'" by auto
  have "8 = (8 :: os_thread) \<longleftrightarrow> (0 :: nat) = 0"
    using loop_stays_on_its_thread [OF s' threads.runs_keep [OF s(1) no_threads_ok] _ _ s(3)] s(2) by simp
  with s(1) s' show ?thesis by blast
qed

end
