(* ===== verification/Capture_Log.thy ===== *)
theory Capture_Log
  imports Capture Ollama Memory_Store
begin

text \<open>
  The log: its set-up in \<open>cmd/digitalghost/main.go\<close> and the records that speak about the screen, those
  of a capture tick (\<open>capture_windows.go\<close>), of an inference attempt (\<open>ollama.go\<close>) and of a stored memory
  (\<open>lancedb.go\<close>). Package \<open>log/slog\<close> drops a record below the level of its handler and hands the line to
  the writer; \<open>io.MultiWriter\<close> stops at the first writer that fails. The formatting of a record is left out.
\<close>

section \<open>Loggers\<close>

datatype log_value =
    LvString string | LvInt int | LvFloat f64 | LvReal real | LvStrings "string list" | LvError string | LvOllama ollama_error

record log_record =
  lr_level :: int
  lr_msg :: string
  lr_attrs :: "(string \<times> log_value) list"

definition level_debug :: int where "level_debug = - 4"
definition level_info :: int where "level_info = 0"
definition level_warn :: int where "level_warn = 4"

datatype sink = Stdout | LogFile string

record slogger =
  sl_level :: int
  sl_sinks :: "sink list"

definition bootstrap_logger :: slogger where
  "bootstrap_logger = \<lparr>sl_level = level_info, sl_sinks = [Stdout]\<rparr>"

text \<open>\<open>mkdir\<close> and \<open>opened\<close>: the directory of the file could be made, the file could be opened.\<close>

definition configured_logger :: "logging_config \<Rightarrow> bool \<Rightarrow> bool \<Rightarrow> slogger" where
  "configured_logger c mkdir opened =
     \<lparr>sl_level = (if log_level c = ''debug'' then level_debug else level_info),
      sl_sinks = (if log_file c \<noteq> [] \<and> mkdir \<and> opened then [Stdout, LogFile (log_file c)] else [Stdout])\<rparr>"

fun multi_write :: "(sink \<Rightarrow> bool) \<Rightarrow> sink list \<Rightarrow> sink list" where
  "multi_write works [] = []"
| "multi_write works (s # ss) = (if works s then s # multi_write works ss else [])"

text \<open>The writers a record reaches.\<close>

definition emit :: "(sink \<Rightarrow> bool) \<Rightarrow> slogger \<Rightarrow> log_record \<Rightarrow> sink list" where
  "emit works lg r = (if lr_level r < sl_level lg then [] else multi_write works (sl_sinks lg))"

section \<open>Records\<close>

abbreviation on_display :: "'h monitor_loop \<Rightarrow> string \<times> log_value" where
  "on_display ml \<equiv> (''display'', LvInt (int (display_idx ml)))"

definition idle_log :: "capture_config \<Rightarrow> 'h tick_env \<Rightarrow> 'h monitor_loop \<Rightarrow> log_record list" where
  "idle_log c e ml =
     (let idle = (seconds_since_last_input (te_idle_input e) > idle_limit c) in
      if idle = is_idle ml then []
      else if idle
        then [\<lparr>lr_level = level_debug, lr_msg = ''capture rate reduced: system idle'',
               lr_attrs = [on_display ml, (''fps'', LvFloat (idle_fps c))]\<rparr>]
      else [\<lparr>lr_level = level_debug, lr_msg = ''capture rate restored: input detected'',
             lr_attrs = [on_display ml, (''fps'', LvFloat (fps c))]\<rparr>])"

definition dxgi_log :: "'h tick_env \<Rightarrow> 'h monitor_loop \<Rightarrow> dxgi_session option \<Rightarrow> log_record list" where
  "dxgi_log e ml dxgi =
     (case (if display_idx ml = 0 then dxgi else None) of
        None \<Rightarrow> []
      | Some s \<Rightarrow>
          (case dxgi_capture_frame s (te_dxgi e) (te_dxgi_reopen e) of
             Some (_, Inl err) \<Rightarrow>
               [\<lparr>lr_level = level_warn, lr_msg = ''DXGI failed; falling back to GDI'',
                 lr_attrs = [on_display ml, (''error'', LvError err)]\<rparr>]
           | _ \<Rightarrow> []))"

text \<open>The log of \<open>captureFrame\<close>: a decision of the gate is a debug record, and only when it blocks.\<close>

definition capture_frame_log :: "'h tick_env \<Rightarrow> 'h monitor_loop \<Rightarrow> dxgi_session option \<Rightarrow> log_record list" where
  "capture_frame_log e ml dxgi =
     (if gr_blocked (te_gate e)
      then [\<lparr>lr_level = level_debug, lr_msg = ''BLOCKED'',
             lr_attrs = [(''reason'', LvString (gr_reason (te_gate e))), on_display ml]\<rparr>]
      else
        (let ml1 = track_dwell (te_now e) (window_key (gr_window_ctx (te_gate e))) ml in
         dxgi_log e ml dxgi @
         (case grab_pixels e ml1 dxgi of
            Some (ml2, _, Inr im) \<Rightarrow>
              (let im1 = (case te_password_rect e of None \<Rightarrow> im | Some r \<Rightarrow> mask_rect r im) in
               (if te_password_rect e = None then []
                else [\<lparr>lr_level = level_debug, lr_msg = ''password field masked'', lr_attrs = [on_display ml]\<rparr>])
               @ (case hash_frame (te_phash e) (build_frame e ml2 im1) of
                    Inr _ \<Rightarrow> []
                  | Inl err \<Rightarrow> [\<lparr>lr_level = level_debug, lr_msg = ''pHash failed'',
                                lr_attrs = [on_display ml, (''error'', LvError err)]\<rparr>]))
          | _ \<Rightarrow> [])))"

definition tick_log ::
  "capture_config \<Rightarrow> ('h \<Rightarrow> 'h \<Rightarrow> string + int) \<Rightarrow> 'h tick_env \<Rightarrow> bool \<Rightarrow> 'h monitor_loop \<Rightarrow> dxgi_session option
     \<Rightarrow> log_record list" where
  "tick_log c hdist e chan_free ml dxgi =
     (let ml1 = fst (switch_idle c e ml) in
      idle_log c e ml @ capture_frame_log e ml1 dxgi @
      (case capture_frame e ml1 dxgi of
         Some (_, _, Inl err) \<Rightarrow>
           [\<lparr>lr_level = level_warn, lr_msg = ''frame capture failed'', lr_attrs = [on_display ml, (''error'', LvError err)]\<rparr>]
       | Some (ml2, _, Inr (Some f)) \<Rightarrow>
           (let dup = (case prev_frame ml2 of
                         None \<Rightarrow> False
                       | Some p \<Rightarrow> (case is_duplicate hdist f p (hash_threshold c) of Inr b \<Rightarrow> b | Inl _ \<Rightarrow> False))
            in if dup \<or> chan_free then []
               else [\<lparr>lr_level = level_warn,
                      lr_msg = ''frame queue full; dropping frame '' @ em_dash @ '' inference too slow or queue too small'',
                      lr_attrs = [on_display ml]\<rparr>])
       | _ \<Rightarrow> []))"

text \<open>One attempt of \<open>Infer\<close>, the \<open>k\<close>th from zero.\<close>

definition attempt_log :: "ollama_client \<Rightarrow> nat \<Rightarrow> ollama_error + inference_result \<Rightarrow> log_record" where
  "attempt_log c k r =
     (case r of
        Inr x \<Rightarrow> \<lparr>lr_level = level_debug, lr_msg = ''inference complete'',
          lr_attrs = [(''model'', LvString (model (oc_cfg c))), (''latency_ms'', LvInt (ir_latency_ms x)),
                      (''tags'', LvStrings (ir_tags x))]\<rparr>
      | Inl e \<Rightarrow> \<lparr>lr_level = level_warn, lr_msg = ''inference attempt failed'',
          lr_attrs = [(''attempt'', LvInt (wrap64 (int k + 1))), (''max'', LvInt (wrap64 (max_retries (oc_cfg c) + 1))),
                      (''error'', LvOllama e)]\<rparr>)"

text \<open>What \<open>Store.Write\<close> logs when the record is written.\<close>

definition stored_log :: "memory_node \<Rightarrow> log_record" where
  "stored_log n = \<lparr>lr_level = level_info, lr_msg = ''stored memory node'',
     lr_attrs = [(''node_id'', LvString (hex_encode (mn_id n))), (''process'', LvString (mn_process_name n)),
                 (''engagement'', LvReal (mn_engagement_score n))]\<rparr>"

section \<open>What reaches the log\<close>

lemmas levels = level_debug_def level_info_def level_warn_def

lemma emit_not_debug:
  "log_level lc \<noteq> ''debug'' \<Longrightarrow> lr_level r = level_debug \<Longrightarrow> emit works (configured_logger lc m w) r = []"
  by (simp add: emit_def configured_logger_def levels)

lemma tick_log_blocked:
  assumes "gr_blocked (te_gate e)" "r \<in> set (tick_log c hdist e free ml dxgi)"
  shows "lr_level r = level_debug"
  using assms
  by (auto simp: tick_log_def capture_frame_log_def capture_frame_def idle_log_def Let_def split: if_splits)

lemma blocked_log_recorded:
  "gr_blocked (te_gate e) \<Longrightarrow>
     \<lparr>lr_level = level_debug, lr_msg = ''BLOCKED'', lr_attrs = [(''reason'', LvString (gr_reason (te_gate e))),
        on_display (fst (switch_idle c e ml))]\<rparr> \<in> set (tick_log c hdist e free ml dxgi)"
  by (simp add: tick_log_def capture_frame_log_def Let_def)

text \<open>
  The README promises that every decision is logged to \<open>dg.log\<close>. With the default level, or any level but
  debug, a blocked window leaves no trace in the log; and at no level does a tick whose window passes
  write a record of that.
\<close>

theorem decisions_not_in_log:
  assumes "log_level lc \<noteq> ''debug''" "gr_blocked (te_gate e)" "r \<in> set (tick_log c hdist e free ml dxgi)"
  shows "emit works (configured_logger lc mkdir opened) r = []"
  using emit_not_debug [OF assms(1) tick_log_blocked [OF assms(2,3)]] .

definition silent :: "log_record \<Rightarrow> bool" where
  "silent r \<longleftrightarrow> lr_msg r \<notin> {''PASS'', ''BLOCKED''} \<and> (\<forall>w. LvString w \<notin> snd ` set (lr_attrs r))"

lemma idle_log_silent: "list_all silent (idle_log c e ml)"
  by (simp add: idle_log_def silent_def Let_def)

lemma dxgi_log_silent: "list_all silent (dxgi_log e ml dxgi)"
  by (simp add: dxgi_log_def silent_def split: option.split sum.split prod.split)

lemma capture_frame_log_silent:
  "\<not> gr_blocked (te_gate e) \<Longrightarrow> list_all silent (capture_frame_log e ml dxgi)"
  using dxgi_log_silent [of e ml dxgi]
  by (simp add: capture_frame_log_def silent_def Let_def split: option.split sum.split prod.split)

theorem passes_not_in_log:
  assumes "\<not> gr_blocked (te_gate e)" "r \<in> set (tick_log c hdist e free ml dxgi)"
  shows "lr_msg r \<notin> {''PASS'', ''BLOCKED''} \<and> (\<forall>w. LvString w \<notin> snd ` set (lr_attrs r))"
proof -
  let ?m = "fst (switch_idle c e ml)"
  let ?rest = "case capture_frame e ?m dxgi of
         Some (_, _, Inl err) \<Rightarrow>
           [\<lparr>lr_level = level_warn, lr_msg = ''frame capture failed'', lr_attrs = [on_display ml, (''error'', LvError err)]\<rparr>]
       | Some (ml2, _, Inr (Some f)) \<Rightarrow>
           (let dup = (case prev_frame ml2 of
                         None \<Rightarrow> False
                       | Some p \<Rightarrow> (case is_duplicate hdist f p (hash_threshold c) of Inr b \<Rightarrow> b | Inl _ \<Rightarrow> False))
            in if dup \<or> free then []
               else [\<lparr>lr_level = level_warn,
                      lr_msg = ''frame queue full; dropping frame '' @ em_dash @ '' inference too slow or queue too small'',
                      lr_attrs = [on_display ml]\<rparr>])
       | _ \<Rightarrow> []"
  have "list_all silent ?rest"
    by (simp add: silent_def Let_def split: option.split sum.split prod.split)
  then have "list_all silent (tick_log c hdist e free ml dxgi)"
    using idle_log_silent [of c e ml] capture_frame_log_silent [OF assms(1), of ?m dxgi]
    by (simp add: tick_log_def Let_def)
  with assms(2) show ?thesis by (auto simp: list_all_iff silent_def)
qed

text \<open>
  Of a memory that is described and stored, the log has at most its identifier, the name of the
  application and the engagement score, unless the level is debug; then the tags of the description,
  which come from the screen, are written in the clear to the file.
\<close>

theorem memory_leaves_identifier_only:
  assumes "log_level lc \<noteq> ''debug''"
    and "r \<in> {attempt_log c k (Inr x), stored_log n}" "emit works (configured_logger lc mkdir opened) r \<noteq> []"
  shows "snd ` set (lr_attrs r)
    = {LvString (hex_encode (mn_id n)), LvString (mn_process_name n), LvReal (mn_engagement_score n)}"
proof -
  have "lr_level (attempt_log c k (Inr x)) = level_debug" by (simp add: attempt_log_def)
  with emit_not_debug [OF assms(1)] assms(2,3) have "r = stored_log n" by auto
  then show ?thesis by (simp add: stored_log_def)
qed

theorem debug_log_has_tags:
  assumes "log_level lc = ''debug''" "log_file lc \<noteq> []" "works Stdout" "works (LogFile (log_file lc))"
  shows "LogFile (log_file lc) \<in> set (emit works (configured_logger lc True True) (attempt_log c k (Inr x)))
     \<and> (''tags'', LvStrings (ir_tags x)) \<in> set (lr_attrs (attempt_log c k (Inr x)))"
  using assms by (simp add: emit_def configured_logger_def attempt_log_def)

text \<open>When the standard output cannot be written, as in a process without a console, the file stays empty.\<close>

theorem no_console_no_file:
  assumes "\<not> works Stdout"
  shows "emit works (configured_logger lc mkdir opened) r = []"
  using assms by (simp add: emit_def configured_logger_def)

section \<open>Witnesses\<close>

abbreviation default_logging :: logging_config where
  "default_logging \<equiv> cfg_logging config_defaults"

lemma default_logging: "log_level default_logging = ''info''" "log_file default_logging \<noteq> []"
  by (simp_all add: config_defaults_def)

theorem decisions_not_in_log_witness:
  "\<exists>r. r \<in> set (tick_log (cfg_capture config_defaults) (\<lambda>h k. Inr 64) (quiet_tick 1 (block_result ''capture_paused'')) True tiny_monitor None)
     \<and> lr_msg r = ''BLOCKED'' \<and> emit (\<lambda>_. True) (configured_logger default_logging True True) r = []"
proof -
  let ?e = "quiet_tick 1 (block_result ''capture_paused'')"
  obtain r where r: "r \<in> set (tick_log (cfg_capture config_defaults) (\<lambda>h k. Inr 64) ?e True tiny_monitor None)"
    "lr_msg r = ''BLOCKED''"
    using blocked_log_recorded [of ?e] by (fastforce simp: quiet_tick_def block_result_def)
  have "gr_blocked (te_gate ?e)" by (simp add: quiet_tick_def block_result_def)
  from decisions_not_in_log [OF _ this r(1), of default_logging] r default_logging(1) show ?thesis by auto
qed

theorem memory_leaves_identifier_only_witness:
  "snd ` set (lr_attrs (stored_log sample_node))
     = {LvString (hex_encode (mn_id sample_node)), LvString (mn_process_name sample_node), LvReal (mn_engagement_score sample_node)}"
proof (rule memory_leaves_identifier_only [of default_logging _ _ _ _ _ "\<lambda>_. True" True True])
  show "emit (\<lambda>_. True) (configured_logger default_logging True True) (stored_log sample_node) \<noteq> []"
    by (simp add: emit_def configured_logger_def stored_log_def config_defaults_def levels)
qed (simp_all add: default_logging)

end
