(* ===== verification/Tray_Icon.thy ===== *)
theory Tray_Icon
  imports Frame
begin

text \<open>
  The picture \<open>trayIconPNG\<close> of \<open>consent_windows.go\<close> draws for the tray icon, which has to be visible
  whenever the daemon runs. All \<open>float64\<close> values that occur are multiples of a quarter below \<open>2 ^ 10\<close>, so
  the arithmetic is exact. The PNG encoder is an argument.
\<close>

definition icon_size :: int where "icon_size = 32"

definition purple :: rgba where
  "purple = \<lparr>red = 0x7c, green = 0x3a, blue = 0xed, alpha = 0xff\<rparr>"

definition in_disc :: "int \<Rightarrow> int \<Rightarrow> bool" where
  "in_disc x y =
     (let cx = real_of_int icon_size / 2; cy = real_of_int icon_size / 2; r = real_of_int icon_size / 2 - 1;
          ox = real_of_int x + 1/2 - cx; oy = real_of_int y + 1/2 - cy
      in ox * ox + oy * oy \<le> r * r)"

definition tray_icon :: image where
  "tray_icon = \<lparr>bounds = image_rect 0 0 icon_size icon_size,
     pix = (\<lambda>x y. if in_disc x y then purple else zero_rgba)\<rparr>"

definition tray_icon_png :: "(image \<Rightarrow> bytes) \<Rightarrow> bytes" where
  "tray_icon_png png = png tray_icon"

text \<open>The test without fractions: twice the distances from the centre.\<close>

lemma in_disc_int: "in_disc x y \<longleftrightarrow> (2 * x - 31) * (2 * x - 31) + (2 * y - 31) * (2 * y - 31) \<le> 900"
proof -
  have "in_disc x y \<longleftrightarrow> (real_of_int x + 1/2 - 16) * (real_of_int x + 1/2 - 16)
      + (real_of_int y + 1/2 - 16) * (real_of_int y + 1/2 - 16) \<le> 225"
    by (simp add: in_disc_def Let_def icon_size_def)
  also have "\<dots> \<longleftrightarrow> real_of_int ((2 * x - 31) * (2 * x - 31) + (2 * y - 31) * (2 * y - 31)) \<le> real_of_int 900"
    by (simp add: algebra_simps) linarith
  finally show ?thesis by (simp only: of_int_le_iff)
qed

text \<open>
  The icon is never blank: at least every pixel of the square of 20 by 20 in the middle is opaque, and no
  pixel touches the border, where nothing is drawn.
\<close>

theorem icon_visible:
  assumes "6 \<le> x" "x < 26" "6 \<le> y" "y < 26"
  shows "img_at tray_icon x y = purple"
proof -
  have sq: "(2 * z - 31) * (2 * z - 31) \<le> 19 * (19 :: int)" if "6 \<le> z" "z < 26" for z
  proof -
    have "\<bar>2 * z - 31\<bar> \<le> \<bar>19\<bar>" using that by linarith
    then show ?thesis by (simp only: abs_le_square_iff power2_eq_square)
  qed
  have "in_disc x y" using sq [OF assms(1,2)] sq [OF assms(3,4)] by (simp add: in_disc_int)
  then show ?thesis using assms by (simp add: img_at_def tray_icon_def image_rect_def icon_size_def in_rect_def)
qed

theorem icon_border_clear:
  assumes "x \<in> {0, 31} \<or> y \<in> {0, 31}"
  shows "img_at tray_icon x y = zero_rgba"
proof -
  have "0 < 61 + (2 * z - 31) * (2 * z - 31)" for z :: int by (rule add_pos_nonneg) simp_all
  then have "\<not> in_disc x y" using assms by (auto simp: in_disc_int not_le)
  then show ?thesis by (simp add: img_at_def tray_icon_def)
qed

end
