(* ===== verification/Live_Daemon.thy ===== *)
theory Live_Daemon
  imports Pipeline Windows_Capturer Callback_Pool
begin

text \<open>
  The daemon while it runs, on Windows: everything \<open>run\<close> has wired together before it blocks (the
  tray, the gate and its blocklist, one capture loop for each display, the channel and the bridge
  to the queue, the inference loop, the web server, the retention sweep) as one machine over the
  shared state. The goroutines interleave freely: an event is what one of them does between two
  points at which another can come in, so the gate check of a tick and its screenshot, taking a
  frame and describing it, deciding on a memory and writing it, listing expired records and
  deleting each of them are separate events. A request to the web server is one event. What the
  outside answers is in the event; an event that cannot happen in a state, and a crash of the
  process, have no next state.
\<close>

section \<open>Wiring\<close>

text \<open>The outside functions the components share, beside those of \<open>env\<close>.\<close>

record outside =
  o_math :: go_math
  o_hdist :: "int \<Rightarrow> int \<Rightarrow> string + int"
  o_jpeg :: "image \<Rightarrow> string + bytes"
  o_order :: "cache \<Rightarrow> (node_id \<times> float32 list) list"
  o_format_time :: "int \<Rightarrow> string"
  o_start_of_day :: "int \<Rightarrow> int"
  o_add_days :: "int \<Rightarrow> int \<Rightarrow> int"
  o_callback_limit :: nat

definition blocklist_path :: "env \<Rightarrow> string" where
  "blocklist_path v =
     (case v_home v of
        None \<Rightarrow> []
      | Some home \<Rightarrow> join_path (join_path (join_path home ''.config'') ''digitalghost'') ''blocklist.yaml'')"

text \<open>One store and one client, shared by the inference loop, the web server and the sweep.\<close>

definition store_of :: "env \<Rightarrow> outside \<Rightarrow> daemon \<Rightarrow> json_state conn" where
  "store_of v ou dm = json_conn (v_lib v) (dm_encryptor dm) (o_order ou)"

definition deps_of :: "env \<Rightarrow> outside \<Rightarrow> daemon \<Rightarrow> json_state deps" where
  "deps_of v ou dm = \<lparr>d_um = v_um v, d_math = o_math ou, d_jpeg = o_jpeg ou, d_dec = v_dec v, d_net = v_net v, d_resolve = v_resolve v,
     d_lib = v_lib v, d_enc = dm_encryptor dm, d_conn = store_of v ou dm, d_cfg = dm_cfg dm\<rparr>"

definition api_of :: "env \<Rightarrow> outside \<Rightarrow> daemon \<Rightarrow> json_state api_deps" where
  "api_of v ou dm = \<lparr>a_lib = v_lib v, a_enc = dm_encryptor dm, a_conn = store_of v ou dm, a_dec = v_dec v,
     a_net = v_net v, a_resolve = v_resolve v, a_client = new_client (cfg_inference (dm_cfg dm)),
     a_format_time = o_format_time ou, a_start_of_day = o_start_of_day ou, a_add_days = o_add_days ou\<rparr>"

definition sweep_cutoff :: "outside \<Rightarrow> daemon \<Rightarrow> int \<Rightarrow> int" where
  "sweep_cutoff ou dm now = o_add_days ou now (- retention_days (cfg_storage (dm_cfg dm)))"

section \<open>State and events\<close>

text \<open>
  \<open>lv_checked\<close> holds, for a display whose loop is between its gate check and its screenshot, the gate
  and the desktop of the check; \<open>lv_expired\<close> the records the running sweep has still to delete. The
  last three fields record the past: every screenshot the ticks took, the frames they sent (a duplicate
  and a frame for a full channel are dropped), and what was handed to \<open>Store.Write\<close>.
\<close>

record live =
  lv_tray :: tray_state
  lv_loops :: "int monitor_loop list"
  lv_checked :: "nat \<Rightarrow> (gate \<times> windows_desktop) option"
  lv_dxgi :: "dxgi_session option"
  lv_callbacks :: nat
  lv_capturing :: "nat \<Rightarrow> bool"
  lv_chan :: "int frame option"
  lv_bridge :: "int frame option"
  lv_queue :: "int frame queue"
  lv_inferring :: bool
  lv_popped :: "int frame option"
  lv_unwritten :: "memory_node option"
  lv_loop :: "json_state loop_state"
  lv_serving :: bool
  lv_expired :: "node_id list"
  lv_shots :: "(int frame \<times> gate \<times> windows_desktop) list"
  lv_sent :: "(int frame \<times> gate \<times> windows_desktop) list"
  lv_written :: "memory_node list"

datatype live_event =
    OnClick tray_event | OnSignal | OnFile watch_event
  | OnCheck nat windows_desktop | OnTick nat "int tick_env" | OnCaptureEnd nat
  | OnReceive | OnPush | OnPop | OnDecide "int turn" | OnWrite "string + bytes" | OnInferenceEnd
  | OnRequest bool bool int http_in | OnServerEnd | OnSweep int | OnExpire

text \<open>The goroutines as \<open>run\<close> starts them; the tray may have been clicked before.\<close>

definition live_start :: "daemon \<Rightarrow> tray_state \<Rightarrow> int monitor_loop list \<Rightarrow> dxgi_session option \<Rightarrow> live" where
  "live_start dm tr loops dxgi = \<lparr>lv_tray = tr\<lparr>tray_gate := Some (dm_gate dm)\<rparr>, lv_loops = loops, lv_checked = (\<lambda>_. None),
     lv_dxgi = dxgi, lv_callbacks = package_callbacks, lv_capturing = (\<lambda>_. True), lv_chan = None, lv_bridge = None, lv_queue = dm_queue dm, lv_inferring = True,
     lv_popped = None, lv_unwritten = None,
     lv_loop = \<lparr>ls_gov = dm_governor dm, ls_sent = [], ls_store = dm_store dm, consecutive_fails = 0\<rparr>,
     lv_serving = True, lv_expired = [], lv_shots = [], lv_sent = [], lv_written = []\<rparr>"

section \<open>The steps\<close>

text \<open>The tray, the signals and the watcher of the blocklist file.\<close>

definition with_store :: "json_state \<Rightarrow> live \<Rightarrow> live" where
  "with_store st s = s\<lparr>lv_loop := (lv_loop s)\<lparr>ls_store := st\<rparr>\<rparr>"

definition stop_daemon :: "live \<Rightarrow> live" where
  "stop_daemon s = s\<lparr>lv_tray := (lv_tray s)\<lparr>stop_requested := True\<rparr>\<rparr>"

definition click_step :: "tray_event \<Rightarrow> live \<Rightarrow> live option" where
  "click_step ev s = map_option (\<lambda>t. s\<lparr>lv_tray := t\<rparr>) (tray_step ev (lv_tray s))"

definition reload_live :: "env \<Rightarrow> watch_event \<Rightarrow> live \<Rightarrow> live option" where
  "reload_live v ev s =
     (case tray_gate (lv_tray s) of
        None \<Rightarrow> None
      | Some g \<Rightarrow>
          map_option (\<lambda>bl. s\<lparr>lv_tray := (lv_tray s)\<lparr>tray_gate := Some (g\<lparr>gate_blocklist := bl\<rparr>)\<rparr>\<rparr>)
            (watch_step (v_um v) (v_regexps v) (v_yaml v) (blocklist_path v) ev (gate_blocklist g)))"

text \<open>
  A display: the gate check opens a tick, the screenshot and the send on the channel close it. Each
  check that looks at the windows in the background uses up a callback of the process.
\<close>

definition check_step :: "env \<Rightarrow> outside \<Rightarrow> nat \<Rightarrow> windows_desktop \<Rightarrow> live \<Rightarrow> live option" where
  "check_step v ou i w s =
     (case tray_gate (lv_tray s) of
        None \<Rightarrow> None
      | Some g \<Rightarrow>
          if lv_capturing s i \<and> i < length (lv_loops s) \<and> Option.is_none (lv_checked s i)
          then (case gate_check_windows (v_um v) (o_callback_limit ou) g w (lv_callbacks s) of
                  None \<Rightarrow> None
                | Some (_, n) \<Rightarrow> Some (s\<lparr>lv_checked := (lv_checked s)(i \<mapsto> (g, w)), lv_callbacks := n\<rparr>))
          else None)"

definition tick_step :: "env \<Rightarrow> outside \<Rightarrow> daemon \<Rightarrow> nat \<Rightarrow> int tick_env \<Rightarrow> live \<Rightarrow> live option" where
  "tick_step v ou dm i e s =
     (case lv_checked s i of
        None \<Rightarrow> None
      | Some (g, w) \<Rightarrow>
          (let e1 = e\<lparr>te_gate := check_windows (v_um v) g w\<rparr> in
           case capture_tick (cfg_capture (dm_cfg dm)) (o_hdist ou) e1 (Option.is_none (lv_chan s)) (lv_loops s ! i) (lv_dxgi s) of
             None \<Rightarrow> None
           | Some (ml, d, r) \<Rightarrow>
               (let u = s\<lparr>lv_checked := (lv_checked s)(i := None), lv_loops := (lv_loops s)[i := ml], lv_dxgi := d,
                      lv_shots := lv_shots s @ (case tick_shot (cfg_capture (dm_cfg dm)) e1 (lv_loops s ! i) (lv_dxgi s) of
                                                  None \<Rightarrow> [] | Some f \<Rightarrow> [(f, g, w)])\<rparr>
                in Some (case r of None \<Rightarrow> u
                         | Some f \<Rightarrow> u\<lparr>lv_chan := Some f, lv_sent := lv_sent s @ [(f, g, w)]\<rparr>))))"

text \<open>Between two ticks a loop sees the stop and releases its handles.\<close>

definition capture_end_step :: "nat \<Rightarrow> live \<Rightarrow> live option" where
  "capture_end_step i s =
     (if i < length (lv_loops s) \<and> lv_capturing s i \<and> stop_requested (lv_tray s) \<and> Option.is_none (lv_checked s i)
      then (case release_handles (ml_gdi (lv_loops s ! i)) of
              (calls, g) \<Rightarrow>
                Some (s\<lparr>lv_capturing := (lv_capturing s)(i := False),
                  lv_loops := (lv_loops s)[i := (lv_loops s ! i)\<lparr>ml_gdi := g, ml_gdi_log := ml_gdi_log (lv_loops s ! i) @ calls\<rparr>]\<rparr>))
      else None)"

text \<open>The channel of capacity one, the bridge, the queue.\<close>

definition receive_step :: "live \<Rightarrow> live option" where
  "receive_step s =
     (case (lv_chan s, lv_bridge s) of
        (Some f, None) \<Rightarrow> Some (s\<lparr>lv_chan := None, lv_bridge := Some f\<rparr>)
      | _ \<Rightarrow> None)"

definition push_step :: "live \<Rightarrow> live option" where
  "push_step s =
     (case lv_bridge s of
        None \<Rightarrow> None
      | Some f \<Rightarrow> map_option (\<lambda>q. s\<lparr>lv_queue := q, lv_bridge := None\<rparr>) (push f (lv_queue s)))"

definition pop_step :: "live \<Rightarrow> live option" where
  "pop_step s =
     (if lv_inferring s \<and> Option.is_none (lv_popped s) \<and> Option.is_none (lv_unwritten s)
      then map_option (\<lambda>(f, q). s\<lparr>lv_queue := q, lv_popped := f\<rparr>) (try_pop (lv_queue s)) else None)"

text \<open>
  A turn of the inference loop up to the call of \<open>Store.Write\<close>: the same turn, on a connection that
  holds the write back. The node it decided on is written later. A panic stops the daemon.
\<close>

definition held_back :: "'s deps \<Rightarrow> 's deps" where
  "held_back d = d\<lparr>d_conn := (d_conn d)\<lparr>c_write := (\<lambda>i ts p s. (Some (NodeNotFound i), s))\<rparr>\<rparr>"

definition decide_step :: "env \<Rightarrow> outside \<Rightarrow> daemon \<Rightarrow> int turn \<Rightarrow> live \<Rightarrow> live option" where
  "decide_step v ou dm t s =
     (case lv_popped s of
        None \<Rightarrow> None
      | Some f \<Rightarrow>
          (case inference_turn (held_back (deps_of v ou dm)) (t\<lparr>tn_frame := Some f\<rparr>) (lv_loop s) of
             None \<Rightarrow> None
           | Some (x, l, n) \<Rightarrow>
               (let u = s\<lparr>lv_popped := None, lv_loop := l, lv_unwritten := n, lv_inferring := (x \<noteq> Returns \<and> x \<noteq> Panics)\<rparr>
                in Some (if x = Panics then stop_daemon u else u))))"

definition write_step :: "env \<Rightarrow> outside \<Rightarrow> daemon \<Rightarrow> string + bytes \<Rightarrow> live \<Rightarrow> live option" where
  "write_step v ou dm rnd s =
     (case lv_unwritten s of
        None \<Rightarrow> None
      | Some node \<Rightarrow>
          (case store_write (v_lib v) (dm_encryptor dm) (store_of v ou dm) rnd node (ls_store (lv_loop s)) of
             (_, st) \<Rightarrow> Some (with_store st (s\<lparr>lv_unwritten := None, lv_written := lv_written s @ [node]\<rparr>))))"

text \<open>\<open>Pop\<close> gives up only on an empty queue.\<close>

definition inference_end_step :: "live \<Rightarrow> live option" where
  "inference_end_step s =
     (if lv_inferring s \<and> stop_requested (lv_tray s) \<and> Option.is_none (lv_popped s) \<and> Option.is_none (lv_unwritten s)
         \<and> Option.is_none (try_pop (lv_queue s))
      then Some (s\<lparr>lv_inferring := False\<rparr>) else None)"

definition request_step :: "env \<Rightarrow> outside \<Rightarrow> daemon \<Rightarrow> bool \<Rightarrow> bool \<Rightarrow> int \<Rightarrow> http_in \<Rightarrow> live \<Rightarrow> live option" where
  "request_step v ou dm gone1 gone2 now r s =
     (if lv_serving s then
        (case serve (api_of v ou dm) (dm_server dm) gone1 gone2 now r (ls_sent (lv_loop s), ls_store (lv_loop s)) of
           (_, sent, st) \<Rightarrow> Some (with_store st (s\<lparr>lv_loop := (lv_loop s)\<lparr>ls_sent := sent\<rparr>\<rparr>)))
      else None)"

text \<open>A sweep lists the expired records and then deletes one after the other.\<close>

definition sweep_step :: "env \<Rightarrow> outside \<Rightarrow> daemon \<Rightarrow> int \<Rightarrow> live \<Rightarrow> live option" where
  "sweep_step v ou dm now s =
     (if lv_expired s \<noteq> [] then None
      else
        (case c_older (store_of v ou dm) (sweep_cutoff ou dm now) (ls_store (lv_loop s)) of
           (r, st) \<Rightarrow> Some (with_store st (s\<lparr>lv_expired := (case r of Inl _ \<Rightarrow> [] | Inr ids \<Rightarrow> ids)\<rparr>))))"

definition expire_step :: "env \<Rightarrow> outside \<Rightarrow> daemon \<Rightarrow> live \<Rightarrow> live option" where
  "expire_step v ou dm s =
     (case lv_expired s of
        [] \<Rightarrow> None
      | i # rest \<Rightarrow>
          (case store_delete (store_of v ou dm) i (ls_store (lv_loop s)) of
             (_, st) \<Rightarrow> Some (with_store st (s\<lparr>lv_expired := rest\<rparr>))))"

definition live_step :: "env \<Rightarrow> outside \<Rightarrow> daemon \<Rightarrow> live_event \<Rightarrow> live \<Rightarrow> live option" where
  "live_step v ou dm ev s =
     (case ev of
        OnClick c \<Rightarrow> click_step c s
      | OnSignal \<Rightarrow> Some (stop_daemon s)
      | OnFile w \<Rightarrow> reload_live v w s
      | OnCheck i w \<Rightarrow> check_step v ou i w s
      | OnTick i e \<Rightarrow> tick_step v ou dm i e s
      | OnCaptureEnd i \<Rightarrow> capture_end_step i s
      | OnReceive \<Rightarrow> receive_step s
      | OnPush \<Rightarrow> push_step s
      | OnPop \<Rightarrow> pop_step s
      | OnDecide t \<Rightarrow> decide_step v ou dm t s
      | OnWrite rnd \<Rightarrow> write_step v ou dm rnd s
      | OnInferenceEnd \<Rightarrow> inference_end_step s
      | OnRequest gone1 gone2 now r \<Rightarrow> request_step v ou dm gone1 gone2 now r s
      | OnServerEnd \<Rightarrow> Some (s\<lparr>lv_serving := False\<rparr>)
      | OnSweep now \<Rightarrow> sweep_step v ou dm now s
      | OnExpire \<Rightarrow> expire_step v ou dm s)"

fun live_run :: "env \<Rightarrow> outside \<Rightarrow> daemon \<Rightarrow> live_event list \<Rightarrow> live \<Rightarrow> live option" where
  "live_run v ou dm [] s = Some s"
| "live_run v ou dm (ev # evs) s = Option.bind (live_step v ou dm ev s) (live_run v ou dm evs)"

section \<open>What every event keeps\<close>

lemma with_store_simps [simp]:
  "lv_tray (with_store st s) = lv_tray s" "lv_loops (with_store st s) = lv_loops s"
  "lv_checked (with_store st s) = lv_checked s" "lv_capturing (with_store st s) = lv_capturing s" "lv_callbacks (with_store st s) = lv_callbacks s"
  "lv_chan (with_store st s) = lv_chan s" "lv_bridge (with_store st s) = lv_bridge s"
  "lv_queue (with_store st s) = lv_queue s" "lv_popped (with_store st s) = lv_popped s"
  "lv_unwritten (with_store st s) = lv_unwritten s" "lv_expired (with_store st s) = lv_expired s"
  "lv_shots (with_store st s) = lv_shots s" "lv_sent (with_store st s) = lv_sent s" "lv_written (with_store st s) = lv_written s"
  "ls_store (lv_loop (with_store st s)) = st"
  by (simp_all add: with_store_def)

lemma stop_daemon_simps [simp]:
  "tray_gate (lv_tray (stop_daemon s)) = tray_gate (lv_tray s)" "lv_loops (stop_daemon s) = lv_loops s"
  "lv_checked (stop_daemon s) = lv_checked s" "lv_chan (stop_daemon s) = lv_chan s" "lv_bridge (stop_daemon s) = lv_bridge s"
  "lv_queue (stop_daemon s) = lv_queue s" "lv_popped (stop_daemon s) = lv_popped s"
  "lv_unwritten (stop_daemon s) = lv_unwritten s" "lv_loop (stop_daemon s) = lv_loop s"
  "lv_expired (stop_daemon s) = lv_expired s" "lv_callbacks (stop_daemon s) = lv_callbacks s"
  "lv_shots (stop_daemon s) = lv_shots s" "lv_sent (stop_daemon s) = lv_sent s" "lv_written (stop_daemon s) = lv_written s"
  by (simp_all add: stop_daemon_def)

lemmas live_steps = click_step_def reload_live_def check_step_def tick_step_def capture_end_step_def receive_step_def
  push_step_def pop_step_def decide_step_def write_step_def inference_end_step_def request_step_def sweep_step_def
  expire_step_def

text \<open>The gate in force and the gates of the ticks in progress hold a blocklist with the built-in entries.\<close>

definition gates_ok :: "env \<Rightarrow> live \<Rightarrow> bool" where
  "gates_ok v s \<longleftrightarrow> (\<exists>g. tray_gate (lv_tray s) = Some g \<and> protects (v_um v) (gate_blocklist g))
     \<and> (\<forall>i g w. lv_checked s i = Some (g, w) \<longrightarrow> protects (v_um v) (gate_blocklist g))"

text \<open>The frames between the ticks and the model, and the memories decided on.\<close>

definition on_the_way :: "live \<Rightarrow> int frame set" where
  "on_the_way s = set_option (lv_chan s) \<union> set_option (lv_bridge s) \<union> set (contents (lv_queue s)) \<union> set_option (lv_popped s)"

definition memories :: "live \<Rightarrow> memory_node set" where
  "memories s = set_option (lv_unwritten s) \<union> set (lv_written s)"

definition shot_ok :: "env \<Rightarrow> outside \<Rightarrow> daemon \<Rightarrow> int frame \<times> gate \<times> windows_desktop \<Rightarrow> bool" where
  "shot_ok v ou dm x \<longleftrightarrow>
     (case x of (f, g, w) \<Rightarrow> protects (v_um v) (gate_blocklist g)
        \<and> (\<exists>e room ml dxgi ml2 d2. te_gate e = check_windows (v_um v) g w
             \<and> capture_tick (cfg_capture (dm_cfg dm)) (o_hdist ou) e room ml dxgi = Some (ml2, d2, Some f)))"

definition frames_ok :: "env \<Rightarrow> outside \<Rightarrow> daemon \<Rightarrow> live \<Rightarrow> bool" where
  "frames_ok v ou dm s \<longleftrightarrow> queue_inv (lv_queue s) \<and> (\<forall>x\<in>set (lv_sent s). shot_ok v ou dm x)
     \<and> on_the_way s \<subseteq> fst ` set (lv_sent s)
     \<and> (\<forall>node\<in>memories s. \<exists>f\<in>fst ` set (lv_sent s). qualifies (deps_of v ou dm) f node)"

definition live_inv :: "env \<Rightarrow> outside \<Rightarrow> daemon \<Rightarrow> live \<Rightarrow> bool" where
  "live_inv v ou dm s \<longleftrightarrow> gates_ok v s \<and> frames_ok v ou dm s \<and> q_cap (lv_queue s) = q_cap (dm_queue dm)
     \<and> (\<forall>i x. lv_checked s i = Some x \<longrightarrow> i < length (lv_loops s))"

lemma tray_step_gate:
  assumes "tray_step ev t = Some u" "tray_gate t = Some g"
  shows "\<exists>h. tray_gate u = Some h \<and> gate_blocklist h = gate_blocklist g"
    "paused g \<Longrightarrow> ev \<noteq> ClickResume \<Longrightarrow> \<exists>h. tray_gate u = Some h \<and> paused h"
  using assms by (auto simp: tray_step_def pause_def resume_def split: tray_event.splits if_splits)

lemma gate_effect:
  assumes "live_step v ou dm ev s = Some t"
  shows "(\<exists>c. ev = OnClick c \<and> tray_step c (lv_tray s) = Some (lv_tray t)) \<or> (\<exists>w. ev = OnFile w \<and> reload_live v w s = Some t)
     \<or> tray_gate (lv_tray t) = tray_gate (lv_tray s)"
  using assms by (cases ev) (auto simp: live_step_def live_steps Let_def split: option.splits prod.splits if_splits list.splits)

lemma checked_effect:
  assumes "live_step v ou dm ev s = Some t" "lv_checked t i = Some x"
  shows "lv_checked s i = Some x \<or> ev = OnCheck i (snd x) \<and> tray_gate (lv_tray s) = Some (fst x)"
  using assms
  by (cases ev) (auto simp: live_step_def live_steps Let_def split: option.splits prod.splits if_splits list.splits)

lemma gates_keep:
  assumes "live_step v ou dm ev s = Some t" "gates_ok v s" shows "gates_ok v t"
proof -
  obtain g where g: "tray_gate (lv_tray s) = Some g" "protects (v_um v) (gate_blocklist g)" using assms(2) by (auto simp: gates_ok_def)
  have "protects (v_um v) (gate_blocklist h)" if "lv_checked t i = Some (h, w)" for i h w
    using checked_effect [OF assms(1) that] assms(2) g by (auto simp: gates_ok_def)
  moreover have "\<exists>h. tray_gate (lv_tray t) = Some h \<and> protects (v_um v) (gate_blocklist h)"
    using gate_effect [OF assms(1)]
  proof (elim disjE exE conjE)
    fix c assume "tray_step c (lv_tray s) = Some (lv_tray t)"
    then show ?thesis using tray_step_gate(1) g by metis
  next
    fix w assume "reload_live v w s = Some t"
    then obtain bl where "watch_step (v_um v) (v_regexps v) (v_yaml v) (blocklist_path v) w (gate_blocklist g) = Some bl"
      "tray_gate (lv_tray t) = Some (g\<lparr>gate_blocklist := bl\<rparr>)" using g(1) by (auto simp: reload_live_def)
    then show ?thesis using bl.reload_invar [OF g(2)] by auto
  qed (use g in simp)
  ultimately show ?thesis unfolding gates_ok_def by blast
qed

lemma try_pop_contents:
  assumes "queue_inv q" "try_pop q = Some (f, r)"
  shows "queue_inv r" "\<exists>x. f = Some x \<and> contents q = x # contents r"
proof -
  have "q_count q > 0" using assms(2) by (auto simp: try_pop_def split: if_splits)
  with try_pop_ok [OF assms(1)] assms(2) have r: "f = Some (hd (contents q))" "queue_inv r" "contents r = tl (contents q)"
    by auto
  moreover have "contents q \<noteq> []" using \<open>q_count q > 0\<close> length_contents [of q] by fastforce
  ultimately show "queue_inv r" "\<exists>x. f = Some x \<and> contents q = x # contents r" by auto
qed

lemma push_contents:
  assumes "queue_inv q" "push f q = Some r"
  shows "queue_inv r" "set (contents r) \<subseteq> insert f (set (contents q))" "length (contents r) \<le> Suc (length (contents q))"
proof -
  have "set (tl xs) \<subseteq> set xs" for xs :: "'a list" by (cases xs) auto
  then show "queue_inv r" "set (contents r) \<subseteq> insert f (set (contents q))" "length (contents r) \<le> Suc (length (contents q))"
    using push_ok [OF assms(1), of f] assms(2) by auto
qed


lemma sent_effect:
  assumes "live_step v ou dm ev s = Some t"
  shows "lv_sent t = lv_sent s \<or> (\<exists>i e f g w ml d. ev = OnTick i e \<and> lv_checked s i = Some (g, w)
     \<and> lv_sent t = lv_sent s @ [(f, g, w)]
     \<and> capture_tick (cfg_capture (dm_cfg dm)) (o_hdist ou) (e\<lparr>te_gate := check_windows (v_um v) g w\<rparr>)
         (Option.is_none (lv_chan s)) (lv_loops s ! i) (lv_dxgi s) = Some (ml, d, Some f))"
  using assms by (cases ev) (auto simp: live_step_def live_steps Let_def split: option.splits prod.splits if_splits list.splits)

lemma shots_effect:
  assumes "live_step v ou dm ev s = Some t"
  shows "lv_shots t = lv_shots s \<or> (\<exists>i e f g w. ev = OnTick i e \<and> lv_checked s i = Some (g, w)
     \<and> lv_shots t = lv_shots s @ [(f, g, w)] \<and> \<not> gr_blocked (check_windows (v_um v) g w))"
proof (cases "\<exists>i e. ev = OnTick i e")
  case True
  then obtain i e where ev: "ev = OnTick i e" by blast
  then obtain g w where c: "lv_checked s i = Some (g, w)"
    using assms by (auto simp: live_step_def tick_step_def split: option.splits)
  let ?e = "e\<lparr>te_gate := check_windows (v_um v) g w\<rparr>"
  have n: "lv_shots t = lv_shots s @ (case tick_shot (cfg_capture (dm_cfg dm)) ?e (lv_loops s ! i) (lv_dxgi s) of
      None \<Rightarrow> [] | Some f \<Rightarrow> [(f, g, w)])"
    using assms ev c by (auto simp: live_step_def tick_step_def Let_def split: option.splits prod.splits)
  show ?thesis
  proof (cases "tick_shot (cfg_capture (dm_cfg dm)) ?e (lv_loops s ! i) (lv_dxgi s)")
    case (Some f)
    then show ?thesis using n ev c tick_shot_unblocked [OF Some] by auto
  qed (use n in simp)
next
  case False
  then have "lv_shots t = lv_shots s" using assms
    by (cases ev) (auto simp: live_step_def live_steps Let_def split: option.splits prod.splits if_splits list.splits)
  then show ?thesis ..
qed

lemma way_effect:
  assumes "live_step v ou dm ev s = Some t" "queue_inv (lv_queue s)"
  shows "queue_inv (lv_queue t)" "on_the_way t \<subseteq> on_the_way s \<union> fst ` set (lv_sent t)"
proof -
  have "queue_inv (lv_queue t) \<and> on_the_way t \<subseteq> on_the_way s \<union> fst ` set (lv_sent t)"
  proof (cases ev)
    case OnPush
    then obtain f where p: "lv_bridge s = Some f" "push f (lv_queue s) = Some (lv_queue t)" "lv_chan t = lv_chan s"
      "lv_bridge t = None" "lv_popped t = lv_popped s"
      using assms(1) by (auto simp: live_step_def push_step_def split: option.splits)
    show ?thesis using p push_contents [OF assms(2) p(2)] by (auto simp: on_the_way_def)
  next
    case OnPop
    then show ?thesis using assms try_pop_contents [OF assms(2)]
      by (fastforce simp: live_step_def pop_step_def on_the_way_def split: option.splits if_splits)
  qed (use assms in \<open>auto simp: live_step_def live_steps on_the_way_def Let_def image_Un split: option.splits prod.splits if_splits list.splits\<close>)
  then show "queue_inv (lv_queue t)" "on_the_way t \<subseteq> on_the_way s \<union> fst ` set (lv_sent t)" by simp_all
qed

lemma held_back_simps [simp]:
  "d_um (held_back d) = d_um d" "d_math (held_back d) = d_math d" "d_cfg (held_back d) = d_cfg d" "qualifies (held_back d) = qualifies d"
  by (simp_all add: held_back_def qualifies_def fun_eq_iff)

lemma memories_effect:
  assumes "live_step v ou dm ev s = Some t" "node \<in> memories t"
  shows "node \<in> memories s \<or> (\<exists>f. lv_popped s = Some f \<and> qualifies (deps_of v ou dm) f node)"
proof (cases ev)
  case (OnDecide u)
  then obtain f x l n where d: "lv_popped s = Some f"
    "inference_turn (held_back (deps_of v ou dm)) (u\<lparr>tn_frame := Some f\<rparr>) (lv_loop s) = Some (x, l, n)"
    "lv_unwritten t = n" "lv_written t = lv_written s"
    using assms(1) by (auto simp: live_step_def decide_step_def Let_def split: option.splits if_splits)
  have "qualifies (deps_of v ou dm) f m" if "n = Some m" for m
    using turn_stores [OF d(2) [unfolded that]] by auto
  then show ?thesis using assms(2) d by (auto simp: memories_def)
qed (use assms in \<open>auto simp: live_step_def live_steps memories_def Let_def split: option.splits prod.splits if_splits list.splits\<close>)

lemma frames_keep:
  assumes t: "live_step v ou dm ev s = Some t" and g: "gates_ok v s" and f: "frames_ok v ou dm s"
  shows "frames_ok v ou dm t"
proof -
  have "set (lv_sent s) \<subseteq> set (lv_sent t) \<and> (\<forall>x\<in>set (lv_sent t). shot_ok v ou dm x)"
    using sent_effect [OF t]
  proof (elim disjE exE conjE)
    fix i e h x w ml d
    assume c: "lv_checked s i = Some (h, w)" and n: "lv_sent t = lv_sent s @ [(x, h, w)]"
      and k: "capture_tick (cfg_capture (dm_cfg dm)) (o_hdist ou) (e\<lparr>te_gate := check_windows (v_um v) h w\<rparr>)
         (Option.is_none (lv_chan s)) (lv_loops s ! i) (lv_dxgi s) = Some (ml, d, Some x)"
    have "protects (v_um v) (gate_blocklist h)" using c g unfolding gates_ok_def by blast
    moreover have "te_gate (e\<lparr>te_gate := check_windows (v_um v) h w\<rparr>) = check_windows (v_um v) h w" by simp
    ultimately have "shot_ok v ou dm (x, h, w)" using k unfolding shot_ok_def by blast
    then show ?thesis using f n by (auto simp: frames_ok_def)
  qed (use f in \<open>simp add: frames_ok_def\<close>)
  then have shots: "set (lv_sent s) \<subseteq> set (lv_sent t)" "\<forall>x\<in>set (lv_sent t). shot_ok v ou dm x" by simp_all
  have seen: "fst ` set (lv_sent s) \<subseteq> fst ` set (lv_sent t)" using shots(1) by (rule image_mono)
  have q: "queue_inv (lv_queue s)" "on_the_way s \<subseteq> fst ` set (lv_sent s)" using f by (simp_all add: frames_ok_def)
  have way: "on_the_way t \<subseteq> fst ` set (lv_sent t)"
    using way_effect(2) [OF t q(1)] q(2) seen by blast
  have popped: "x \<in> fst ` set (lv_sent t)" if "lv_popped s = Some x" for x
    using q(2) seen that unfolding on_the_way_def by auto
  have "\<exists>x\<in>fst ` set (lv_sent t). qualifies (deps_of v ou dm) x node" if "node \<in> memories t" for node
    using memories_effect [OF t that]
  proof
    assume "node \<in> memories s"
    then show ?thesis using f seen unfolding frames_ok_def by blast
  qed (use popped in blast)
  then show ?thesis using shots(2) way way_effect(1) [OF t q(1)] by (simp add: frames_ok_def)
qed

lemma sizes_keep:
  assumes "live_step v ou dm ev s = Some t" "queue_inv (lv_queue s)"
  shows "q_cap (lv_queue t) = q_cap (lv_queue s)" "length (lv_loops t) = length (lv_loops s)"
proof -
  have "q_cap q = q_cap r" if "queue_inv r" "push f r = Some q" for f and q r :: "int frame queue"
    using push_ok [OF that(1), of f] that(2) by auto
  moreover have "q_cap q = q_cap r" if "queue_inv r" "try_pop r = Some (f, q)" for f and q r :: "int frame queue"
  proof -
    have "q_count r > 0" using that(2) by (auto simp: try_pop_def split: if_splits)
    with try_pop_ok [OF that(1)] that(2) show ?thesis by auto
  qed
  ultimately show "q_cap (lv_queue t) = q_cap (lv_queue s)" "length (lv_loops t) = length (lv_loops s)"
    using assms
    by (cases ev; auto simp: live_step_def live_steps Let_def split: option.splits prod.splits if_splits list.splits)+
qed

lemma range_keeps:
  assumes "live_step v ou dm ev s = Some t" "queue_inv (lv_queue s)"
    and "\<forall>i x. lv_checked s i = Some x \<longrightarrow> i < length (lv_loops s)" "lv_checked t i = Some x"
  shows "i < length (lv_loops t)"
  using checked_effect [OF assms(1,4)]
proof
  assume "ev = OnCheck i (snd x) \<and> tray_gate (lv_tray s) = Some (fst x)"
  then show ?thesis using assms(1) by (auto simp: live_step_def check_step_def split: if_splits option.splits)
qed (use assms(3) sizes_keep(2) [OF assms(1,2)] in simp)

lemma live_keep:
  assumes "live_step v ou dm ev s = Some t" "live_inv v ou dm s" shows "live_inv v ou dm t"
proof -
  have s: "gates_ok v s" "frames_ok v ou dm s" "q_cap (lv_queue s) = q_cap (dm_queue dm)"
    "\<forall>i x. lv_checked s i = Some x \<longrightarrow> i < length (lv_loops s)" using assms(2) by (simp_all add: live_inv_def)
  have q: "queue_inv (lv_queue s)" using s(2) by (simp add: frames_ok_def)
  show ?thesis
    using gates_keep [OF assms(1) s(1)] frames_keep [OF assms(1) s(1,2)] sizes_keep(1) [OF assms(1) q] s(3)
      range_keeps [OF assms(1) q s(4)] by (simp add: live_inv_def)
qed

interpretation live: invariant_machine "live_step v ou dm" "live_run v ou dm" "live_inv v ou dm" for v ou dm
  by unfold_locales (auto intro: live_keep)

lemma live_start_inv:
  assumes "run v b = (Running dm, b')"
  shows "live_inv v ou dm (live_start dm tr loops dxgi)"
proof -
  note dm = running_gate_protects [OF assms]
  have "queue_inv (dm_queue dm)" "contents (dm_queue dm) = []" using new_queue_inv [OF _ dm(2)] dm(3) by auto
  then show ?thesis
    using dm(1) by (simp add: live_inv_def live_start_def gates_ok_def frames_ok_def on_the_way_def memories_def)
qed

section \<open>Where a screenshot comes from\<close>

text \<open>A shot was taken by a tick whose check came before it, under the gate in force at the check.\<close>

definition checked_at :: "env \<Rightarrow> outside \<Rightarrow> daemon \<Rightarrow> live_event list \<Rightarrow> live \<Rightarrow> nat \<Rightarrow> gate \<Rightarrow> windows_desktop \<Rightarrow> bool" where
  "checked_at v ou dm es s i g w \<longleftrightarrow>
     (\<exists>es1 es2 u. es = es1 @ OnCheck i w # es2 \<and> live_run v ou dm es1 s = Some u \<and> tray_gate (lv_tray u) = Some g)"

lemma checked_at_later: "checked_at v ou dm es s i g w \<Longrightarrow> checked_at v ou dm (es @ fs) s i g w"
  unfolding checked_at_def by fastforce

lemma checks_recorded:
  assumes "live_run v ou dm es s = Some t" "lv_checked s = (\<lambda>_. None)" "lv_sent s = []"
  shows "\<forall>i g w. lv_checked t i = Some (g, w) \<longrightarrow> checked_at v ou dm es s i g w"
    and "\<forall>x\<in>set (lv_sent t). \<exists>i. checked_at v ou dm es s i (fst (snd x)) (snd (snd x))"
proof -
  have "(\<forall>i g w. lv_checked t i = Some (g, w) \<longrightarrow> checked_at v ou dm es s i g w)
      \<and> (\<forall>x\<in>set (lv_sent t). \<exists>i. checked_at v ou dm es s i (fst (snd x)) (snd (snd x)))"
    using assms(1)
  proof (induction rule: live.runs_trace)
    case (event es u ev t)
    have c: "checked_at v ou dm (es @ [ev]) s i g w" if "lv_checked t i = Some (g, w)" for i g w
      using checked_effect [OF event(2) that]
    proof
      assume "lv_checked u i = Some (g, w)"
      then show ?thesis using event(3) checked_at_later by blast
    next
      assume "ev = OnCheck i (snd (g, w)) \<and> tray_gate (lv_tray u) = Some (fst (g, w))"
      then show ?thesis using event(1) by (auto simp: checked_at_def)
    qed
    moreover have "\<exists>i. checked_at v ou dm (es @ [ev]) s i (fst (snd x)) (snd (snd x))" if "x \<in> set (lv_sent t)" for x
      using sent_effect [OF event(2)] that event(3) checked_at_later by fastforce
    ultimately show ?case by blast
  qed (simp add: assms)
  then show "\<forall>i g w. lv_checked t i = Some (g, w) \<longrightarrow> checked_at v ou dm es s i g w"
    "\<forall>x\<in>set (lv_sent t). \<exists>i. checked_at v ou dm es s i (fst (snd x)) (snd (snd x))" by simp_all
qed


section \<open>What the store holds\<close>

lemma held_back_write: "snd (store_write l e (d_conn (held_back d)) rnd node s) = s"
  by (auto simp: store_write_def held_back_def Let_def split: option.split sum.split)

lemma decide_keeps_store:
  assumes "inference_turn (held_back d) t s = Some (x, l, n)" shows "ls_store l = ls_store s"
proof (cases n)
  case None
  then show ?thesis using turn_keeps_store assms by blast
next
  case (Some node)
  then have "ls_store l = snd (store_write (d_lib (held_back d)) (d_enc (held_back d)) (d_conn (held_back d)) (tn_seal t) node (ls_store s))"
    using turn_stores assms by metis
  then show ?thesis by (simp only: held_back_write)
qed

lemma record_memory_held_back:
  assumes "record_memory (held_back d) t f r s = (x, l, n)"
  shows "record_memory d t f r s = (x, (case n of None \<Rightarrow> l
     | Some node \<Rightarrow> l\<lparr>ls_store := snd (store_write (d_lib d) (d_enc d) (d_conn d) (tn_seal t) node (ls_store l))\<rparr>), n)"
proof -
  have same: "search_panics (held_back d) = search_panics d" "coherent (held_back d) = coherent d"
    "d_dec (held_back d) = d_dec d" "d_net (held_back d) = d_net d" "d_resolve (held_back d) = d_resolve d"
    by (auto simp: search_panics_def coherent_def held_back_def fun_eq_iff split: sum.split)
  show ?thesis
    using assms unfolding record_memory_def Let_def same held_back_simps held_back_write
    by (auto split: if_splits prod.splits option.splits)
qed

text \<open>Deciding and writing, with nothing in between, is the turn of the inference loop.\<close>

lemma turn_held_back:
  assumes "inference_turn (held_back d) t s = Some (x, l, n)"
  shows "inference_turn d t s = Some (x, (case n of None \<Rightarrow> l
     | Some node \<Rightarrow> l\<lparr>ls_store := snd (store_write (d_lib d) (d_enc d) (d_conn d) (tn_seal t) node (ls_store l))\<rparr>), n)"
proof -
  have same: "skipped (held_back d) = skipped d" "d_jpeg (held_back d) = d_jpeg d"
    "d_dec (held_back d) = d_dec d" "d_net (held_back d) = d_net d" "d_resolve (held_back d) = d_resolve d"
    by (simp_all add: skipped_def held_back_def fun_eq_iff)
  show ?thesis
    using assms unfolding inference_turn_def Let_def same held_back_simps
    by (auto dest: record_memory_held_back split: option.splits prod.splits sum.splits bool.splits if_splits)
qed

text \<open>A request leaves every record as it is or removes it.\<close>

lemma serve_records:
  assumes "lib_ok l" "json_wf l e s" "a_conn d = json_conn l e ord"
    and "serve d sv gone1 gone2 now r (sent, s) = (rep, sent', t)"
  shows "json_wf l e t \<and> json_records l e t \<subseteq>\<^sub>m json_records l e s"
proof (cases "t = s")
  case False
  have h: "healthy_fs (js_fs s)" using assms(2) by (simp add: json_wf_def Let_def)
  have a: "authorised_delete sv (Arrives gone1 gone2 now r)" by (rule change_is_authorised [OF h assms(3,4) False])
  then obtain start where start: "delete_after d now (in_query r ''range'') = Some start"
    by (auto simp: authorised_delete_def delete_after_def)
  have wf: "lib_ok l \<and> json_wf l e s" using assms(1,2) by simp
  obtain u n where u: "delete_range (json_conn l e ord) start (now + 1000000000) s = ((n, None), u)"
    "lib_ok l \<and> json_wf l e u" "\<exists>hit. json_records l e u = json_records l e s |` hit"
    using json.delete_range_law [OF wf, of ord start "now + 1000000000"] by blast
  have "t = u"
    using assms(3,4) a start u(1) by (simp add: serve_def handle_delete_def authorised_delete_def)
  then show ?thesis using u(2,3) by (auto simp: map_le_def restrict_map_def split: if_splits)
qed (use assms(2) in simp)


text \<open>
  The records of the store are the first ones or memories written since; the records the sweep
  has listed have identifiers of 16 bytes.
\<close>

definition store_ok :: "env \<Rightarrow> daemon \<Rightarrow> live \<Rightarrow> bool" where
  "store_ok v dm s \<longleftrightarrow> json_wf (v_lib v) (dm_encryptor dm) (ls_store (lv_loop s)) \<and> (\<forall>i\<in>set (lv_expired s). length i = 16)
     \<and> (\<forall>i ts p. json_records (v_lib v) (dm_encryptor dm) (ls_store (lv_loop s)) i = Some (ts, p) \<longrightarrow>
          json_records (v_lib v) (dm_encryptor dm) (dm_store dm) i = Some (ts, p)
          \<or> (\<exists>node\<in>set (lv_written s). mn_id node = i \<and> mn_captured_at node = ts
               \<and> decode_record (v_lib v) (dm_encryptor dm) i (p, ts) = Inr (node\<lparr>schema_version := current_schema_version\<rparr>)))"

text \<open>What is asked of the memories of a run: they can be encoded, and their random identifiers are new.\<close>

definition ids_fresh :: "env \<Rightarrow> daemon \<Rightarrow> memory_node list \<Rightarrow> bool" where
  "ids_fresh v dm nodes \<longleftrightarrow> list_all node_safe nodes \<and> distinct (map mn_id nodes)
     \<and> (\<forall>node\<in>set nodes. json_records (v_lib v) (dm_encryptor dm) (dm_store dm) (mn_id node) = None)"

lemma store_ok_shrinks:
  assumes "store_ok v dm s" "json_wf (v_lib v) (dm_encryptor dm) (ls_store (lv_loop t))"
    and "json_records (v_lib v) (dm_encryptor dm) (ls_store (lv_loop t))
           \<subseteq>\<^sub>m json_records (v_lib v) (dm_encryptor dm) (ls_store (lv_loop s))"
    and "\<forall>i\<in>set (lv_expired t). length i = 16" "lv_written t = lv_written s"
  shows "store_ok v dm t"
proof -
  have "json_records (v_lib v) (dm_encryptor dm) (ls_store (lv_loop s)) i = Some x"
    if "json_records (v_lib v) (dm_encryptor dm) (ls_store (lv_loop t)) i = Some x" for i x
    using assms(3) that by (metis domI map_le_def)
  then show ?thesis using assms by (auto simp: store_ok_def)
qed

lemma store_effect:
  assumes "live_step v ou dm ev s = Some t"
  obtains (same) "ls_store (lv_loop t) = ls_store (lv_loop s)" "lv_expired t = lv_expired s" "lv_written t = lv_written s"
  | (writes) rnd node where "ev = OnWrite rnd" "lv_written t = lv_written s @ [node]" "lv_expired t = lv_expired s"
      "ls_store (lv_loop t) = snd (store_write (v_lib v) (dm_encryptor dm) (store_of v ou dm) rnd node (ls_store (lv_loop s)))"
  | (request) gone1 gone2 now r rep sent where "lv_expired t = lv_expired s" "lv_written t = lv_written s"
      "serve (api_of v ou dm) (dm_server dm) gone1 gone2 now r (ls_sent (lv_loop s), ls_store (lv_loop s))
         = (rep, sent, ls_store (lv_loop t))"
  | (sweep) cutoff x where "lv_written t = lv_written s" "lv_expired t = (case x of Inl _ \<Rightarrow> [] | Inr ids \<Rightarrow> ids)"
      "c_older (store_of v ou dm) cutoff (ls_store (lv_loop s)) = (x, ls_store (lv_loop t))"
  | (expire) i where "lv_written t = lv_written s" "lv_expired s = i # lv_expired t"
      "ls_store (lv_loop t) = snd (store_delete (store_of v ou dm) i (ls_store (lv_loop s)))"
proof (cases ev)
  case (OnDecide u)
  then show thesis
    using assms same
    by (auto simp: live_step_def decide_step_def Let_def dest!: decide_keeps_store split: option.splits prod.splits if_splits)
next
  case (OnRequest gone1 gone2 now r)
  then show thesis
    using assms request by (auto simp: live_step_def request_step_def split: prod.splits if_splits)
next
  case (OnSweep now)
  then show thesis
    using assms sweep by (auto simp: live_step_def sweep_step_def split: prod.splits if_splits)
next
  case OnExpire
  then show thesis
    using assms expire by (auto simp: live_step_def expire_step_def split: prod.splits list.splits)
next
  case (OnWrite rnd)
  then show thesis
    using assms writes by (auto simp: live_step_def write_step_def split: prod.splits option.splits)
qed (use assms same in \<open>auto simp: live_step_def live_steps Let_def split: option.splits prod.splits if_splits\<close>)

lemma ids_fresh_snoc:
  "ids_fresh v dm (nodes @ [node]) \<Longrightarrow> ids_fresh v dm nodes \<and> node_safe node \<and> mn_id node \<notin> mn_id ` set nodes
     \<and> json_records (v_lib v) (dm_encryptor dm) (dm_store dm) (mn_id node) = None"
  by (auto simp: ids_fresh_def)


lemma store_keeps:
  assumes t: "live_step v ou dm ev s = Some t" and s: "store_ok v dm s"
    and lib: "lib_ok (v_lib v)" and new: "ids_fresh v dm (lv_written t)"
    and nonce: "\<forall>x. ev = OnWrite (Inr x) \<longrightarrow> length x = 12"
  shows "store_ok v dm t"
proof -
  let ?l = "v_lib v" and ?e = "dm_encryptor dm" and ?st = "ls_store (lv_loop s)" and ?u = "ls_store (lv_loop t)"
  have wf: "lib_ok ?l \<and> json_wf ?l ?e ?st" and ids: "\<forall>i\<in>set (lv_expired s). length i = 16"
    using s lib by (simp_all add: store_ok_def)
  show ?thesis
    using t
  proof (cases rule: store_effect)
    case same
    then show ?thesis using s by (simp add: store_ok_def)
  next
    case (request gone1 gone2 now r rep sent)
    have "a_conn (api_of v ou dm) = json_conn ?l ?e (o_order ou)" by (simp add: api_of_def store_of_def)
    from serve_records [OF lib _ this request(3)] wf show ?thesis
      using store_ok_shrinks [OF s] request(1,2) ids by simp
  next
    case (sweep cutoff x)
    obtain found where f: "c_older (store_of v ou dm) cutoff ?st = (Inr found, ?st)"
      "set found = {i. \<exists>ts p. json_records ?l ?e ?st i = Some (ts, p) \<and> ts < cutoff}"
      using json.older_law [OF wf, of "o_order ou" cutoff] unfolding store_of_def by blast
    have "\<forall>i\<in>set found. length i = 16" using f(2) json.key_law [OF wf] by blast
    then show ?thesis using store_ok_shrinks [OF s] wf f(1) sweep by simp
  next
    case (expire i)
    have "length i = 16" using ids expire(2) by simp
    from json.store_delete_law [OF wf this, of "o_order ou"] obtain w where
      "store_delete (store_of v ou dm) i ?st = (None, w)" "json_wf ?l ?e w" "json_records ?l ?e w = (json_records ?l ?e ?st)(i := None)"
      by (auto simp: store_of_def)
    then show ?thesis using store_ok_shrinks [OF s] expire ids by (auto simp: map_le_def)
  next
    case (writes rnd node)
    note n = ids_fresh_snoc [OF new [unfolded writes(2)]]
    show ?thesis
    proof (cases rnd)
      case (Inl err)
      then have "?u = ?st" using writes(4) by (auto simp: store_write_def seal_def Let_def split: option.splits)
      then show ?thesis using s writes(2,3) by (auto simp: store_ok_def)
    next
      case (Inr x)
      have none: "json_records ?l ?e ?st (mn_id node) = None"
      proof (rule ccontr)
        assume "json_records ?l ?e ?st (mn_id node) \<noteq> None"
        then obtain ts p where "json_records ?l ?e ?st (mn_id node) = Some (ts, p)" by auto
        then show False using s n unfolding store_ok_def by (metis imageI option.distinct(1))
      qed
      obtain w d where w: "store_write ?l ?e (store_of v ou dm) (Inr x) node ?st = (None, w)" "json_wf ?l ?e w"
        "json_records ?l ?e w = (json_records ?l ?e ?st)(mn_id node \<mapsto> (mn_captured_at node, d))"
        "decode_record ?l ?e (mn_id node) (d, mn_captured_at node) = Inr (node\<lparr>schema_version := current_schema_version\<rparr>)"
        using json.store_write_law [OF lib wf _ none, of x ?e "o_order ou"] n nonce writes(1) Inr by (auto simp: store_of_def)
      then have u: "?u = w" using writes(4) Inr by simp
      have "json_records ?l ?e (dm_store dm) i = Some (ts, p) \<or> (\<exists>m\<in>set (lv_written t). mn_id m = i \<and> mn_captured_at m = ts
          \<and> decode_record ?l ?e i (p, ts) = Inr (m\<lparr>schema_version := current_schema_version\<rparr>))"
        if "json_records ?l ?e w i = Some (ts, p)" for i ts p
      proof (cases "i = mn_id node")
        case True
        then show ?thesis using that w(3,4) writes(2) by auto
      next
        case False
        then show ?thesis using that w(3) s writes(2) by (auto simp: store_ok_def)
      qed
      then show ?thesis using w(2) u ids writes(3) by (simp add: store_ok_def)
    qed
  qed
qed

lemma written_grows: "live_step v ou dm ev s = Some t \<Longrightarrow> \<exists>rest. lv_written t = lv_written s @ rest"
  by (erule store_effect) auto

lemma ids_fresh_prefix: "ids_fresh v dm (nodes @ rest) \<Longrightarrow> ids_fresh v dm nodes"
  by (auto simp: ids_fresh_def)

lemma store_runs:
  assumes "live_run v ou dm es s = Some t" "store_ok v dm s" "lib_ok (v_lib v)"
    and "ids_fresh v dm (lv_written t)" "\<forall>x. OnWrite (Inr x) \<in> set es \<longrightarrow> length x = 12"
  shows "store_ok v dm t"
proof -
  have "ids_fresh v dm (lv_written t) \<and> (\<forall>x. OnWrite (Inr x) \<in> set es \<longrightarrow> length x = 12) \<longrightarrow> store_ok v dm t"
    using assms(1)
  proof (induction rule: live.runs_trace)
    case (event es u ev t)
    obtain rest where "lv_written t = lv_written u @ rest" using written_grows [OF event(2)] by blast
    then show ?case
      using event(3) ids_fresh_prefix [of v dm "lv_written u" rest] store_keeps [OF event(2) _ assms(3)] by auto
  qed (use assms(2) in simp)
  then show ?thesis using assms(4,5) by simp
qed


section \<open>What a pause leaves in flight\<close>

text \<open>
  The screenshots that passed the gate and are still to be taken, and the frames and memories on
  their way to the store.
\<close>

definition open_checks :: "live \<Rightarrow> nat set" where
  "open_checks s = {i. i < length (lv_loops s) \<and> (\<exists>g w. lv_checked s i = Some (g, w) \<and> \<not> paused g)}"

definition in_flight :: "live \<Rightarrow> nat" where
  "in_flight s = card (open_checks s) + card (set_option (lv_chan s)) + card (set_option (lv_bridge s))
     + length (contents (lv_queue s)) + card (set_option (lv_popped s)) + card (set_option (lv_unwritten s))"

lemma finite_open_checks [simp]: "finite (open_checks s)"
  by (simp add: open_checks_def)

lemma card_set_option: "card (set_option x) \<le> 1"
  by (cases x) simp_all

lemma in_flight_bound:
  assumes "live_inv v ou dm s"
  shows "in_flight s \<le> length (lv_loops s) + q_cap (dm_queue dm) + 4"
proof -
  have "card (open_checks s) \<le> card {..<length (lv_loops s)}" by (rule card_mono) (auto simp: open_checks_def)
  moreover have "length (contents (lv_queue s)) \<le> q_cap (dm_queue dm)"
    using assms rb.within [of "lv_queue s"] by (simp add: live_inv_def frames_ok_def)
  ultimately show ?thesis
    using card_set_option [of "lv_chan s"] card_set_option [of "lv_bridge s"] card_set_option [of "lv_popped s"]
      card_set_option [of "lv_unwritten s"] by (simp add: in_flight_def)
qed

lemma tick_unblocked:
  assumes "capture_tick c hdist (e\<lparr>te_gate := check_windows um g w\<rparr>) room ml dxgi = Some (ml2, d2, Some f)"
  shows "\<not> gr_blocked (check_windows um g w)"
proof -
  obtain m1 m3 where "capture_frame (e\<lparr>te_gate := check_windows um g w\<rparr>) m1 dxgi = Some (m3, d2, Inr (Some f))"
    using capture_tick_frame [OF assms] by blast
  then show ?thesis using capture_frame_ok by fastforce
qed

lemma tick_unpaused:
  assumes "capture_tick c hdist (e\<lparr>te_gate := check_windows um g w\<rparr>) room ml dxgi = Some (ml2, d2, Some f)"
  shows "\<not> paused g" "room"
proof -
  have "\<not> gr_blocked (check_windows um g w)" using assms by (rule tick_unblocked)
  then show "\<not> paused g" by (auto simp: check_windows_def check_gate_def gate_check_pass_iff)
  show room using assms by (auto simp: capture_tick_def Let_def split: option.splits sum.splits if_splits)
qed

lemma unblocked_unpaused: "\<not> gr_blocked (check_windows um g w) \<Longrightarrow> \<not> paused g"
  by (auto simp: check_windows_def check_gate_def gate_check_pass_iff)

lemma pause_stays:
  assumes "live_step v ou dm ev s = Some t" "tray_gate (lv_tray s) = Some g" "paused g" "ev \<noteq> OnClick ClickResume"
  shows "\<exists>h. tray_gate (lv_tray t) = Some h \<and> paused h"
  using gate_effect [OF assms(1)] tray_step_gate(2) [OF _ assms(2,3)] assms(2-4)
  by (auto simp: reload_live_def)

lemma open_checks_shrink:
  assumes "live_step v ou dm ev s = Some t" "queue_inv (lv_queue s)" "tray_gate (lv_tray s) = Some g" "paused g"
  shows "open_checks t \<subseteq> open_checks s"
  using checked_effect [OF assms(1)] sizes_keep(2) [OF assms(1,2)] assms(3,4) by (fastforce simp: open_checks_def)

lemma in_flight_step:
  assumes t: "live_step v ou dm ev s = Some t" and inv: "live_inv v ou dm s"
    and g: "tray_gate (lv_tray s) = Some g" "paused g"
  shows "length (lv_written t) + in_flight t \<le> length (lv_written s) + in_flight s"
proof -
  have q: "queue_inv (lv_queue s)" and r: "\<forall>i x. lv_checked s i = Some x \<longrightarrow> i < length (lv_loops s)"
    using inv by (simp_all add: live_inv_def frames_ok_def)
  have oc: "card (open_checks t) \<le> card (open_checks s)" by (rule card_mono) (use open_checks_shrink [OF t q g] in auto)
  show ?thesis
  proof (cases ev)
    case (OnTick i e)
    then obtain h w ml d x where c: "lv_checked s i = Some (h, w)" "lv_checked t = (lv_checked s)(i := None)"
      "length (lv_loops t) = length (lv_loops s)" "lv_queue t = lv_queue s" "lv_bridge t = lv_bridge s"
      "lv_popped t = lv_popped s" "lv_unwritten t = lv_unwritten s" "lv_written t = lv_written s"
      and k: "capture_tick (cfg_capture (dm_cfg dm)) (o_hdist ou) (e\<lparr>te_gate := check_windows (v_um v) h w\<rparr>)
        (Option.is_none (lv_chan s)) (lv_loops s ! i) (lv_dxgi s) = Some (ml, d, x)"
      "lv_chan t = (case x of None \<Rightarrow> lv_chan s | Some f \<Rightarrow> Some f)"
      using t by (auto simp: live_step_def tick_step_def Let_def split: option.splits prod.splits)
    show ?thesis
    proof (cases x)
      case None
      then show ?thesis using oc c k by (simp add: in_flight_def)
    next
      case (Some f)
      note u = tick_unpaused [OF k(1) [unfolded Some]]
      have "open_checks t = open_checks s - {i}" "i \<in> open_checks s"
        using c(1-3) u(1) r by (auto simp: open_checks_def)
      then have "card (open_checks s) = Suc (card (open_checks t))"
        by (metis card.remove finite_open_checks)
      then show ?thesis using c k(2) u(2) Some by (simp add: in_flight_def Option.is_none_def)
    qed
  next
    case OnPush
    then obtain f where p: "lv_bridge s = Some f" "push f (lv_queue s) = Some (lv_queue t)" "lv_chan t = lv_chan s"
      "lv_bridge t = None" "lv_popped t = lv_popped s" "lv_unwritten t = lv_unwritten s" "lv_written t = lv_written s"
      using t by (auto simp: live_step_def push_step_def split: option.splits)
    then show ?thesis using oc push_contents(3) [OF q p(2)] by (simp add: in_flight_def)
  next
    case OnPop
    then have p: "try_pop (lv_queue s) = Some (lv_popped t, lv_queue t)" "lv_popped s = None" "lv_chan t = lv_chan s"
      "lv_bridge t = lv_bridge s" "lv_unwritten t = lv_unwritten s" "lv_written t = lv_written s"
      using t by (auto simp: live_step_def pop_step_def Option.is_none_def split: if_splits)
    obtain x where "lv_popped t = Some x" "contents (lv_queue s) = x # contents (lv_queue t)"
      using try_pop_contents(2) [OF q p(1)] by blast
    then show ?thesis using oc p by (simp add: in_flight_def del: length_contents)
  next
    case (OnDecide u)
    then obtain f where p: "lv_popped s = Some f" "lv_queue t = lv_queue s" "lv_popped t = None" "lv_chan t = lv_chan s"
      "lv_bridge t = lv_bridge s" "lv_written t = lv_written s"
      using t by (auto simp: live_step_def decide_step_def Let_def split: option.splits if_splits)
    then show ?thesis using oc card_set_option [of "lv_unwritten t"] by (simp add: in_flight_def)
  next
    case (OnCaptureEnd i)
    then show ?thesis using t oc by (auto simp: live_step_def capture_end_step_def in_flight_def split: if_splits prod.splits)
  qed (use t oc in \<open>auto simp: live_step_def live_steps in_flight_def Let_def
        split: option.splits prod.splits if_splits list.splits\<close>)
qed

lemma pause_run:
  assumes "live_run v ou dm es s = Some t" "live_inv v ou dm s" "tray_gate (lv_tray s) = Some g" "paused g"
    and "OnClick ClickResume \<notin> set es"
  shows "length (lv_written t) + in_flight t \<le> length (lv_written s) + in_flight s"
    and "\<exists>h. tray_gate (lv_tray t) = Some h \<and> paused h"
    and "\<forall>i g w. lv_checked t i = Some (g, w) \<and> \<not> paused g \<longrightarrow> lv_checked s i = Some (g, w)"
    and "\<exists>new. lv_shots t = lv_shots s @ new \<and> (\<forall>x\<in>set new. \<exists>i. lv_checked s i = Some (snd x))"
proof -
  let ?P = "\<lambda>t. live_inv v ou dm t \<and> length (lv_written t) + in_flight t \<le> length (lv_written s) + in_flight s
      \<and> (\<exists>h. tray_gate (lv_tray t) = Some h \<and> paused h)
      \<and> (\<forall>i g w. lv_checked t i = Some (g, w) \<and> \<not> paused g \<longrightarrow> lv_checked s i = Some (g, w))
      \<and> (\<exists>new. lv_shots t = lv_shots s @ new \<and> (\<forall>x\<in>set new. \<exists>i. lv_checked s i = Some (snd x)))"
  have "OnClick ClickResume \<notin> set es \<longrightarrow> ?P t"
    using assms(1)
  proof (induction rule: live.runs_trace)
    case (event es u ev t)
    show ?case
    proof
      assume r: "OnClick ClickResume \<notin> set (es @ [ev])"
      then have p: "?P u" using event(3) by simp
      then obtain h where h: "tray_gate (lv_tray u) = Some h" "paused h" by blast
      have inv: "live_inv v ou dm u" using p by blast
      have c: "lv_checked s i = Some (g, w)" if "lv_checked t i = Some (g, w)" "\<not> paused g" for i g w
        using checked_effect [OF event(2) that(1)] h that(2) p by auto
      obtain new where new: "lv_shots u = lv_shots s @ new" "\<forall>x\<in>set new. \<exists>i. lv_checked s i = Some (snd x)" using p by blast
      have n: "\<exists>new. lv_shots t = lv_shots s @ new \<and> (\<forall>x\<in>set new. \<exists>i. lv_checked s i = Some (snd x))"
        using shots_effect [OF event(2)]
      proof (elim disjE exE conjE)
        fix i e f g w
        assume k: "lv_checked u i = Some (g, w)" "lv_shots t = lv_shots u @ [(f, g, w)]"
          "\<not> gr_blocked (check_windows (v_um v) g w)"
        have "lv_checked s i = Some (g, w)" using unblocked_unpaused [OF k(3)] k(1) p by blast
        then show ?thesis using k(2) new by (intro exI [of _ "new @ [(f, g, w)]"]) auto
      qed (use new in auto)
      have "live_inv v ou dm t" "\<exists>h. tray_gate (lv_tray t) = Some h \<and> paused h"
        using live_keep [OF event(2) inv] pause_stays [OF event(2) h] r by auto
      then show "?P t" using in_flight_step [OF event(2) inv h] p c n by auto
    qed
  qed (use assms in simp)
  then show "length (lv_written t) + in_flight t \<le> length (lv_written s) + in_flight s"
    "\<exists>h. tray_gate (lv_tray t) = Some h \<and> paused h"
    "\<forall>i g w. lv_checked t i = Some (g, w) \<and> \<not> paused g \<longrightarrow> lv_checked s i = Some (g, w)"
    "\<exists>new. lv_shots t = lv_shots s @ new \<and> (\<forall>x\<in>set new. \<exists>i. lv_checked s i = Some (snd x))"
    using assms(5) by simp_all
qed


section \<open>What the callbacks allow\<close>

text \<open>The checks in progress that used a callback.\<close>

definition spent_checks :: "env \<Rightarrow> live \<Rightarrow> nat set" where
  "spent_checks v s =
     {i. i < length (lv_loops s) \<and> (\<exists>g w. lv_checked s i = Some (g, w) \<and> asks_background (v_um v) g w)}"

definition callbacks_ok :: "env \<Rightarrow> outside \<Rightarrow> live \<Rightarrow> bool" where
  "callbacks_ok v ou s \<longleftrightarrow>
     length (lv_shots s) + card (spent_checks v s) + package_callbacks \<le> lv_callbacks s
     \<and> lv_callbacks s \<le> max package_callbacks (o_callback_limit ou)"

lemma finite_spent_checks [simp]: "finite (spent_checks v s)"
  by (simp add: spent_checks_def)

lemma check_callbacks:
  assumes "check_step v ou i w s = Some t"
  obtains g where "tray_gate (lv_tray s) = Some g" "lv_shots t = lv_shots s" "spent_checks v t \<subseteq> insert i (spent_checks v s)"
    "asks_background (v_um v) g w \<Longrightarrow> lv_callbacks t = Suc (lv_callbacks s) \<and> lv_callbacks s < o_callback_limit ou"
    "\<not> asks_background (v_um v) g w \<Longrightarrow> lv_callbacks t = lv_callbacks s \<and> spent_checks v t \<subseteq> spent_checks v s"
proof -
  obtain g r n where g: "tray_gate (lv_tray s) = Some g"
    and n: "gate_check_windows (v_um v) (o_callback_limit ou) g w (lv_callbacks s) = Some (r, n)"
    and t: "t = s\<lparr>lv_checked := (lv_checked s)(i \<mapsto> (g, w)), lv_callbacks := n\<rparr>"
    using assms by (auto simp: check_step_def split: option.splits prod.splits if_splits)
  have "asks_background (v_um v) g w \<Longrightarrow> n = Suc (lv_callbacks s) \<and> lv_callbacks s < o_callback_limit ou"
    "\<not> asks_background (v_um v) g w \<Longrightarrow> n = lv_callbacks s"
    using n by (auto simp: gate_check_windows_eq new_callback_def split: if_splits)
  then show thesis by (intro that [OF g]) (auto simp: t spent_checks_def split: if_splits)
qed

lemma callbacks_keep:
  assumes t: "live_step v ou dm ev s = Some t" and k: "callbacks_ok v ou s" and inv: "live_inv v ou dm s"
  shows "callbacks_ok v ou t"
proof (cases "\<exists>i w. ev = OnCheck i w")
  case True
  then obtain i w where "check_step v ou i w s = Some t" using t by (auto simp: live_step_def)
  then show ?thesis
  proof (rule check_callbacks)
    fix g
    assume c: "lv_shots t = lv_shots s" "spent_checks v t \<subseteq> insert i (spent_checks v s)"
      "asks_background (v_um v) g w \<Longrightarrow> lv_callbacks t = Suc (lv_callbacks s) \<and> lv_callbacks s < o_callback_limit ou"
      "\<not> asks_background (v_um v) g w \<Longrightarrow> lv_callbacks t = lv_callbacks s \<and> spent_checks v t \<subseteq> spent_checks v s"
    have "card (spent_checks v t) \<le> card (insert i (spent_checks v s))" using c(2) by (intro card_mono) auto
    also have "\<dots> \<le> Suc (card (spent_checks v s))" by (simp add: card_insert_if)
    finally have a: "card (spent_checks v t) \<le> Suc (card (spent_checks v s))" .
    have b: "card (spent_checks v t) \<le> card (spent_checks v s)" if "\<not> asks_background (v_um v) g w"
      using c(4) [OF that] by (intro card_mono) auto
    show ?thesis
      using k a b c(1,3,4) by (cases "asks_background (v_um v) g w") (auto simp: callbacks_ok_def)
  qed
next
  case False
  have q: "queue_inv (lv_queue s)" and r: "\<forall>i x. lv_checked s i = Some x \<longrightarrow> i < length (lv_loops s)"
    using inv by (simp_all add: live_inv_def frames_ok_def)
  have sub: "spent_checks v t \<subseteq> spent_checks v s"
    using checked_effect [OF t] sizes_keep(2) [OF t q] False by (fastforce simp: spent_checks_def)
  have cb: "lv_callbacks t = lv_callbacks s"
    using t False by (cases ev) (auto simp: live_step_def live_steps Let_def split: option.splits prod.splits if_splits list.splits)
  have "length (lv_shots t) + card (spent_checks v t) \<le> length (lv_shots s) + card (spent_checks v s)"
    using shots_effect [OF t]
  proof (elim disjE exE conjE)
    fix i e f g w
    assume c: "ev = OnTick i e" "lv_checked s i = Some (g, w)" "lv_shots t = lv_shots s @ [(f, g, w)]"
      and u: "\<not> gr_blocked (check_windows (v_um v) g w)"
    have "i \<in> spent_checks v s"
      using c(2) r passing_asks_background [OF u] by (auto simp: spent_checks_def)
    moreover have "i \<notin> spent_checks v t"
      using t c(1) by (auto simp: live_step_def tick_step_def Let_def spent_checks_def split: option.splits prod.splits)
    ultimately have "card (spent_checks v t) < card (spent_checks v s)" using sub by (intro psubset_card_mono) auto
    then show ?thesis using c(3) by simp
  qed (use sub in \<open>simp add: card_mono\<close>)
  then show ?thesis using k cb by (simp add: callbacks_ok_def)
qed

lemma callbacks_run:
  assumes "live_run v ou dm es s = Some t" "callbacks_ok v ou s" "live_inv v ou dm s" shows "callbacks_ok v ou t"
proof -
  have "live_inv v ou dm t \<and> callbacks_ok v ou t"
    using assms(1) by (induction rule: live.runs_trace) (auto intro: assms(2,3) live_keep callbacks_keep)
  then show ?thesis by simp
qed

end
