(* ===== verification/Live_Run.thy ===== *)
theory Live_Run
  imports Live_Daemon
begin

text \<open>
  The properties of the running daemon: what it remembers, what its store holds, what a pause leaves
  in flight; and an example in which it starts, looks at a window, and remembers it.
\<close>

section \<open>An uninterrupted turn and an uninterrupted sweep\<close>

text \<open>
  When nothing comes between taking a frame, deciding and writing, the three events are the turn of
  \<open>runInferenceLoop\<close>, and a sweep followed by its deletions is \<open>Sweep\<close>.
\<close>

theorem uninterrupted_turn:
  assumes "live_run v ou dm [OnPop, OnDecide t, OnWrite (tn_seal t)] s = Some u"
  shows "\<exists>f node x. try_pop (lv_queue s) = Some (Some f, lv_queue u)
     \<and> inference_turn (deps_of v ou dm) (t\<lparr>tn_frame := Some f\<rparr>) (lv_loop s) = Some (x, lv_loop u, Some node)
     \<and> lv_written u = lv_written s @ [node]"
proof -
  obtain s1 s2 where r: "pop_step s = Some s1" "decide_step v ou dm t s1 = Some s2" "write_step v ou dm (tn_seal t) s2 = Some u"
    using assms by (auto simp: live_step_def bind_eq_Some_conv)
  obtain f where f: "lv_popped s1 = Some f" using r(2) by (auto simp: decide_step_def split: option.splits)
  have s1: "try_pop (lv_queue s) = Some (Some f, lv_queue s1)" "lv_loop s1 = lv_loop s" "lv_written s1 = lv_written s"
    using r(1) f by (auto simp: pop_step_def split: if_splits)
  obtain x l n where d: "inference_turn (held_back (deps_of v ou dm)) (t\<lparr>tn_frame := Some f\<rparr>) (lv_loop s) = Some (x, l, n)"
    "lv_loop s2 = l" "lv_unwritten s2 = n" "lv_queue s2 = lv_queue s1" "lv_written s2 = lv_written s"
    using r(2) f s1 by (auto simp: decide_step_def Let_def split: option.splits if_splits)
  obtain node where n: "n = Some node" using r(3) d(3) by (auto simp: write_step_def split: option.splits)
  have "lv_loop u = l\<lparr>ls_store := snd (store_write (v_lib v) (dm_encryptor dm) (store_of v ou dm) (tn_seal t) node (ls_store l))\<rparr>"
    "lv_queue u = lv_queue s1" "lv_written u = lv_written s @ [node]"
    using r(3) d n by (auto simp: write_step_def with_store_def split: prod.splits)
  then show ?thesis using turn_held_back [OF d(1)] s1(1) n by (auto simp: deps_of_def)
qed

lemma expire_all:
  "length ids = n \<Longrightarrow> lv_expired s = ids \<Longrightarrow> live_run v ou dm (replicate n OnExpire) s
     = Some (with_store (snd (delete_all (store_of v ou dm) ids (ls_store (lv_loop s)))) (s\<lparr>lv_expired := []\<rparr>))"
proof (induction n arbitrary: ids s)
  case 0
  then show ?case by (simp add: with_store_def)
next
  case (Suc n)
  then obtain i rest where i: "ids = i # rest" "length rest = n" by (auto simp: length_Suc_conv)
  obtain r st where d: "store_delete (store_of v ou dm) i (ls_store (lv_loop s)) = (r, st)" by fastforce
  have "snd (delete_all (store_of v ou dm) ids (ls_store (lv_loop s))) = snd (delete_all (store_of v ou dm) rest st)"
    using d i by (auto split: option.split prod.split)
  moreover have "live_step v ou dm OnExpire s = Some (with_store st (s\<lparr>lv_expired := rest\<rparr>))"
    using Suc.prems i d by (simp add: live_step_def expire_step_def)
  ultimately show ?case
    using Suc.IH [OF i(2), of "with_store st (s\<lparr>lv_expired := rest\<rparr>)"] by (simp add: with_store_def)
qed

theorem uninterrupted_sweep:
  assumes "lv_expired s = []"
  shows "\<exists>n. live_run v ou dm (OnSweep now # replicate n OnExpire) s
    = Some (with_store (snd (sweep (store_of v ou dm) (sweep_cutoff ou dm now) (ls_store (lv_loop s)))) s)"
proof -
  obtain r st where o: "c_older (store_of v ou dm) (sweep_cutoff ou dm now) (ls_store (lv_loop s)) = (r, st)" by fastforce
  let ?ids = "case r of Inl _ \<Rightarrow> [] | Inr ids \<Rightarrow> ids"
  have "live_step v ou dm (OnSweep now) s = Some (with_store st (s\<lparr>lv_expired := ?ids\<rparr>))"
    using assms o by (simp add: live_step_def sweep_step_def)
  moreover have "snd (sweep (store_of v ou dm) (sweep_cutoff ou dm now) (ls_store (lv_loop s)))
      = snd (delete_all (store_of v ou dm) ?ids st)"
    using o by (cases r) (auto simp: sweep_def split: prod.split)
  moreover have "s\<lparr>lv_expired := []\<rparr> = s" using assms by simp
  ultimately have "live_run v ou dm (OnSweep now # replicate (length ?ids) OnExpire) s
      = Some (with_store (snd (sweep (store_of v ou dm) (sweep_cutoff ou dm now) (ls_store (lv_loop s)))) s)"
    using expire_all [OF refl, of "with_store st (s\<lparr>lv_expired := ?ids\<rparr>)" ?ids v ou dm] by (simp add: with_store_def)
  then show ?thesis by blast
qed

section \<open>Properties\<close>

text \<open>
  C1. The whole program: whatever the user clicks, whatever happens to the blocklist file, and
  however the goroutines interleave, every memory a running daemon hands to its store shows the
  process, the title and the URL of a window a display checked, under the gate in force at that
  moment, before its screenshot. Capture was not paused then, no focused password field was reported, and
  neither that window nor any window visible behind it is one the built-in list blocks. The dwell,
  content and engagement gates were passed as well.
\<close>

theorem remembered_windows_passed_gate:
  assumes "run v b = (Running dm, b')"
    and "live_run v ou dm es (live_start dm tr loops dxgi) = Some s" "node \<in> set (lv_written s)"
  shows "\<exists>f g w i md. (f, g, w) \<in> set (lv_sent s) \<and> checked_at v ou dm es (live_start dm tr loops dxgi) i g w
     \<and> qualifies (deps_of v ou dm) f node \<and> \<not> paused g
     \<and> query_window_context_windows (v_um v) w = Inr md
     \<and> mn_process_name node = md_process_name md \<and> mn_window_title node = md_window_title md
     \<and> mn_browser_url node = md_browser_url md \<and> md_focused_input_role md \<notin> sensitive_roles
     \<and> \<not> blocked (check_compiled (v_um v) (default_compiled (v_um v)) (context_of md))
     \<and> (\<forall>p\<in>set (query_visible_background_processes_windows (v_um v) w).
          \<not> blocked (check_compiled (v_um v) (default_compiled (v_um v)) (background_context p)))"
proof -
  let ?s0 = "live_start dm tr loops dxgi"
  have "frames_ok v ou dm s"
    using live.runs_keep [OF assms(2) live_start_inv [OF assms(1)]] by (simp add: live_inv_def)
  then obtain f g w where x: "(f, g, w) \<in> set (lv_sent s)" "qualifies (deps_of v ou dm) f node" "shot_ok v ou dm (f, g, w)"
    using assms(3) by (fastforce simp: frames_ok_def memories_def)
  obtain e room ml d0 ml2 d2 where e: "protects (v_um v) (gate_blocklist g)" "te_gate e = check_windows (v_um v) g w"
    "capture_tick (cfg_capture (dm_cfg dm)) (o_hdist ou) e room ml d0 = Some (ml2, d2, Some f)"
    using x(3) by (auto simp: shot_ok_def)
  obtain i where i: "checked_at v ou dm es ?s0 i g w"
    using checks_recorded(2) [OF assms(2)] x(1) by (fastforce simp: live_start_def)
  from e obtain md where "\<not> paused g" "query_window_context_windows (v_um v) w = Inr md"
    "cw_process_name (window_ctx f) = md_process_name md" "cw_window_title (window_ctx f) = md_window_title md"
    "cw_browser_url (window_ctx f) = md_browser_url md" "md_focused_input_role md \<notin> sensitive_roles"
    "\<not> blocked (check_compiled (v_um v) (default_compiled (v_um v)) (context_of md))"
    "\<forall>p\<in>set (query_visible_background_processes_windows (v_um v) w).
       \<not> blocked (check_compiled (v_um v) (default_compiled (v_um v)) (background_context p))"
    by (rule tick_passed_gate)
  then show ?thesis using x(1,2) i unfolding qualifies_def by metis
qed

text \<open>
  C2. Nothing else gets into the store: on a disk that works, whatever requests the web server answers
  and whatever the sweeps delete meanwhile, every record of the store is either one of the first
  records, unchanged, or decrypts to a memory that was written, under its identifier and its time.
  (The random identifiers are taken to be new, and the memories to be encodable.)
\<close>

theorem store_holds_written_memories:
  assumes "live_run v ou dm es (live_start dm tr loops dxgi) = Some s"
    and "lib_ok (v_lib v)" "json_wf (v_lib v) (dm_encryptor dm) (dm_store dm)"
    and "\<forall>x. OnWrite (Inr x) \<in> set es \<longrightarrow> length x = 12" "ids_fresh v dm (lv_written s)"
    and "json_records (v_lib v) (dm_encryptor dm) (ls_store (lv_loop s)) i = Some (ts, p)"
  shows "json_records (v_lib v) (dm_encryptor dm) (dm_store dm) i = Some (ts, p)
     \<or> (\<exists>node\<in>set (lv_written s). mn_id node = i \<and> mn_captured_at node = ts
          \<and> decode_record (v_lib v) (dm_encryptor dm) i (p, ts) = Inr (node\<lparr>schema_version := current_schema_version\<rparr>))"
proof -
  have "store_ok v dm (live_start dm tr loops dxgi)"
    using assms(3) by (simp add: store_ok_def live_start_def)
  from store_runs [OF assms(1) this assms(2,5,4)] assms(6) show ?thesis by (simp add: store_ok_def)
qed

text \<open>
  C3. What a pause stops, and what it does not: until the user resumes, no display takes a screenshot
  but one whose check had passed when the pause was chosen. The frames already taken go on: the
  memories still written are at most those in flight, one for each display and for each place of
  the queue, and four for the stages between. Once these are written nothing is recorded.
\<close>

theorem pause_drains:
  assumes "run v b = (Running dm, b')"
    and "live_run v ou dm es (live_start dm tr loops dxgi) = Some s"
    and "tray_gate (lv_tray s) = Some g" "paused g"
    and "live_run v ou dm fs s = Some t" "OnClick ClickResume \<notin> set fs"
  shows "(\<exists>new. lv_shots t = lv_shots s @ new \<and> (\<forall>x\<in>set new. \<exists>i. lv_checked s i = Some (snd x)))
     \<and> length (lv_written t) + in_flight t \<le> length (lv_written s) + in_flight s
     \<and> in_flight s \<le> length (lv_loops s) + nat (queue_depth (cfg_capture (dm_cfg dm))) + 4"
proof -
  have inv: "live_inv v ou dm s"
    using live.runs_keep [OF assms(2) live_start_inv [OF assms(1)]] .
  note dm = running_gate_protects(2,3) [OF assms(1)]
  have "q_cap (dm_queue dm) = nat (queue_depth (cfg_capture (dm_cfg dm)))" using new_queue_inv [OF _ dm(1)] dm(2) by simp
  then show ?thesis
    using pause_run(1,4) [OF assms(5) inv assms(3,4,6)] in_flight_bound [OF inv] by simp
qed

text \<open>
  C4. The Windows daemon cannot run for long: over its whole life it takes no more screenshots (sent or not) than it
  can create callbacks, because every check that reaches the windows in the background creates one
  and none is ever released. When they are used up the next such check ends the process inside the creation of its callback, whatever
  the user, the files and the server did meanwhile.
\<close>

theorem screenshots_use_up_callbacks:
  assumes "run v b = (Running dm, b')" and "live_run v ou dm es (live_start dm tr loops dxgi) = Some s"
  shows "length (lv_shots s) \<le> o_callback_limit ou - package_callbacks
     \<and> (\<forall>g w i. lv_callbacks s \<ge> o_callback_limit ou \<and> tray_gate (lv_tray s) = Some g \<and> asks_background (v_um v) g w
          \<longrightarrow> gate_check_windows (v_um v) (o_callback_limit ou) g w (lv_callbacks s) = None
            \<and> live_step v ou dm (OnCheck i w) s = None)"
proof
  have "callbacks_ok v ou (live_start dm tr loops dxgi)"
    by (simp add: callbacks_ok_def live_start_def spent_checks_def)
  then have "callbacks_ok v ou s" using callbacks_run [OF assms(2)] live_start_inv [OF assms(1)] by blast
  then show "length (lv_shots s) \<le> o_callback_limit ou - package_callbacks" by (auto simp: callbacks_ok_def)
  show "\<forall>g w i. lv_callbacks s \<ge> o_callback_limit ou \<and> tray_gate (lv_tray s) = Some g \<and> asks_background (v_um v) g w
      \<longrightarrow> gate_check_windows (v_um v) (o_callback_limit ou) g w (lv_callbacks s) = None
        \<and> live_step v ou dm (OnCheck i w) s = None"
    by (auto simp: live_step_def check_step_def gate_check_windows_eq new_callback_def)
qed

section \<open>A daemon that remembers a window\<close>

text \<open>The first start of \<open>Daemon\<close>, on a machine where the model server answers.\<close>

definition live_env :: env where
  "live_env = sample_env\<lparr>v_dec := d_dec sample_deps, v_net := d_net sample_deps, v_resolve := d_resolve sample_deps\<rparr>"

definition sample_outside :: outside where
  "sample_outside = \<lparr>o_math = rounded_math, o_hdist = (\<lambda>h k. Inr 64), o_jpeg = d_jpeg sample_deps, o_order = all_cached, o_format_time = itoa,
     o_start_of_day = (\<lambda>t. t), o_add_days = (\<lambda>t n. t + n * 86400 * 1000000000),
     o_callback_limit = 1024\<rparr>"

lemma live_env_same:
  "load_step live_env = load_step sample_env" "open_key live_env = open_key sample_env"
  "consent_step live_env = consent_step sample_env" "init_step live_env = init_step sample_env"
  "v_um live_env = id" "v_yaml live_env = (\<lambda>_. None)" "v_lib live_env = sample_lib"
proof -
  have same: "v_uid live_env = v_uid sample_env" "v_home live_env = v_home sample_env"
    "v_read_config live_env = v_read_config sample_env" "v_unmarshal live_env = v_unmarshal sample_env"
    "v_config_path live_env = v_config_path sample_env" "v_mkdir_data live_env = v_mkdir_data sample_env"
    "v_lib live_env = v_lib sample_env" "v_keyring live_env = v_keyring sample_env"
    "v_key_entropy live_env = v_key_entropy sample_env" "v_key_set_error live_env = v_key_set_error sample_env"
    "v_key_ref live_env = v_key_ref sample_env" "v_consent_lib live_env = v_consent_lib sample_env"
    "v_headless live_env = v_headless sample_env" "v_platform live_env = v_platform sample_env"
    "v_now live_env = v_now sample_env" "v_mkdir_config live_env = v_mkdir_config sample_env"
    "v_write_fails live_env = v_write_fails sample_env" "v_default_blocklist live_env = v_default_blocklist sample_env"
    "v_watch_ok live_env = v_watch_ok sample_env" "v_mkdir_store live_env = v_mkdir_store sample_env"
    "v_ui live_env = v_ui sample_env" "v_csrf live_env = v_csrf sample_env" "v_um live_env = v_um sample_env"
    "v_regexps live_env = v_regexps sample_env" "v_yaml live_env = v_yaml sample_env"
    by (simp_all add: live_env_def)
  show "load_step live_env = load_step sample_env" "open_key live_env = open_key sample_env"
    "consent_step live_env = consent_step sample_env" "init_step live_env = init_step sample_env"
    unfolding load_step_def fun_eq_iff open_key_def consent_step_def init_step_def same by simp_all
  show "v_um live_env = id" "v_yaml live_env = (\<lambda>_. None)" "v_lib live_env = sample_lib"
    by (simp_all add: live_env_def sample_env_def)
qed

text \<open>The disk after the first consent: nothing but the record, so the store is empty.\<close>

definition blank :: "fs \<Rightarrow> bool" where
  "blank f \<longleftrightarrow> healthy_fs f \<and> dom (disk f) \<subseteq> {consent_path}"

lemma blank_store:
  assumes "blank f"
  shows "new_json_store l e f = (Map.empty, f)" "json_wf l e \<lparr>js_fs = f, js_cache = c\<rparr>"
    "json_records l e \<lparr>js_fs = f, js_cache = c\<rparr> = Map.empty"
proof -
  have n: "disk f p = None" if "p \<noteq> consent_path" for p using assms that by (auto simp: blank_def)
  have p: "index_enc_path \<noteq> consent_path" "plain_path \<noteq> consent_path" "wal_path \<noteq> consent_path"
    "node_path i \<noteq> consent_path" if "length i = 16" for i
    using node_path_length [of i] that by (auto simp: index_enc_path_def plain_path_def wal_path_def consent_path_def)
  have q: "index_enc_path \<noteq> consent_path" "plain_path \<noteq> consent_path" "wal_path \<noteq> consent_path"
    by (simp_all add: index_enc_path_def plain_path_def wal_path_def consent_path_def)
  have h: "healthy_fs f" using assms by (simp add: blank_def)
  have r: "read_index l e (disk f) = Some []" using n [OF q(1)] by (simp add: read_index_def)
  show "new_json_store l e f = (Map.empty, f)"
    using n [OF q(2)] n [OF q(3)] h load_index_healthy [OF h r]
    by (simp add: new_json_store_def migrate_index_if_needed_def replay_wal_def os_healthy load_embedding_cache_def)
  show "json_wf l e \<lparr>js_fs = f, js_cache = c\<rparr>"
    using h r n p by (simp add: json_wf_def json_entries_def index_safe_def)
  show "json_records l e \<lparr>js_fs = f, js_cache = c\<rparr> = Map.empty"
    using n p by (auto simp: json_records_def fun_eq_iff)
qed

lemma sample_consent_blank:
  assumes "b_fs b = sample_fs []" "consent_step sample_env km b = (None, b1)" shows "blank (b_fs b1)"
proof -
  have "disk (sample_fs []) consent_path = None" by simp
  then show ?thesis
    using assms
    by (auto simp: consent_step_def sample_env_def is_consent_granted_def load_consent_record_def os_healthy
        request_consent_def show_consent_dialog_def consent_manager_def sign_record_def sample_consent_lib_def
        Let_def blank_def renamed_def split: prod.splits if_splits option.splits)
qed


lemma verify_step_unpinned:
  assumes "model_digest (cfg_inference cfg) = []"
  shows "\<exists>b1. verify_step v cfg b = (None, b1) \<and> b_fs b1 = b_fs b"
proof -
  let ?c = "new_client (cfg_inference cfg)"
  obtain x sent where p: "ping (v_net v) (v_resolve v) ?c (b_sent b) = (x, sent)" by fastforce
  obtain y sent2 where m: "verify_model (v_dec v) (v_net v) (v_resolve v) ?c sent = (y, sent2)" by fastforce
  show ?thesis using p m assms by (cases x; cases y) (simp_all add: verify_step_def Let_def)
qed

lemma live_daemon:
  obtains dm b' where "run live_env sample_boot = (Running dm, b')"
    "blank (js_fs (dm_store dm))" "dm_cfg dm = expand_config (Some ''/home/me'') config_defaults"
    "\<not> gr_blocked (check_windows id (dm_gate dm) notes_desktop)"
    "dm_governor dm = sample_governor"
proof -
  let ?c = "expand_config (Some ''/home/me'') config_defaults" and ?v = live_env
  have l: "load_step ?v = Inr ?c"
    unfolding live_env_same by (simp add: load_step_def sample_env_def load_config_def defaults_valid)
  obtain b enc where k: "open_key ?v sample_boot = (Inr \<lparr>km_ref = 0\<rparr>, b)"
    "new_encryptor (km_key \<lparr>km_ref = 0\<rparr> (b_mem b)) = Inr enc" using sample_key unfolding live_env_same by blast
  have fs: "b_fs b = sample_fs []" using open_key_ok [OF k(1)] by (simp add: sample_boot_def)
  then obtain b1 where c: "consent_step ?v \<lparr>km_ref = 0\<rparr> b = (None, b1)" "blank (b_fs b1)"
    unfolding live_env_same using sample_consent sample_consent_blank by blast
  have "model_digest (cfg_inference ?c) = []" by (simp add: expand_config_def config_defaults_def)
  then obtain b2 where d: "verify_step ?v ?c b1 = (None, b2)" "b_fs b2 = b_fs b1" using verify_step_unpinned by blast
  have "sample_env\<lparr>v_yaml := v_yaml sample_env\<rparr> = sample_env" by simp
  then obtain dm b3 where i: "init_step ?v ?c enc b2 = (Running dm, b3)"
    using sample_init [of ?c "v_yaml sample_env" enc b2] unfolding live_env_same by (auto simp: expand_config_def)
  have "start_tray_icon (v_headless ?v) (v_platform ?v) (v_tray_ready ?v) = None" "\<not> v_wipe ?v" "\<not> v_status ?v"
    by (simp_all add: live_env_def sample_env_def start_tray_icon_def)
  then have "after_keys ?v ?c \<lparr>km_ref = 0\<rparr> enc b = (Running dm, b3)"
    using c(1) d(1) i by (simp add: after_keys_def)
  then have r: "run ?v sample_boot = (Running dm, b3)" using l k by (simp add: run_def)
  have "dm_store dm = \<lparr>js_fs = b_fs b1, js_cache = Map.empty\<rparr>"
    using i blank_store(1) [OF c(2)] d(2)
    by (auto simp: init_step_def Let_def split: option.splits start_result.splits if_splits prod.splits)
  then have st: "blank (js_fs (dm_store dm))" using c(2) by simp
  have "new_governor (cfg_resource_budget ?c) = Started (dm_governor dm)" using i by (rule init_step_running)
  then have gov: "dm_governor dm = sample_governor"
    by (auto simp: new_governor_def sample_governor_def expand_config_def config_defaults_def split: if_splits)
  note s = sample_daemon_of [OF r live_env_same(1,5,6)]
  show thesis by (rule that [OF r st s(1,3) gov])
qed

text \<open>
  The window was in front for half a minute; once it is checked, its screenshot is queued, described
  and written, whatever the tray says meanwhile.
\<close>

definition sample_events :: "gate_result \<Rightarrow> live_event list" where
  "sample_events res =
     [OnTick 0 ((quiet_tick 30000000000 res)\<lparr>te_input := Some (5000, 0)\<rparr>), OnReceive, OnPush, OnPop,
      OnDecide sample_turn, OnWrite (Inr (replicate 12 0))]"

definition sample_display :: "gate_result \<Rightarrow> int monitor_loop" where
  "sample_display res = tiny_monitor\<lparr>last_window_key := window_key (gr_window_ctx res), window_since := 0\<rparr>"

definition sample_checked :: "daemon \<Rightarrow> tray_state \<Rightarrow> live" where
  "sample_checked dm tr =
     (live_start dm initial_tray [sample_display (check_windows id (dm_gate dm) notes_desktop)] None)
       \<lparr>lv_checked := (\<lambda>_. None)(0 \<mapsto> (dm_gate dm, notes_desktop)), lv_callbacks := 3, lv_tray := tr\<rparr>"

lemma sample_gate_check:
  assumes "\<not> gr_blocked (check_windows id g notes_desktop)" "2 < limit"
  shows "gate_check_windows (v_um live_env) limit g notes_desktop package_callbacks = Some (check_windows id g notes_desktop, 3)"
  using passing_asks_background [OF assms(1)] assms(2)
  by (simp add: gate_check_windows_eq new_callback_def live_env_same package_callbacks_def)

lemma live_remembers:
  assumes r: "run live_env sample_boot = (Running dm, b')"
    and cfg: "dm_cfg dm = expand_config (Some ''/home/me'') config_defaults"
    and g: "\<not> gr_blocked (check_windows id (dm_gate dm) notes_desktop)"
    and gov: "dm_governor dm = sample_governor" and bl: "blank (js_fs (dm_store dm))"
  shows "\<exists>s node. live_run live_env sample_outside dm (sample_events (check_windows id (dm_gate dm) notes_desktop))
       (sample_checked dm tr) = Some s \<and> lv_written s = [node] \<and> node_safe node
     \<and> (\<exists>x. json_records sample_lib (dm_encryptor dm) (ls_store (lv_loop s)) (mn_id node) = Some x)"
proof -
  let ?res = "check_windows id (dm_gate dm) notes_desktop" and ?v = live_env and ?o = sample_outside
  let ?ml = "sample_display ?res"
  let ?e = "(quiet_tick 30000000000 ?res)\<lparr>te_input := Some (5000, 0)\<rparr>"
  have ctx: "gr_window_ctx ?res = context_of \<lparr>md_process_name = ''notepad'', md_window_title = ''notes.txt'',
      md_browser_url = [], md_focused_input_role = [], md_pid = 40\<rparr>"
    using g by (auto simp: check_windows_def check_gate_def gate_check_def notepad_md Let_def block_result_def split: option.splits if_splits)
  obtain ml2 f im where t: "capture_tick (cfg_capture config_defaults) (\<lambda>h k. Inr 64) ?e True ?ml None = Some (ml2, None, Some f)"
    and f: "frame_image f = Some im" "frame_dwell_seconds f = 30" "seconds_since_input f = 5"
      "cw_process_name (window_ctx f) = ''notepad''" "cw_window_title (window_ctx f) = ''notes.txt''"
      "cw_browser_url (window_ctx f) = []" "captured_at f = 30000000000"
    using dwelt_tick_captures [OF g] ctx by (auto simp: context_of_def sample_display_def)
  let ?s1 = "sample_checked dm tr"
  let ?s2 = "(live_start dm initial_tray [ml2] None)\<lparr>lv_callbacks := 3, lv_tray := tr, lv_chan := Some f,
      lv_shots := [(f, dm_gate dm, notes_desktop)], lv_sent := [(f, dm_gate dm, notes_desktop)]\<rparr>"
  have cap: "cfg_capture (dm_cfg dm) = cfg_capture config_defaults" by (simp add: cfg expand_config_def)
  have e: "?e\<lparr>te_gate := check_windows (v_um ?v) (dm_gate dm) notes_desktop\<rparr> = ?e"
    by (simp add: live_env_same quiet_tick_def)
  have 1: "live_step ?v ?o dm (OnTick 0 ?e) ?s1 = Some ?s2"
    unfolding live_step_def live_event.case tick_step_def
    using tick_shot_sent [OF t]
    by (simp add: live_start_def sample_checked_def e cap t sample_outside_def fun_upd_idem)
  note q = running_gate_protects(2,3) [OF r]
  have q0: "queue_inv (dm_queue dm)" "contents (dm_queue dm) = []" "q_cap (dm_queue dm) \<noteq> 0"
    using new_queue_inv [OF _ q(1)] q(2) by auto
  obtain q1 where q1: "push f (dm_queue dm) = Some q1" "queue_inv q1" "contents q1 = [f]"
    using push_ok [OF q0(1), of f] q0(2,3) by auto
  obtain q2 where q2: "try_pop q1 = Some (Some f, q2)" using rb.deq_law [OF q1(2,3)] by auto
  let ?s3 = "?s2\<lparr>lv_chan := None, lv_queue := q1\<rparr>" and ?s4 = "?s2\<lparr>lv_chan := None, lv_queue := q2, lv_popped := Some f\<rparr>"
  have 2: "live_step ?v ?o dm OnReceive ?s2 = Some (?s2\<lparr>lv_chan := None, lv_bridge := Some f\<rparr>)"
    "live_step ?v ?o dm OnPush (?s2\<lparr>lv_chan := None, lv_bridge := Some f\<rparr>) = Some ?s3"
    by (simp_all add: live_step_def receive_step_def push_step_def live_start_def q1)
  have 3: "live_step ?v ?o dm OnPop ?s3 = Some ?s4"
    by (simp add: live_step_def pop_step_def live_start_def q2)
  let ?d = "held_back (deps_of ?v ?o dm)"
  have d: "d_um ?d = (\<lambda>s. s)" "d_math ?d = rounded_math" "d_jpeg ?d = d_jpeg sample_deps" "d_dec ?d = d_dec sample_deps" "d_net ?d = d_net sample_deps"
    "d_resolve ?d = d_resolve sample_deps" "cfg_inference (d_cfg ?d) = cfg_inference config_defaults"
    "cfg_semantic_filter (d_cfg ?d) = cfg_semantic_filter config_defaults"
    by (simp_all add: held_back_def deps_of_def sample_outside_def live_env_same cfg expand_config_def id_def)
      (simp_all add: live_env_def)
  have k: "pre_class (\<lambda>s. s) f = ClassWorkDocument" using f notes_class by (simp add: pre_class_def)
  have "dwell_weight rounded_math 30 = 1" using rounded_log1p_30 tenth_bounds by (simp add: dwell_weight_def Let_def)
  moreover have "fl64 3 = 3" using fl64_of_int [of 3] by simp
  ultimately have score: "engagement_score rounded_math (signals_of (\<lambda>s. s) f) = 3"
    using k f by (simp add: engagement_score_def signals_of_def
        interaction_weight_def recent_def content_class_weight_def class_weights_def view_count_boost_def)
  have l4: "lv_loop ?s4 = \<lparr>ls_gov = sample_governor, ls_sent = [], ls_store = dm_store dm, consecutive_fails = 0\<rparr>"
    by (simp add: live_start_def gov)
  obtain g1 where "gov_acquire (tn_gov sample_turn) (ls_gov (lv_loop ?s4)) = Some (True, g1)"
    unfolding l4 by (simp add: gov_acquire_def sample_turn_def sample_governor_def start_gov_def gov_step_def
        acquire_step_def config_defaults_def)
  then obtain u res where u: "inference_turn ?d (sample_turn\<lparr>tn_frame := Some f\<rparr>) (lv_loop ?s4)
      = Some (Continues, u, Some (node_of f res [] 3 (replicate 16 0)))" "ir_description res = ''Go code.''" "ir_tags res = [''go'']"
    using sample_turn_of [OF d f(1)] f(2) k score by fastforce
  let ?n = "node_of f res [] 3 (replicate 16 0)"
  have "list_all valid_utf8 [''Go code.'', ''notepad'', ''notes.txt'', [], ''go'']" by code_simp
  then have safe: "node_safe ?n"
    using u(2,3) f fl64_of_int [of 3] by (simp add: node_safe_def node_of_def int64_range_def set_uuid_bits_def)
  let ?s5 = "?s4\<lparr>lv_popped := None, lv_loop := u, lv_unwritten := Some ?n\<rparr>"
  have 4: "live_step ?v ?o dm (OnDecide sample_turn) ?s4 = Some ?s5"
    using u(1) by (simp add: live_step_def decide_step_def live_start_def)
  have su: "ls_store u = dm_store dm" using decide_keeps_store [OF u(1)] l4 by simp
  have "\<lparr>js_fs = js_fs (dm_store dm), js_cache = js_cache (dm_store dm)\<rparr> = dm_store dm" by (cases "dm_store dm") simp
  then have store: "json_wf sample_lib (dm_encryptor dm) (dm_store dm)" "json_records sample_lib (dm_encryptor dm) (dm_store dm) = Map.empty"
    using blank_store(2,3) [OF bl, of sample_lib "dm_encryptor dm" "js_cache (dm_store dm)"] by (metis, metis)
  have wf: "lib_ok sample_lib \<and> json_wf sample_lib (dm_encryptor dm) (dm_store dm)"
    and none: "json_records sample_lib (dm_encryptor dm) (dm_store dm) (mn_id ?n) = None" using store sample_lib_ok by simp_all
  obtain st x where st: "store_write sample_lib (dm_encryptor dm) (store_of ?v ?o dm) (Inr (replicate 12 0)) ?n (dm_store dm) = (None, st)"
    "json_records sample_lib (dm_encryptor dm) st (mn_id ?n) = Some x"
    using json.store_write_law [OF sample_lib_ok wf safe none, of "replicate 12 0" "dm_encryptor dm" all_cached]
    by (auto simp: store_of_def live_env_same sample_outside_def)
  let ?s6 = "with_store st (?s5\<lparr>lv_unwritten := None, lv_written := [?n]\<rparr>)"
  have 5: "live_step ?v ?o dm (OnWrite (Inr (replicate 12 0))) ?s5 = Some ?s6"
    using st(1) by (simp add: live_step_def write_step_def live_start_def su live_env_same)
  have "live_run ?v ?o dm (sample_events ?res) ?s1 = Some ?s6"
    using 1 2 3 4 5 by (simp add: sample_events_def bind_eq_Some_conv)
  moreover have "lv_written ?s6 = [?n]" by simp
  moreover have "json_records sample_lib (dm_encryptor dm) (ls_store (lv_loop ?s6)) (mn_id ?n) = Some x" using st(2) by simp
  ultimately show ?thesis using safe by blast
qed


lemma sample_live_run:
  obtains dm b' s node where "run live_env sample_boot = (Running dm, b')" "blank (js_fs (dm_store dm))"
    "live_run live_env sample_outside dm
       (OnCheck 0 notes_desktop # sample_events (check_windows id (dm_gate dm) notes_desktop))
       (live_start dm initial_tray [sample_display (check_windows id (dm_gate dm) notes_desktop)] None) = Some s"
    "lv_written s = [node]" "node_safe node"
    "\<exists>x. json_records sample_lib (dm_encryptor dm) (ls_store (lv_loop s)) (mn_id node) = Some x"
proof -
  obtain dm b' where dm: "run live_env sample_boot = (Running dm, b')"
    "blank (js_fs (dm_store dm))" "dm_cfg dm = expand_config (Some ''/home/me'') config_defaults"
    "\<not> gr_blocked (check_windows id (dm_gate dm) notes_desktop)" "dm_governor dm = sample_governor"
    by (rule live_daemon)
  let ?res = "check_windows id (dm_gate dm) notes_desktop"
  let ?tr = "initial_tray\<lparr>tray_gate := Some (dm_gate dm)\<rparr>"
  obtain s node where s: "live_run live_env sample_outside dm (sample_events ?res) (sample_checked dm ?tr) = Some s"
    "lv_written s = [node]" "node_safe node"
    "\<exists>x. json_records sample_lib (dm_encryptor dm) (ls_store (lv_loop s)) (mn_id node) = Some x"
    using live_remembers [OF dm(1,3,4,5,2)] by blast
  have "live_step live_env sample_outside dm (OnCheck 0 notes_desktop) (live_start dm initial_tray [sample_display ?res] None)
      = Some (sample_checked dm ?tr)"
    by (simp add: live_step_def check_step_def live_start_def sample_checked_def sample_gate_check [OF dm(4)] sample_outside_def)
  then show thesis using that [OF dm(1,2) _ s(2,3,4)] s(1) by simp
qed

theorem remembered_windows_passed_gate_witness:
  "\<exists>dm b' es loops s node f g w. run live_env sample_boot = (Running dm, b')
     \<and> live_run live_env sample_outside dm es (live_start dm initial_tray loops None) = Some s
     \<and> lv_written s = [node] \<and> (f, g, w) \<in> set (lv_sent s) \<and> qualifies (deps_of live_env sample_outside dm) f node \<and> \<not> paused g"
proof -
  obtain dm b' s node where r: "run live_env sample_boot = (Running dm, b')" "lv_written s = [node]"
    and l: "live_run live_env sample_outside dm
       (OnCheck 0 notes_desktop # sample_events (check_windows id (dm_gate dm) notes_desktop))
       (live_start dm initial_tray [sample_display (check_windows id (dm_gate dm) notes_desktop)] None) = Some s"
    by (rule sample_live_run)
  have "node \<in> set (lv_written s)" using r(2) by simp
  from remembered_windows_passed_gate [OF r(1) l this] r l show ?thesis by blast
qed

theorem store_holds_written_memories_witness:
  "\<exists>dm es loops s node ts p. live_run live_env sample_outside dm es (live_start dm initial_tray loops None) = Some s
     \<and> lv_written s = [node] \<and> json_records sample_lib (dm_encryptor dm) (ls_store (lv_loop s)) (mn_id node) = Some (ts, p)
     \<and> decode_record sample_lib (dm_encryptor dm) (mn_id node) (p, ts) = Inr (node\<lparr>schema_version := current_schema_version\<rparr>)"
proof -
  obtain dm b' s node where bl: "blank (js_fs (dm_store dm))" and w: "lv_written s = [node]" "node_safe node"
    and l: "live_run live_env sample_outside dm
       (OnCheck 0 notes_desktop # sample_events (check_windows id (dm_gate dm) notes_desktop))
       (live_start dm initial_tray [sample_display (check_windows id (dm_gate dm) notes_desktop)] None) = Some s"
    and "\<exists>x. json_records sample_lib (dm_encryptor dm) (ls_store (lv_loop s)) (mn_id node) = Some x"
    by (rule sample_live_run)
  then obtain ts p where x: "json_records (v_lib live_env) (dm_encryptor dm) (ls_store (lv_loop s)) (mn_id node) = Some (ts, p)"
    by (auto simp: live_env_same)
  have "\<lparr>js_fs = js_fs (dm_store dm), js_cache = js_cache (dm_store dm)\<rparr> = dm_store dm" by (cases "dm_store dm") simp
  then have store: "json_wf (v_lib live_env) (dm_encryptor dm) (dm_store dm)"
    "json_records (v_lib live_env) (dm_encryptor dm) (dm_store dm) = Map.empty"
    using blank_store(2,3) [OF bl, of "v_lib live_env" "dm_encryptor dm" "js_cache (dm_store dm)"] by (metis, metis)
  have lib: "lib_ok (v_lib live_env)" using sample_lib_ok by (simp add: live_env_same)
  have n: "\<forall>x. OnWrite (Inr x) \<in> set (OnCheck 0 notes_desktop # sample_events (check_windows id (dm_gate dm) notes_desktop))
      \<longrightarrow> length x = 12" by (simp add: sample_events_def)
  have "ids_fresh live_env dm (lv_written s)" using w store(2) by (simp add: ids_fresh_def)
  from store_holds_written_memories [OF l lib store(1) n this x] store(2) w(1)
  have "decode_record sample_lib (dm_encryptor dm) (mn_id node) (p, ts) = Inr (node\<lparr>schema_version := current_schema_version\<rparr>)"
    by (simp add: live_env_same)
  with l w(1) x show ?thesis unfolding live_env_same by blast
qed

text \<open>The pause is chosen between the check and the screenshot: the window is remembered all the same.\<close>

theorem pause_drains_witness:
  "\<exists>dm b' loops s fs t node. run live_env sample_boot = (Running dm, b')
     \<and> live_run live_env sample_outside dm [OnCheck 0 notes_desktop, OnClick ClickPause]
         (live_start dm initial_tray loops None) = Some s
     \<and> lv_shots s = [] \<and> live_run live_env sample_outside dm fs s = Some t \<and> lv_written t = [node]
     \<and> in_flight t = 0 \<and> in_flight s \<le> 105"
proof -
  obtain dm b' where dm: "run live_env sample_boot = (Running dm, b')"
    "blank (js_fs (dm_store dm))" "dm_cfg dm = expand_config (Some ''/home/me'') config_defaults"
    "\<not> gr_blocked (check_windows id (dm_gate dm) notes_desktop)" "dm_governor dm = sample_governor"
    by (rule live_daemon)
  let ?res = "check_windows id (dm_gate dm) notes_desktop" and ?g = "pause (dm_gate dm)"
  let ?tr = "initial_tray\<lparr>tray_gate := Some ?g, pause_item_visible := False, tooltip_paused := True\<rparr>"
  let ?s = "sample_checked dm ?tr"
  obtain t node where t: "live_run live_env sample_outside dm (sample_events ?res) ?s = Some t" "lv_written t = [node]"
    using live_remembers [OF dm(1,3,4,5,2)] by blast
  have s: "live_run live_env sample_outside dm [OnCheck 0 notes_desktop, OnClick ClickPause]
      (live_start dm initial_tray [sample_display ?res] None) = Some ?s"
    by (simp add: live_step_def check_step_def click_step_def tray_step_def live_start_def sample_checked_def initial_tray_def
        sample_gate_check [OF dm(4)] sample_outside_def)
  have g: "tray_gate (lv_tray ?s) = Some ?g" "paused ?g" by (simp_all add: sample_checked_def pause_def)
  have n: "OnClick ClickResume \<notin> set (sample_events ?res)" by (simp add: sample_events_def)
  note p = pause_drains [OF dm(1) s g t(1) n]
  have "open_checks ?s \<subseteq> {0}" by (auto simp: open_checks_def sample_checked_def split: if_splits)
  then have "card (open_checks ?s) \<le> card {0 :: nat}" by (rule card_mono [rotated]) simp
  moreover have "contents (lv_queue ?s) = []"
    using new_queue_inv [OF _ running_gate_protects(2) [OF dm(1)]] running_gate_protects(3) [OF dm(1)]
    by (simp add: sample_checked_def live_start_def)
  ultimately have "in_flight ?s \<le> 1" by (simp add: in_flight_def sample_checked_def live_start_def del: length_contents)
  moreover have "lv_written ?s = []" "lv_shots ?s = []" by (simp_all add: sample_checked_def live_start_def)
  moreover have "in_flight t = 0" "in_flight ?s \<le> 105" using p calculation t(2) by simp_all
  ultimately show ?thesis using dm(1) s t by blast
qed


text \<open>With one callback left and two displays, the check of the second ends the process.\<close>

theorem screenshots_use_up_callbacks_witness:
  "\<exists>dm b' s. run live_env sample_boot = (Running dm, b')
     \<and> live_run live_env (sample_outside\<lparr>o_callback_limit := 3\<rparr>) dm [OnCheck 0 notes_desktop]
         (live_start dm initial_tray [tiny_monitor, new_monitor_loop (image_rect 0 0 1 1) 1] None) = Some s
     \<and> length (lv_shots s) \<le> 1 \<and> live_step live_env (sample_outside\<lparr>o_callback_limit := 3\<rparr>) dm (OnCheck 1 notes_desktop) s = None"
proof -
  obtain dm b' where dm: "run live_env sample_boot = (Running dm, b')"
    "\<not> gr_blocked (check_windows id (dm_gate dm) notes_desktop)" by (rule live_daemon)
  let ?o = "sample_outside\<lparr>o_callback_limit := 3\<rparr>"
  let ?start = "live_start dm initial_tray [tiny_monitor, new_monitor_loop (image_rect 0 0 1 1) 1] None"
  let ?s = "?start\<lparr>lv_checked := (\<lambda>_. None)(0 \<mapsto> (dm_gate dm, notes_desktop)), lv_callbacks := 3\<rparr>"
  have l: "live_run live_env ?o dm [OnCheck 0 notes_desktop] ?start = Some ?s"
    by (simp add: live_step_def check_step_def live_start_def sample_gate_check [OF dm(2)])
  have g: "lv_callbacks ?s \<ge> o_callback_limit ?o" "tray_gate (lv_tray ?s) = Some (dm_gate dm)"
    "asks_background (v_um live_env) (dm_gate dm) notes_desktop"
    using passing_asks_background [OF dm(2)] by (simp_all add: live_start_def live_env_same sample_outside_def)
  have "live_step live_env ?o dm (OnCheck 1 notes_desktop) ?s = None" "length (lv_shots ?s) \<le> o_callback_limit ?o - package_callbacks"
    using screenshots_use_up_callbacks [OF dm(1) l] g by blast+
  moreover have "o_callback_limit ?o - package_callbacks = 1" by (simp add: package_callbacks_def)
  ultimately show ?thesis using dm(1) l by fastforce
qed

end
