(* ===== verification/Spec2Isabelle.thy ===== *)
theory Spec2Isabelle
  imports Prelude Machines Go_Strings Regexp Blocklist Default_Blocklist Privacy_Gate Classifier Float64 Engagement Frame_Queue
    Go_Url Config Governor Frame Capture Encryptor Disk Coherence Json_Store Sample_Codec Store_Recovery
    Vector_Search Memory_Store Retention Http_Client Ollama Inference_Loop
    Key_Pages Com Ui_Automation Dxgi Windows_Capturer X11_Capturer Consent Api Daemon Command_Line Supervisor First_Start Pipeline
    Callback_Pool Os_Threads Capture_Log Tray_Icon Live_Daemon Live_Run
begin

text \<open>
  Digital Ghost is a daemon that photographs the screen, lets a local model describe what it sees and
  keeps the descriptions as encrypted, searchable memories. This development models its Go code and
  proves what makes each part correct. It is a library: one theory for each part, read in the order of
  the imports above; every operation is a definition with the name of the function in the code.

  THE PROGRAM. \<open>cmd/digitalghost/main.go\<close> starts everything: configuration, the key from the keychain,
  consent, the tray icon, the blocklist and the gate, the governor, the store and the web server. Then
  three goroutines run: one loop for each display takes a frame when its ticker fires and the privacy
  gate lets it (\<open>internal/capture\<close>, \<open>internal/filter\<close>) and sends it to a bridge that pushes it into a
  bounded queue (\<open>internal/inference/queue.go\<close>); the inference loop pops a frame, waits for the
  governor, asks the Ollama server for a description and an embedding (\<open>internal/inference\<close>), checks
  coherence (\<open>internal/graph\<close>) and writes the memory (\<open>internal/storage\<close>); a sweep deletes old ones. The
  web server (\<open>internal/api\<close>) searches and deletes, the tray (\<open>internal/tray\<close>) pauses and stops.

  FOUNDATIONS. Prelude, Go_Strings, Regexp, Go_Url, Float64: the parts of the Go library the code uses
  (byte strings, \<open>int64\<close> with its wrap-around, \<open>strconv\<close>, the regular expressions of the shipped lists,
  \<open>url.Parse\<close>, path joining, rounded \<open>float64\<close> arithmetic as functions on reals with infinities and NaN).
  Machines: the interfaces \<open>event_machine\<close>, \<open>invariant_machine\<close> and \<open>step_system\<close>, through which the invariants
  of the governor, the tray, the displays, the frame queue with its two goroutines and the supervisor are proved.
  Com: the log of COM calls and what it means that a log is clean (nothing used after its release) and
  releases everything. Disk: a directory of files whose every operation may fail, be torn or find the
  process dead, with its schedule of faults as state.

  CAPTURE AND FILTERS. Blocklist (\<open>filter/blocklist.go\<close>): compilation, check, merge, hot reload; the locale
  \<open>reloadable_filter\<close> is what the gate relies on. Default_Blocklist: the embedded file. Privacy_Gate
  (\<open>capture/privacy.go\<close> and the queries of the three platforms) and Callback_Pool (what the Windows query uses up). Frame, Capture (\<open>frame.go\<close> and the display
  loop of \<open>capture_windows.go\<close>: masking, dwell, GDI handles, duplicates), Ui_Automation and Dxgi (the COM
  code of \<open>uia_windows.go\<close> and \<open>dxgi_windows.go\<close>), Os_Threads (the threads these calls run on), Windows_Capturer (all displays, interleaved, competing for the one place of the
  frame channel, from which the bridge receives), X11_Capturer
  (the other platforms, and the locale \<open>deduplicating_loop\<close> both loops satisfy). Classifier and Engagement
  (\<open>filter/classifier.go\<close>, \<open>filter/engagement.go\<close>).

  INFERENCE. Frame_Queue (\<open>queue.go\<close>: the ring buffer, the locale \<open>drop_oldest_queue\<close>, producer and consumer
  as steps), Governor (\<open>throttle*.go\<close>: the bucket, \<open>Acquire\<close> and the two background loops as steps), Http_Client and Ollama (\<open>ollama.go\<close> with retries, redirects, prompts,
  sanitizing, parsing), Coherence (\<open>coherence.go\<close>, the locale \<open>vector_reader\<close>), Inference_Loop (the turns of
  \<open>runInferenceLoop\<close>).

  STORAGE. Encryptor and Key_Pages (\<open>encrypt.go\<close>, \<open>keychain.go\<close>, \<open>mlock*.go\<close>), Json_Store (\<open>jsonstore.go\<close>), Store_Recovery
  (its behaviour under crashes), Vector_Search (its search implements \<open>vector_reader\<close>), Memory_Store
  (\<open>lancedb.go\<close>: the store over any connection that keeps the contract \<open>record_store\<close>, which the JSON store does),
  Retention (\<open>retention.go\<close>), Sample_Codec (a concrete codec and cipher, so that every assumption about the
  libraries is seen to hold of something).

  THE DAEMON. Config, Consent, Api, Daemon (\<open>run\<close> up to the goroutines), Command_Line (flags and \<open>main\<close>),
  Capture_Log (the loggers and what they say about the screen), Tray_Icon, Supervisor (stopping), First_Start (the installed blocklist), Pipeline (from the window to the memory when the
  goroutines are run one after the other). Live_Daemon is the running daemon as one machine: the record \<open>live\<close> is
  what the goroutines share (tray and gate, display loops, channel, bridge, queue, inference loop, store, web
  server, sweep), a \<open>live_event\<close> is what one of them does before another can come in, and its steps call the
  operations of the other theories, so a gate check and its screenshot, or the decision on a memory and its
  write, can be separated by a click, a reload, a request or a deletion. Its invariants are proved through
  \<open>invariant_machine\<close>; Live_Run holds the properties and a run that goes from a start to a stored memory.

  WHAT IS PROVED. The running daemon, in every interleaving: a memory goes back through queue and screenshot
  to a window that passed the gate in force at its check and that the built-in list does not name; a record of the store is one of
  the first or decrypts to a memory that was written; a pause lets through only what had been checked, and bounds what
  is still written; the screenshots of a process, sent or not, are no more than the callbacks it can create. The start: what holds whenever the daemon runs,
  and that the key is zeroed on every other way out but \<open>os.Exit\<close>. Around them: the gate
  and the lists (nothing removes a protection, every entry blocks whatever the case and position); the queue
  (order, drop-oldest, no lost wakeup); the governor (a bound on the calls of \<open>Acquire\<close> that return without error in any run, a bound on the
  requests); the client (local requests only, sanitized answers, every call ends); records (round trip,
  no transplanted record, an acknowledged write survives any crashes, a restart lists every node); deletion
  (exactly a range, exactly the old, every byte overwritten, the key destroyed); consent (counts exactly for
  an explicit record of the present text with the right signature or, as the code has it, none; found again at the next start); the server (only an authorised request deletes); resources (GDI handles released on all paths; COM
  references too, over the whole life of a DXGI session, but for what Windows delivers in part, and for the
  initialisation a query gets with \<open>S_FALSE\<close>). The refinements are functional: the ring buffer against its list of
  contents, the COM-level capturer against the session the display loop uses, with the meaning of
  the answers stated on its own (\<open>dxgi_outcome\<close>), the JSON store against a map
  of records, the interleaved displays against each display on its own without a channel.
  Where the code does not do what it says, a theorem shows the concrete behaviour (a blocked application
  behind another window that passes, a wrapped backoff, a redirect that carries a frame away, a password
  field that is never recognised, an index lost to one failed read, a log without the decisions it is said
  to hold, and others).

  PARAMETERS. Code outside the repository is an argument: the ciphers and the MAC, the JSON and YAML decoders,
  the JPEG encoder, the perceptual hash, the keyring, the HTTP network with its name resolution, the calendar,
  the Unicode case tables, \<open>math.Log1p\<close> and \<open>math.Log\<close> (the record \<open>go_math\<close>), the compiler for regular expressions outside the modelled syntax, the answers of
  Windows and of COM. What is assumed of them (a decoder inverts its encoder on valid data, opening inverts
  sealing, an authentication tag identifies its message, the logarithms are monotone on the arguments used) is a hypothesis with a concrete instance in a witness.

  BOUNDS AND TERMINATION. All functions are total. Loops over data are structural; the overwriting deletion
  ends because each pass writes at least one byte of a file of fixed size, the regular expression search
  because a rune is at least one byte. Fuel is used where a step consumes input of unknown width, one unit for each
  step: in the pattern parser (four units per byte of the pattern and eight more; its calls nest at most
  four deep per byte, and running out only hands the pattern to the parameter), in \<open>replace_all\<close>, trimming, splitting and
  UTF-8 validation (the length of the text, of which each step drops at least a byte). The redirects of the
  HTTP client are counted as package \<open>net/http\<close> counts them, ten requests, after which it reports an error. The retry counter
  of \<open>Infer\<close> is a natural number: only at \<open>max_retries\<close> of MaxInt64, after 2 to the 63 failed attempts, would the
  counter of the code wrap and go on. Goroutines are sequences of events or step relations: what is proved of them holds for every
  interleaving and every length.

  NOT MODELLED. Log messages about the program's own state; the GUIDs and the byte
  layout of the structures handed to Windows (the slots and identifiers that are used are constants of the
  model, and two of them are shown to be wrong); the timeouts of the web server and of contexts, which appear
  as events that may come at any time; data races on memory that no lock protects. The web page is a string.
\<close>

end
